(* ===== verification/Aether_Prelude.thy ===== *)
theory Aether_Prelude
  imports
    "HOL-Library.Word"
    "HOL-Library.AList"
    "HOL-Library.Multiset"
    "HOL-Library.List_Lexorder"
    Complex_Main
    "HOL-Library.Char_ord"
    "HOL-Library.Log_Nat"
    "HOL-Library.Finite_Map"
begin

text \<open>
  Shared vocabulary of the development: the names of the machine types the Rust code
  uses, Rust's \<open>Ordering\<close> and its stable \<open>sort_by\<close>, hash maps as association lists with
  distinct keys, and the generic list lemmas the components use.

  A \<open>HashMap\<close> is an association list with distinct keys; its order in the list is an
  order of iteration. Rust leaves that order unspecified, so an operation whose result may
  depend on it takes the order as an argument, a function that permutes the entries
  (\<open>iteration_order\<close>), and the theorems hold for every such function.

  Strings are lists of characters; the case folding and the alphanumeric test are those of
  the ASCII characters.
\<close>

section \<open>Machine types\<close>

type_synonym u8 = "8 word"
type_synonym u32 = "32 word"
type_synonym u64 = "64 word"
type_synonym millis = nat

named_theorems hashmap_simps
  \<open>lookup, key and distinctness laws of hash maps kept as association lists\<close>

abbreviation of_len :: "'a list \<Rightarrow> 'w::len word" where
  "of_len xs \<equiv> word_of_nat (length xs)"

text \<open>The four bytes of a 32-bit word, least significant first.\<close>

definition to_le_bytes :: "u32 \<Rightarrow> u8 list" where
  "to_le_bytes w = [ucast w, ucast (drop_bit 8 w), ucast (drop_bit 16 w), ucast (drop_bit 24 w)]"

lemma unat_of_len:
  "length xs < 2 ^ LENGTH('w::len) \<Longrightarrow> unat (of_len xs :: 'w word) = length xs"
  by (simp add: unat_of_nat take_bit_eq_mod)

section \<open>Ordering and the stable sort\<close>

text \<open>Rust's \<open>std::cmp::Ordering\<close> with \<open>reverse\<close> and \<open>then_with\<close>.\<close>

datatype ordering = Less | Equal | Greater

fun ord_reverse :: "ordering \<Rightarrow> ordering" where
  "ord_reverse Less = Greater"
| "ord_reverse Equal = Equal"
| "ord_reverse Greater = Less"

fun ord_then :: "ordering \<Rightarrow> ordering \<Rightarrow> ordering" where
  "ord_then Equal b = b"
| "ord_then Less b = Less"
| "ord_then Greater b = Greater"

definition cmp_lin :: "'a::linorder \<Rightarrow> 'a \<Rightarrow> ordering" where
  "cmp_lin a b = (if a < b then Less else if a = b then Equal else Greater)"

lemma ord_reverse_reverse [simp]: "ord_reverse (ord_reverse o1) = o1"
  by (cases o1) auto

lemma ord_reverse_then [simp]:
  "ord_reverse (ord_then o1 o2) = ord_then (ord_reverse o1) (ord_reverse o2)"
  by (cases o1) auto

lemma ord_then_eq_Equal [simp]: "ord_then o1 o2 = Equal \<longleftrightarrow> o1 = Equal \<and> o2 = Equal"
  by (cases o1) auto

lemma ord_then_not_Greater:
  "ord_then o1 o2 \<noteq> Greater \<longleftrightarrow> o1 = Less \<or> o1 = Equal \<and> o2 \<noteq> Greater"
  by (cases o1) auto

lemma cmp_lin_simps [simp]:
  "cmp_lin a b = Less \<longleftrightarrow> a < b"
  "cmp_lin a b = Equal \<longleftrightarrow> a = b"
  "cmp_lin a b = Greater \<longleftrightarrow> b < a"
  by (auto simp: cmp_lin_def)

lemma cmp_lin_flip: "ord_reverse (cmp_lin a b) = cmp_lin b a"
  by (auto simp: cmp_lin_def)

lemma cmp_lin_refl [simp]: "cmp_lin a a = Equal"
  by simp

text \<open>
  \<open>slice::sort_by\<close>: a stable sort. For a comparison that is a total preorder every stable
  sort gives the same list (\<open>sort_by_unique\<close> below); for one that is not, Rust leaves the
  resulting order unspecified.
\<close>

fun insort_by :: "('a \<Rightarrow> 'a \<Rightarrow> ordering) \<Rightarrow> 'a \<Rightarrow> 'a list \<Rightarrow> 'a list" where
  "insort_by c x [] = [x]"
| "insort_by c x (y # ys) = (if c x y = Greater then y # insort_by c x ys else x # y # ys)"

definition sort_by :: "('a \<Rightarrow> 'a \<Rightarrow> ordering) \<Rightarrow> 'a list \<Rightarrow> 'a list" where
  "sort_by c xs = foldr (insort_by c) xs []"

lemma sort_by_Nil [simp]: "sort_by c [] = []"
  by (simp add: sort_by_def)

lemma sort_by_Cons [simp]: "sort_by c (x # xs) = insort_by c x (sort_by c xs)"
  by (simp add: sort_by_def)

lemma mset_insort_by [simp]: "mset (insort_by c x xs) = add_mset x (mset xs)"
  by (induction xs) auto

lemma mset_sort_by [simp]: "mset (sort_by c xs) = mset xs"
  by (induction xs) auto

lemma set_sort_by [simp]: "set (sort_by c xs) = set xs"
  by (metis mset_sort_by set_mset_mset)

lemma length_sort_by [simp]: "length (sort_by c xs) = length xs"
  by (metis mset_sort_by size_mset)

lemma distinct_map_sort_by [simp]: "distinct (map f (sort_by c xs)) = distinct (map f xs)"
  by (metis mset_map mset_sort_by mset_eq_imp_distinct_iff)

abbreviation cmp_sorted :: "('a \<Rightarrow> 'a \<Rightarrow> ordering) \<Rightarrow> 'a list \<Rightarrow> bool" where
  "cmp_sorted c \<equiv> sorted_wrt (\<lambda>x y. c x y \<noteq> Greater)"

text \<open>The contract of a comparison function on the values it is meant for.\<close>

locale comparator =
  fixes c :: "'a \<Rightarrow> 'a \<Rightarrow> ordering"
    and A :: "'a set"
  assumes flip: "x \<in> A \<Longrightarrow> y \<in> A \<Longrightarrow> c y x = ord_reverse (c x y)"
    and trans: "x \<in> A \<Longrightarrow> y \<in> A \<Longrightarrow> z \<in> A \<Longrightarrow>
      c x y \<noteq> Greater \<Longrightarrow> c y z \<noteq> Greater \<Longrightarrow> c x z \<noteq> Greater"
begin

lemma greater_flip: "x \<in> A \<Longrightarrow> y \<in> A \<Longrightarrow> c x y = Greater \<Longrightarrow> c y x \<noteq> Greater"
  using flip [of x y] by simp

lemma insort_sorted:
  "x \<in> A \<Longrightarrow> set ys \<subseteq> A \<Longrightarrow> cmp_sorted c ys \<Longrightarrow> cmp_sorted c (insort_by c x ys)"
proof (induction ys)
  case Nil
  then show ?case by simp
next
  case (Cons y ys)
  have set_ins: "set (insort_by c x ys) = insert x (set ys)"
    by (metis mset_insort_by set_mset_add_mset_insert set_mset_mset)
  show ?case
  proof (cases "c x y = Greater")
    case True
    then have "c y x \<noteq> Greater" using Cons.prems greater_flip by simp
    with True Cons show ?thesis by (auto simp: set_ins)
  next
    case False
    then have "c x z \<noteq> Greater" if "z \<in> set ys" for z
      using that Cons.prems trans [of x y z] by auto
    with False Cons.prems show ?thesis by auto
  qed
qed

lemma sort_sorted: "set xs \<subseteq> A \<Longrightarrow> cmp_sorted c (sort_by c xs)"
  by (induction xs) (simp_all add: insort_sorted)

text \<open>Two sorted arrangements of the same elements agree when ties are identities.\<close>

lemma sorted_unique:
  assumes "mset xs = mset ys" and "set xs \<subseteq> A"
    and tie: "\<And>x y. x \<in> set xs \<Longrightarrow> y \<in> set xs \<Longrightarrow> c x y = Equal \<Longrightarrow> x = y"
    and "cmp_sorted c xs" and "cmp_sorted c ys"
  shows "xs = ys"
  using assms
proof (induction xs arbitrary: ys)
  case Nil
  then show ?case by simp
next
  case (Cons x xs)
  then obtain y zs where ys: "ys = y # zs" by (cases ys) auto
  have sets: "set (x # xs) = set ys" using Cons.prems(1) mset_eq_setD by blast
  have xin: "x \<in> set ys" and yin: "y \<in> set (x # xs)" using sets ys by auto
  have "x = y"
  proof (rule ccontr)
    assume "x \<noteq> y"
    with xin yin ys Cons.prems have "c x y \<noteq> Greater" and "c y x \<noteq> Greater" by auto
    moreover have "c y x = ord_reverse (c x y)"
      using flip [of x y] Cons.prems(2) yin by auto
    ultimately have "c x y = Equal" by (cases "c x y") auto
    then show False using Cons.prems(3) yin \<open>x \<noteq> y\<close> by auto
  qed
  moreover have "xs = zs"
  proof (rule Cons.IH)
    show "mset xs = mset zs" using Cons.prems(1) ys \<open>x = y\<close> by simp
    show "set xs \<subseteq> A" using Cons.prems(2) by simp
    show "\<And>a b. a \<in> set xs \<Longrightarrow> b \<in> set xs \<Longrightarrow> c a b = Equal \<Longrightarrow> a = b"
      using Cons.prems(3) by simp
  qed (use Cons.prems ys in auto)
  ultimately show ?case using ys by simp
qed

lemma sort_unique:
  assumes "mset xs = mset ys" and "set xs \<subseteq> A"
    and "\<And>x y. x \<in> set xs \<Longrightarrow> y \<in> set xs \<Longrightarrow> c x y = Equal \<Longrightarrow> x = y"
  shows "sort_by c xs = sort_by c ys"
proof (rule sorted_unique)
  have "set ys \<subseteq> A" using assms(1,2) mset_eq_setD by blast
  then show "cmp_sorted c (sort_by c ys)" by (rule sort_sorted)
qed (use assms sort_sorted in auto)

text \<open>
  Top-k: dropping what is not among the first \<open>n\<close> of a part never changes the first \<open>n\<close> of
  the whole.
\<close>

lemma take_insort:
  assumes "cmp_sorted c ys" and "x \<in> A" and "set ys \<subseteq> A"
    and "n \<le> length (filter (\<lambda>y. c x y = Greater) ys)"
  shows "take n (insort_by c x ys) = take n ys"
  using assms
proof (induction ys arbitrary: n)
  case (Cons y ys)
  show ?case
  proof (cases "c x y = Greater")
    case True
    with Cons show ?thesis by (cases n) auto
  next
    case False
    have "c x z \<noteq> Greater" if "z \<in> set ys" for z
      using that Cons.prems False trans [of x y z] by auto
    with False Cons.prems(4) show ?thesis by simp
  qed
qed simp

lemma take_sort_drop_greater:
  assumes "set (bs @ ys) \<subseteq> A"
    and "bs \<noteq> [] \<Longrightarrow> length as = n"
    and "\<forall>b \<in> set bs. \<forall>a \<in> set as. c b a = Greater" and "mset as \<subseteq># mset ys"
  shows "take n (sort_by c (bs @ ys)) = take n (sort_by c ys)"
  using assms
proof (induction bs)
  case (Cons b bs)
  have "n \<le> length (filter (\<lambda>y. c b y = Greater) (sort_by c (bs @ ys)))"
  proof -
    have "filter_mset (\<lambda>y. c b y = Greater) (mset as) = mset as"
      using Cons.prems(3) by (simp flip: mset_filter)
    moreover have "filter_mset (\<lambda>y. c b y = Greater) (mset as)
        \<subseteq># filter_mset (\<lambda>y. c b y = Greater) (mset (bs @ ys))"
      using Cons.prems(4) by (auto intro: multiset_filter_mono subset_mset.order_trans)
    ultimately have "size (mset as) \<le> size (filter_mset (\<lambda>y. c b y = Greater) (mset (sort_by c (bs @ ys))))"
      by (metis mset_sort_by size_mset_mono)
    then have "length as \<le> length (filter (\<lambda>y. c b y = Greater) (sort_by c (bs @ ys)))"
      by (metis mset_filter size_mset)
    then show ?thesis using Cons.prems(2) by blast
  qed
  then have "take n (insort_by c b (sort_by c (bs @ ys))) = take n (sort_by c (bs @ ys))"
    using Cons.prems(1) sort_sorted [of "bs @ ys"] by (intro take_insort) auto
  moreover have "take n (sort_by c (bs @ ys)) = take n (sort_by c ys)"
    by (rule Cons.IH) (use Cons.prems in auto)
  ultimately show ?case by simp
qed simp

lemma take_sort_append:
  assumes sub: "set (xs @ ys) \<subseteq> A" and dist: "distinct (xs @ ys)"
    and tie: "\<And>x y. x \<in> set (xs @ ys) \<Longrightarrow> y \<in> set (xs @ ys) \<Longrightarrow> c x y = Equal \<Longrightarrow> x = y"
  shows "take n (sort_by c (take n (sort_by c xs) @ ys)) = take n (sort_by c (xs @ ys))"
proof -
  let ?s = "sort_by c xs"
  let ?as = "take n ?s" and ?bs = "drop n ?s"
  have parts: "mset (?as @ ?bs) = mset xs"
    by (metis append_take_drop_id mset_sort_by)
  then have sets: "set ?as \<union> set ?bs = set xs" by (metis mset_eq_setD set_append)
  have "c b a = Greater" if "a \<in> set ?as" "b \<in> set ?bs" for a b
  proof -
    have "cmp_sorted c (?as @ ?bs)" using sub sort_sorted [of xs] by simp
    then have "c a b \<noteq> Greater" using that unfolding sorted_wrt_append by blast
    moreover have "a \<noteq> b"
      using that dist parts by (metis distinct_append disjoint_iff mset_eq_imp_distinct_iff)
    moreover have "a \<in> set (xs @ ys)" "b \<in> set (xs @ ys)" using that sets by auto
    ultimately show ?thesis
      using tie [of a b] flip [of a b] sub by (cases "c a b") auto
  qed
  moreover have "length ?as = n" if "?bs \<noteq> []" using that by simp
  moreover have "set (?bs @ ?as @ ys) \<subseteq> A" using sub sets by auto
  ultimately have "take n (sort_by c (?bs @ ?as @ ys)) = take n (sort_by c (?as @ ys))"
    by (intro take_sort_drop_greater [where as = ?as]) auto
  moreover have "sort_by c (?bs @ ?as @ ys) = sort_by c (xs @ ys)"
  proof (rule sort_unique)
    show same: "mset (?bs @ ?as @ ys) = mset (xs @ ys)"
      using parts by (metis add.assoc add.commute mset_append)
    then have "set (?bs @ ?as @ ys) = set (xs @ ys)" by (rule mset_eq_setD)
    then show "set (?bs @ ?as @ ys) \<subseteq> A"
      and "\<And>x y. x \<in> set (?bs @ ?as @ ys) \<Longrightarrow> y \<in> set (?bs @ ?as @ ys) \<Longrightarrow> c x y = Equal \<Longrightarrow> x = y"
      using sub tie by metis+
  qed
  ultimately show ?thesis by simp
qed

end

interpretation lin: comparator "cmp_lin :: 'a::linorder \<Rightarrow> 'a \<Rightarrow> ordering" UNIV
  by unfold_locales (auto simp: cmp_lin_flip not_less)

section \<open>Hash maps\<close>

text \<open>Lookups are stated with \<open>map_of\<close>; the simplifier must not turn them into membership.\<close>

declare map_of_eq_Some_iff [simp del]

type_synonym ('k, 'v) hashmap = "('k \<times> 'v) list"

abbreviation hm_get :: "('k, 'v) hashmap \<Rightarrow> 'k \<Rightarrow> 'v option" where
  "hm_get m k \<equiv> map_of m k"

abbreviation hm_insert :: "'k \<Rightarrow> 'v \<Rightarrow> ('k, 'v) hashmap \<Rightarrow> ('k, 'v) hashmap" where
  "hm_insert \<equiv> AList.update"

abbreviation hm_remove :: "'k \<Rightarrow> ('k, 'v) hashmap \<Rightarrow> ('k, 'v) hashmap" where
  "hm_remove \<equiv> AList.delete"

abbreviation hm_keys :: "('k, 'v) hashmap \<Rightarrow> 'k list" where
  "hm_keys m \<equiv> map fst m"

abbreviation hm_values :: "('k, 'v) hashmap \<Rightarrow> 'v list" where
  "hm_values m \<equiv> map snd m"

abbreviation hm_wf :: "('k, 'v) hashmap \<Rightarrow> bool" where
  "hm_wf m \<equiv> distinct (map fst m)"

lemma hm_get_insert [hashmap_simps]: "map_of (AList.update k v m) = (map_of m)(k \<mapsto> v)"
  by (rule ext) (simp add: update_conv')

lemma hm_get_remove [hashmap_simps]: "map_of (AList.delete k m) = (map_of m)(k := None)"
  by (rule ext) (simp add: delete_conv')

lemma hm_wf_insert [hashmap_simps]: "hm_wf m \<Longrightarrow> hm_wf (AList.update k v m)"
  by (rule distinct_update)

lemma hm_wf_remove [hashmap_simps]: "hm_wf m \<Longrightarrow> hm_wf (AList.delete k m)"
  by (rule distinct_delete)

lemma hm_keys_insert [hashmap_simps]: "fst ` set (AList.update k v m) = insert k (fst ` set m)"
proof -
  have "set (map fst (AList.update k v m)) = insert k (set (map fst m))"
    by (auto simp: update_keys)
  then show ?thesis by simp
qed

lemma hm_keys_remove [hashmap_simps]: "fst ` set (AList.delete k m) = fst ` set m - {k}"
  by (force simp: AList.delete_eq)

lemma hm_mem_insert:
  "hm_wf m \<Longrightarrow> (k', v') \<in> set (AList.update k v m)
    \<longleftrightarrow> (if k' = k then v' = v else (k', v') \<in> set m)"
  by (subst map_of_eq_Some_iff [symmetric, OF hm_wf_insert])
    (auto simp: hm_get_insert map_of_eq_Some_iff)

lemma hm_insert_fresh: "k \<notin> fst ` set m \<Longrightarrow> AList.update k v m = m @ [(k, v)]"
  by (induction m) auto

lemma hm_mem_remove: "(k', v') \<in> set (AList.delete k m) \<longleftrightarrow> k' \<noteq> k \<and> (k', v') \<in> set m"
  by (auto simp: AList.delete_eq)

text \<open>The order in which a hash map is iterated: any rearrangement of its entries.\<close>

definition iteration_order :: "('a list \<Rightarrow> 'a list) \<Rightarrow> bool" where
  "iteration_order f \<longleftrightarrow> (\<forall>xs. mset (f xs) = mset xs)"

lemma iteration_order_mset: "iteration_order f \<Longrightarrow> mset (f xs) = mset xs"
  by (simp add: iteration_order_def)

lemma iteration_order_set: "iteration_order f \<Longrightarrow> set (f xs) = set xs"
  by (metis iteration_order_mset set_mset_mset)

lemma iteration_order_length: "iteration_order f \<Longrightarrow> length (f xs) = length xs"
  by (metis iteration_order_mset size_mset)

lemma iteration_order_id [simp]: "iteration_order id" "iteration_order (\<lambda>xs. xs)" "iteration_order rev"
  by (simp_all add: iteration_order_def)

section \<open>Lists and options\<close>

lemma option_eq_by_Some: "(\<And>v. x = Some v \<longleftrightarrow> y = Some v) \<Longrightarrow> x = y"
  by (cases x; cases y) auto

definition the_list :: "'a list option \<Rightarrow> 'a list" where
  "the_list xo = (case xo of Some xs \<Rightarrow> xs | None \<Rightarrow> [])"

lemma the_list_simps [simp]: "the_list None = []" "the_list (Some xs) = xs"
  by (simp_all add: the_list_def)

text \<open>Truncation to \<open>limit\<close>, where a limit of 0 means no limit.\<close>

definition truncate_limit :: "nat \<Rightarrow> 'a list \<Rightarrow> 'a list" where
  "truncate_limit limit xs = (if limit \<noteq> 0 \<and> length xs > limit then take limit xs else xs)"

lemma truncate_limit_eq: "truncate_limit n xs = (if n = 0 then xs else take n xs)"
  by (auto simp: truncate_limit_def)

lemma truncate_limit_zero [simp]: "truncate_limit 0 xs = xs"
  by (simp add: truncate_limit_eq)

lemma set_truncate_limit: "set (truncate_limit n xs) \<subseteq> set xs"
  by (auto simp: truncate_limit_eq dest: in_set_takeD)

lemma length_truncate_limit:
  "length (truncate_limit n xs) = (if n = 0 then length xs else min n (length xs))"
  by (auto simp: truncate_limit_eq)

lemma sorted_truncate_limit: "sorted_wrt P xs \<Longrightarrow> sorted_wrt P (truncate_limit n xs)"
  by (simp add: truncate_limit_eq)

lemma distinct_truncate_limit: "distinct (map f xs) \<Longrightarrow> distinct (map f (truncate_limit n xs))"
  by (simp add: truncate_limit_eq flip: take_map)

text \<open>Elements left out by a truncation come after the elements kept.\<close>

lemma truncate_limit_prefix:
  assumes "sorted_wrt P xs" and "x \<in> set (truncate_limit n xs)"
    and "y \<in> set xs" and "y \<notin> set (truncate_limit n xs)"
  shows "P x y"
proof (cases "n = 0")
  case True
  with assms show ?thesis by simp
next
  case False
  have "sorted_wrt P (take n xs @ drop n xs)" using assms(1) by simp
  moreover have "y \<in> set (drop n xs)"
    using assms(3,4) False by (metis append_take_drop_id truncate_limit_eq Un_iff set_append)
  moreover have "x \<in> set (take n xs)"
    using assms(2) False by (simp add: truncate_limit_eq)
  ultimately show ?thesis
    unfolding sorted_wrt_append by blast
qed

end
