(* ===== verification/Float64.thy ===== *)
theory Float64
  imports Aether_Prelude
begin

text \<open>
  IEEE 754 binary floating point as Rust's \<open>f64\<close> and \<open>f32\<close> use it: not-a-number, signed
  infinities and finite values in sign-magnitude form (so that the two zeros differ), with
  the exact rational result of an operation rounded to the nearest representable value,
  ties to even. The payload of a NaN is not kept. A binary format is given by its precision, the exponent of its least
  positive value and its largest exponent; \<open>round_mag\<close> is the rounding of a magnitude.
\<close>

section \<open>Values and comparison\<close>

datatype f64 = NaN | Inf bool | Fin bool rat

fun fval :: "f64 \<Rightarrow> rat" where
  "fval (Fin s m) = (if s then - m else m)"
| "fval (Inf s) = 0"
| "fval NaN = 0"

text \<open>Position on the extended number line: \<open>-1\<close> and \<open>1\<close> are the infinities.\<close>

fun frank :: "f64 \<Rightarrow> int" where
  "frank (Inf s) = (if s then - 1 else 1)"
| "frank _ = 0"

definition f64_lt :: "f64 \<Rightarrow> f64 \<Rightarrow> bool" where
  "f64_lt a b \<longleftrightarrow> a \<noteq> NaN \<and> b \<noteq> NaN \<and>
     (frank a < frank b \<or> frank a = frank b \<and> fval a < fval b)"

definition f64_eq :: "f64 \<Rightarrow> f64 \<Rightarrow> bool" where
  "f64_eq a b \<longleftrightarrow> a \<noteq> NaN \<and> b \<noteq> NaN \<and> frank a = frank b \<and> fval a = fval b"

definition f64_le :: "f64 \<Rightarrow> f64 \<Rightarrow> bool" where
  "f64_le a b \<longleftrightarrow> f64_lt a b \<or> f64_eq a b"

text \<open>\<open>PartialOrd::partial_cmp\<close> and its use as \<open>partial_cmp(..).unwrap_or(Equal)\<close>.\<close>

definition f64_partial_cmp :: "f64 \<Rightarrow> f64 \<Rightarrow> ordering option" where
  "f64_partial_cmp a b =
     (if f64_lt a b then Some Less else if f64_eq a b then Some Equal
      else if f64_lt b a then Some Greater else None)"

definition f64_cmp_or_equal :: "f64 \<Rightarrow> f64 \<Rightarrow> ordering" where
  "f64_cmp_or_equal a b = (case f64_partial_cmp a b of None \<Rightarrow> Equal | Some o1 \<Rightarrow> o1)"

lemma f64_partial_cmp_None: "f64_partial_cmp a b = None \<longleftrightarrow> a = NaN \<or> b = NaN"
  by (auto simp: f64_partial_cmp_def f64_lt_def f64_eq_def)

lemma f64_lt_not_le: "a \<noteq> NaN \<Longrightarrow> b \<noteq> NaN \<Longrightarrow> f64_lt a b \<longleftrightarrow> \<not> f64_le b a"
  by (auto simp: f64_lt_def f64_le_def f64_eq_def)

lemma f64_cmp_iff:
  assumes "a \<noteq> NaN" and "b \<noteq> NaN"
  shows "f64_cmp_or_equal a b = Less \<longleftrightarrow> f64_lt a b"
    and "f64_cmp_or_equal a b = Equal \<longleftrightarrow> f64_eq a b"
    and "f64_cmp_or_equal a b = Greater \<longleftrightarrow> f64_lt b a"
  using assms
  by (auto simp: f64_cmp_or_equal_def f64_partial_cmp_def f64_lt_def f64_eq_def)

lemma f64_cmp_not_Greater:
  "a \<noteq> NaN \<Longrightarrow> b \<noteq> NaN \<Longrightarrow> f64_cmp_or_equal a b \<noteq> Greater \<longleftrightarrow> f64_le a b"
  by (simp add: f64_cmp_iff f64_lt_not_le)

lemma f64_cmp_flip: "f64_cmp_or_equal b a = ord_reverse (f64_cmp_or_equal a b)"
  by (auto simp: f64_cmp_or_equal_def f64_partial_cmp_def f64_lt_def f64_eq_def)

lemma f64_le_trans: "f64_le a b \<Longrightarrow> f64_le b c \<Longrightarrow> f64_le a c"
  by (auto simp: f64_lt_def f64_le_def f64_eq_def)

lemma f64_le_refl: "a \<noteq> NaN \<Longrightarrow> f64_le a a"
  by (simp add: f64_le_def f64_eq_def)

lemma f64_lt_le_trans: "f64_lt a b \<Longrightarrow> f64_le b c \<Longrightarrow> f64_lt a c"
  by (auto simp: f64_lt_def f64_le_def f64_eq_def)

lemma f64_le_lt_trans: "f64_le a b \<Longrightarrow> f64_lt b c \<Longrightarrow> f64_lt a c"
  by (auto simp: f64_lt_def f64_le_def f64_eq_def)

lemma f64_eq_sym: "f64_eq a b \<longleftrightarrow> f64_eq b a"
  by (auto simp: f64_eq_def)

lemma f64_le_antisym: "f64_le a b \<Longrightarrow> f64_le b a \<Longrightarrow> f64_eq a b"
  by (auto simp: f64_lt_def f64_le_def f64_eq_def)

lemma f64_le_total: "a \<noteq> NaN \<Longrightarrow> b \<noteq> NaN \<Longrightarrow> f64_le a b \<or> f64_le b a"
  by (auto simp: f64_lt_def f64_le_def f64_eq_def)

interpretation fcmp: comparator f64_cmp_or_equal "{a. a \<noteq> NaN}"
proof unfold_locales
  fix x y z assume "x \<in> {a. a \<noteq> NaN}" "y \<in> {a. a \<noteq> NaN}" "z \<in> {a. a \<noteq> NaN}"
    "f64_cmp_or_equal x y \<noteq> Greater" "f64_cmp_or_equal y z \<noteq> Greater"
  then show "f64_cmp_or_equal x z \<noteq> Greater"
    using f64_le_trans [of x y z] by (simp add: f64_cmp_not_Greater)
qed (rule f64_cmp_flip)

section \<open>Rounding\<close>

definition pow2 :: "int \<Rightarrow> rat" where
  "pow2 e = (if 0 \<le> e then 2 ^ nat e else 1 / 2 ^ nat (- e))"

text \<open>The binary exponent of a positive rational.\<close>

definition ilog2 :: "rat \<Rightarrow> int" where
  "ilog2 x = (let (n, d) = quotient_of x;
                  e = int (floorlog 2 (nat n)) - int (floorlog 2 (nat d))
              in if pow2 e \<le> x then e else e - 1)"

definition round_half_even :: "rat \<Rightarrow> int" where
  "round_half_even x =
     (let f = \<lfloor>x\<rfloor>; r = x - of_int f
      in if r < 1 / 2 then f else if r > 1 / 2 then f + 1 else if even f then f else f + 1)"

record float_format =
  precision :: int
  least_exp :: int
  max_exp :: int

definition binary64 :: float_format where
  "binary64 = \<lparr>precision = 53, least_exp = - 1074, max_exp = 1023\<rparr>"

definition binary32 :: float_format where
  "binary32 = \<lparr>precision = 24, least_exp = - 149, max_exp = 127\<rparr>"

definition round_mag :: "float_format \<Rightarrow> rat \<Rightarrow> rat" where
  "round_mag fmt x =
     (let e = max (ilog2 x - (precision fmt - 1)) (least_exp fmt)
      in of_int (round_half_even (x / pow2 e)) * pow2 e)"

definition fround :: "float_format \<Rightarrow> bool \<Rightarrow> rat \<Rightarrow> f64" where
  "fround fmt s x =
     (if x = 0 then Fin s 0
      else let y = round_mag fmt \<bar>x\<bar>
           in if pow2 (max_exp fmt + 1) \<le> y then Inf (x < 0) else Fin (x < 0) y)"

section \<open>Arithmetic\<close>

fun fneg :: "f64 \<Rightarrow> f64" where
  "fneg NaN = NaN"
| "fneg (Inf s) = Inf (\<not> s)"
| "fneg (Fin s m) = Fin (\<not> s) m"

fun fadd :: "float_format \<Rightarrow> f64 \<Rightarrow> f64 \<Rightarrow> f64" where
  "fadd fmt (Inf s) (Inf t) = (if s = t then Inf s else NaN)"
| "fadd fmt (Inf s) (Fin t n) = Inf s"
| "fadd fmt (Fin s m) (Inf t) = Inf t"
| "fadd fmt (Fin s m) (Fin t n) = fround fmt (s \<and> t) (fval (Fin s m) + fval (Fin t n))"
| "fadd fmt _ _ = NaN"

definition fsub :: "float_format \<Rightarrow> f64 \<Rightarrow> f64 \<Rightarrow> f64" where
  "fsub fmt a b = fadd fmt a (fneg b)"

fun fmul :: "float_format \<Rightarrow> f64 \<Rightarrow> f64 \<Rightarrow> f64" where
  "fmul fmt (Inf s) (Inf t) = Inf (s \<noteq> t)"
| "fmul fmt (Inf s) (Fin t n) = (if n = 0 then NaN else Inf (s \<noteq> t))"
| "fmul fmt (Fin s m) (Inf t) = (if m = 0 then NaN else Inf (s \<noteq> t))"
| "fmul fmt (Fin s m) (Fin t n) = fround fmt (s \<noteq> t) (fval (Fin s m) * fval (Fin t n))"
| "fmul fmt _ _ = NaN"

fun fdiv :: "float_format \<Rightarrow> f64 \<Rightarrow> f64 \<Rightarrow> f64" where
  "fdiv fmt (Inf s) (Inf t) = NaN"
| "fdiv fmt (Inf s) (Fin t n) = Inf (s \<noteq> t)"
| "fdiv fmt (Fin s m) (Inf t) = Fin (s \<noteq> t) 0"
| "fdiv fmt (Fin s m) (Fin t n) =
     (if n = 0 then (if m = 0 then NaN else Inf (s \<noteq> t))
      else fround fmt (s \<noteq> t) (fval (Fin s m) / fval (Fin t n)))"
| "fdiv fmt _ _ = NaN"

fun ffloor :: "f64 \<Rightarrow> f64" where
  "ffloor (Fin s m) = Fin s \<bar>of_int \<lfloor>fval (Fin s m)\<rfloor>\<bar>"
| "ffloor a = a"

fun fabs :: "f64 \<Rightarrow> f64" where
  "fabs (Fin s m) = Fin False m"
| "fabs (Inf s) = Inf False"
| "fabs NaN = NaN"

text \<open>\<open>f64::max\<close> ignores a NaN operand.\<close>

definition fmax :: "f64 \<Rightarrow> f64 \<Rightarrow> f64" where
  "fmax a b = (if a = NaN then b else if b = NaN then a else if f64_lt a b then b else a)"

definition f64_of_int :: "int \<Rightarrow> f64" where
  "f64_of_int n = fround binary64 False (of_int n)"

abbreviation f64_of_nat :: "nat \<Rightarrow> f64" where
  "f64_of_nat n \<equiv> f64_of_int (int n)"

abbreviation fzero :: f64 where "fzero \<equiv> Fin False 0"

abbreviation fone :: f64 where "fone \<equiv> Fin False 1"

definition is_finite :: "f64 \<Rightarrow> bool" where
  "is_finite a \<longleftrightarrow> (case a of Fin _ _ \<Rightarrow> True | _ \<Rightarrow> False)"

section \<open>Exact rounding of small dyadic values\<close>

lemma pow2_pos [simp]: "0 < pow2 e"
  by (simp add: pow2_def)

lemma pow2_minus: "pow2 (- int k) = 1 / 2 ^ k"
  by (cases "k = 0") (simp_all add: pow2_def)

lemma pow2_nat: "pow2 (int k) = 2 ^ k"
  by (simp add: pow2_def)

lemma pow2_add: "pow2 (a + b) = pow2 a * pow2 b"
proof -
  have "pow2 e = 2 powi e" for e
    by (auto simp: pow2_def power_int_def field_simps)
  then show ?thesis by (simp add: power_int_add)
qed

lemma pow2_mono: "a \<le> b \<Longrightarrow> pow2 a \<le> pow2 b"
proof -
  assume "a \<le> b"
  then have "1 \<le> pow2 (b - a)" by (simp add: pow2_def)
  then show ?thesis using pow2_add [of a "b - a"] mult_left_mono [of 1 "pow2 (b - a)" "pow2 a"] less_imp_le [OF pow2_pos [of a]] by simp
qed

lemma ilog2_le:
  assumes "0 < x"
  shows "pow2 (ilog2 x) \<le> x"
proof -
  obtain n d where q: "quotient_of x = (n, d)" by fastforce
  have d: "0 < d" and n: "0 < n" and x: "x = of_int n / of_int d"
    using quotient_of_denom_pos [OF q] quotient_of_div [OF q] assms by (auto simp: zero_less_divide_iff)
  let ?a = "floorlog 2 (nat n)" and ?b = "floorlog 2 (nat d)"
  have "2 ^ (?a - 1) \<le> nat n" using floorlog_bounds [of "nat n" 2] n by simp
  moreover have "nat d < 2 ^ ?b" using floorlog_bounds [of "nat d" 2] d by simp
  ultimately have "(2::int) ^ (?a - 1) \<le> n" "d \<le> 2 ^ ?b"
    using n d by (simp_all add: le_nat_iff nat_less_iff less_imp_le)
  then have "(2::rat) ^ (?a - 1) \<le> of_int n" "of_int d \<le> (2::rat) ^ ?b"
    by (metis of_int_le_iff of_int_numeral of_int_power)+
  then have "2 ^ (?a - 1) / 2 ^ ?b \<le> x" unfolding x using d n by (intro frac_le) auto
  moreover have "1 \<le> ?a" using n by (simp add: floorlog_def)
  then have "pow2 (int ?a - int ?b - 1) = 2 ^ (?a - 1) / 2 ^ ?b"
  proof -
    from \<open>1 \<le> ?a\<close> have "int ?a - int ?b - 1 = int (?a - 1) + - int ?b" by simp
    then show ?thesis unfolding pow2_minus [symmetric] pow2_nat [symmetric]
      by (simp only: pow2_add pow2_minus pow2_nat divide_inverse mult_1_left)
  qed
  ultimately show ?thesis by (simp add: ilog2_def q Let_def)
qed

text \<open>A dyadic fraction of at most the precision rounds to itself.\<close>

lemma round_mag_dyadic:
  assumes "0 < n" and "n < 2 ^ nat (precision fmt)" and "0 < precision fmt" and "least_exp fmt \<le> - int k"
  shows "round_mag fmt (of_nat n / 2 ^ k) = of_nat n / 2 ^ k"
proof -
  let ?x = "of_nat n / 2 ^ k :: rat"
  let ?e = "max (ilog2 ?x - (precision fmt - 1)) (least_exp fmt)"
  have "pow2 (ilog2 ?x) \<le> ?x" by (rule ilog2_le) (use assms(1) in simp)
  also have "?x < pow2 (precision fmt - int k)"
  proof -
    have "(of_nat n :: rat) < 2 ^ nat (precision fmt)" using assms(2) by (metis of_nat_less_iff of_nat_numeral of_nat_power)
    then have "?x < 2 ^ nat (precision fmt) * (1 / 2 ^ k)" by (simp add: field_simps)
    also have "\<dots> = pow2 (precision fmt - int k)"
      using pow2_add [of "precision fmt" "- int k"] assms(3) by (simp add: pow2_minus pow2_def)
    finally show ?thesis .
  qed
  finally have "ilog2 ?x < precision fmt - int k" using pow2_mono by (metis not_less)
  then have e: "?e \<le> - int k" using assms(4) by simp
  have "?x = of_int (int n * 2 ^ nat (- int k - ?e)) * pow2 ?e"
  proof -
    have "1 / 2 ^ k = pow2 (- int k - ?e) * pow2 ?e" using pow2_add [of "- int k - ?e" ?e] by (simp add: pow2_minus)
    moreover have "pow2 (- int k - ?e) = 2 ^ nat (- int k - ?e)" using e by (simp add: pow2_def)
    ultimately have "of_nat n * (1 / 2 ^ k) = of_nat n * (2 ^ nat (- int k - ?e) * pow2 ?e)" by simp
    then show ?thesis by simp
  qed
  then have x: "?x / pow2 ?e = of_int (int n * 2 ^ nat (- int k - ?e))"
    using pow2_pos [of ?e] by (metis less_irrefl nonzero_mult_div_cancel_right)
  have "round_half_even (of_int z) = z" for z by (simp add: round_half_even_def Let_def)
  then have "of_int (round_half_even (?x / pow2 ?e)) * pow2 ?e = ?x"
    unfolding x using pow2_pos [of ?e] x by (metis less_irrefl nonzero_eq_divide_eq)
  then show ?thesis by (simp add: round_mag_def Let_def)
qed

lemma fround_dyadic:
  assumes "x = of_nat n / 2 ^ k" and "n < 2 ^ 53" and "k \<le> 1074"
  shows "fround binary64 False x = Fin False x"
proof (cases "n = 0")
  case False
  have "round_mag binary64 x = x"
    unfolding assms(1) by (rule round_mag_dyadic) (use False assms(2,3) in \<open>simp_all add: binary64_def\<close>)
  moreover have "x < pow2 1024"
  proof -
    have "x \<le> of_nat n" unfolding assms(1) by (simp add: divide_le_eq mult_le_cancel_left1)
    also have "(of_nat n :: rat) < 2 ^ 53" using assms(2) by (metis of_nat_less_iff of_nat_numeral of_nat_power)
    also have "(2::rat) ^ 53 \<le> 2 ^ 1024" by (rule power_increasing) auto
    finally show ?thesis by (simp add: pow2_def)
  qed
  moreover have "0 < x" using assms(1) False by simp
  ultimately show ?thesis by (simp add: fround_def Let_def binary64_def)
qed (simp add: fround_def assms(1))

lemma f64_of_nat_exact: "n < 2 ^ 53 \<Longrightarrow> f64_of_nat n = Fin False (of_nat n)"
  using fround_dyadic [of "of_nat n" n 0] by (simp add: f64_of_int_def)

lemma f64_of_int_exact: "0 \<le> z \<Longrightarrow> z < 2 ^ 53 \<Longrightarrow> f64_of_int z = Fin False (of_int z)"
  using f64_of_nat_exact [of "nat z"] by (simp add: nat_less_iff)

lemma fround_one32: "fround binary32 False 1 = fone"
proof -
  have "round_mag binary32 1 = 1" using round_mag_dyadic [of 1 binary32 0] by (simp add: binary32_def)
  moreover have "pow2 0 < pow2 128" by (simp add: pow2_def)
  ultimately show ?thesis by (simp add: fround_def Let_def binary32_def pow2_def)
qed

end
