(* ===== verification/Documents.thy ===== *)
theory Documents
  imports Float64
begin

text \<open>
  The messages of the wire contract (\<open>proto/aether.proto\<close>) that the components exchange:
  the flight document, search hits with their provenance, and the search response with the
  query manifest. A protobuf \<open>map\<close> is a hash map; a message field is an \<open>option\<close>, as prost
  generates it. Signed 64-bit timestamps are integers.
\<close>

record flight_document =
  icao24 :: string
  callsign :: string
  observed_at :: int
  latitude :: f64
  longitude :: f64
  altitude :: f64
  origin :: string
  destination :: string
  aircraft_type :: string
  velocity :: f64
  heading :: f64
  vertical_rate :: f64
  on_ground :: bool
  tenant_id :: string
  text_fields :: "(string, string) hashmap"
  number_fields :: "(string, f64) hashmap"

definition default_document :: flight_document where
  "default_document =
     \<lparr>icao24 = [], callsign = [], observed_at = 0, latitude = fzero, longitude = fzero,
      altitude = fzero, origin = [], destination = [], aircraft_type = [], velocity = fzero,
      heading = fzero, vertical_rate = fzero, on_ground = False, tenant_id = [],
      text_fields = [], number_fields = []\<rparr>"

datatype index_kind = IndexUnspecified | IndexKeyword | IndexVector

record hit_provenance =
  source_group :: string
  prov_observed_at :: int
  prov_index :: index_kind
  prov_score :: f64
  owning_vshard :: int

record search_hit =
  hit_document :: "flight_document option"
  hit_score :: f64
  hit_prov :: "hit_provenance option"

record omitted_shard =
  omitted_address :: string
  omitted_reason :: string

record query_manifest =
  m_shards_queried :: u32
  m_shards_answered :: u32
  m_omitted :: "omitted_shard list"
  m_deduped :: u32
  m_freshest :: int
  m_stalest :: int
  m_elapsed_ms :: u64
  m_placement_version :: u64

record search_response =
  resp_hits :: "search_hit list"
  resp_total_matched :: u64
  resp_shard_id :: string
  resp_shards_queried :: u32
  resp_shards_answered :: u32
  resp_manifest :: "query_manifest option"

end
