(* ===== verification/Doc_View.thy ===== *)
theory Doc_View
  imports Documents
begin

text \<open>
  The contract of a keyed view of documents, kept by the keyword index and by the vector
  index of a shard: an insert or a removal on a well-formed view returns, keeps the view
  well-formed and updates the map from keys to items that the view stands for. A client
  drives a view through a sequence of operations.
\<close>

datatype 'd view_op = Put 'd | Drop string

fun view_step ::
  "('s \<Rightarrow> 'd \<Rightarrow> 's option) \<Rightarrow> ('s \<Rightarrow> string \<Rightarrow> ('s \<times> bool) option) \<Rightarrow> 's \<Rightarrow> 'd view_op \<Rightarrow> 's option" where
  "view_step ins del s (Put d) = ins s d"
| "view_step ins del s (Drop k) = map_option fst (del s k)"

fun view_run ::
  "('s \<Rightarrow> 'd \<Rightarrow> 's option) \<Rightarrow> ('s \<Rightarrow> string \<Rightarrow> ('s \<times> bool) option) \<Rightarrow> 's \<Rightarrow> 'd view_op list \<Rightarrow> 's option" where
  "view_run ins del s [] = Some s"
| "view_run ins del s (p # ps) = Option.bind (view_step ins del s p) (\<lambda>s'. view_run ins del s' ps)"

fun map_step :: "('d \<Rightarrow> string) \<Rightarrow> (string \<rightharpoonup> 'd) \<Rightarrow> 'd view_op \<Rightarrow> (string \<rightharpoonup> 'd)" where
  "map_step key c (Put d) = c(key d \<mapsto> d)"
| "map_step key c (Drop k) = c(k := None)"

abbreviation map_run :: "('d \<Rightarrow> string) \<Rightarrow> 'd view_op list \<Rightarrow> (string \<rightharpoonup> 'd)" where
  "map_run key ps \<equiv> foldl (map_step key) Map.empty ps"

locale doc_view =
  fixes ins :: "'s \<Rightarrow> 'd \<Rightarrow> 's option"
    and del :: "'s \<Rightarrow> string \<Rightarrow> ('s \<times> bool) option"
    and inv :: "'s \<Rightarrow> bool"
    and content :: "'s \<Rightarrow> string \<Rightarrow> 'd option"
    and key :: "'d \<Rightarrow> string"
    and ok :: "'d \<Rightarrow> bool"
  assumes ins_spec: "inv s \<Longrightarrow> ok d \<Longrightarrow> \<exists>s'. ins s d = Some s' \<and> inv s' \<and> content s' = (content s)(key d \<mapsto> d)"
    and del_spec: "inv s \<Longrightarrow> \<exists>s'. del s k = Some (s', content s k \<noteq> None) \<and> inv s' \<and> content s' = (content s)(k := None)"
    and finite_view: "inv s \<Longrightarrow> finite (dom (content s))"
    and content_key: "inv s \<Longrightarrow> content s k = Some d \<Longrightarrow> key d = k"
begin

definition op_ok :: "'d view_op \<Rightarrow> bool" where
  "op_ok p \<longleftrightarrow> (case p of Put d \<Rightarrow> ok d | Drop k \<Rightarrow> True)"

lemma step_spec:
  assumes "inv s" and "op_ok p"
  shows "\<exists>s'. view_step ins del s p = Some s' \<and> inv s' \<and> content s' = map_step key (content s) p"
proof (cases p)
  case (Put d)
  with ins_spec [of s d] assms show ?thesis by (simp add: op_ok_def)
next
  case (Drop k)
  with del_spec [of s k] assms show ?thesis by auto
qed

lemma run_spec:
  assumes "inv s" and "list_all op_ok ps"
  shows "\<exists>s'. view_run ins del s ps = Some s' \<and> inv s' \<and> content s' = foldl (map_step key) (content s) ps"
  using assms
proof (induction ps arbitrary: s)
  case (Cons p ps)
  from Cons.prems step_spec [of s p] obtain t where
    t: "view_step ins del s p = Some t" "inv t" "content t = map_step key (content s) p" by auto
  from Cons.IH [OF t(2)] Cons.prems(2) t show ?case by simp
qed simp

end

end
