(* ===== verification/Text_Tokens.thy ===== *)
theory Text_Tokens
  imports Aether_Prelude
begin

text \<open>
  The string operations the components share: splitting, trimming, ASCII case folding and
  the tokenizer. The tokenizer is written three times in the sources with one body
  (\<open>index.rs\<close>, \<open>embed.rs\<close>, \<open>memory/lib.rs\<close>): runs of alphanumeric characters, lowercased.
\<close>

section \<open>Characters\<close>

abbreviation code :: "char \<Rightarrow> nat" where "code c \<equiv> of_char c"

definition is_alphanumeric :: "char \<Rightarrow> bool" where
  "is_alphanumeric c \<longleftrightarrow> 48 \<le> code c \<and> code c \<le> 57 \<or> 65 \<le> code c \<and> code c \<le> 90
     \<or> 97 \<le> code c \<and> code c \<le> 122"

definition is_whitespace :: "char \<Rightarrow> bool" where
  "is_whitespace c \<longleftrightarrow> code c = 32 \<or> 9 \<le> code c \<and> code c \<le> 13"

definition lower_char :: "char \<Rightarrow> char" where
  "lower_char c = (if 65 \<le> code c \<and> code c \<le> 90 then char_of (code c + 32) else c)"

definition to_lowercase :: "string \<Rightarrow> string" where
  "to_lowercase s = map lower_char s"

definition eq_ignore_ascii_case :: "string \<Rightarrow> string \<Rightarrow> bool" where
  "eq_ignore_ascii_case a b \<longleftrightarrow> to_lowercase a = to_lowercase b"

lemma code_lower_char: "code (lower_char c) = (if 65 \<le> code c \<and> code c \<le> 90 then code c + 32 else code c)"
  by (simp add: lower_char_def)

lemma lower_char_idem [simp]: "lower_char (lower_char c) = lower_char c"
proof -
  have "\<not> (65 \<le> code (lower_char c) \<and> code (lower_char c) \<le> 90)"
    by (auto simp: code_lower_char)
  then show ?thesis unfolding lower_char_def [of "lower_char c"] by (rule if_not_P)
qed

lemma is_alphanumeric_lower [simp]: "is_alphanumeric (lower_char c) = is_alphanumeric c"
  by (auto simp: is_alphanumeric_def code_lower_char)

lemma to_lowercase_idem [simp]: "to_lowercase (to_lowercase s) = to_lowercase s"
  by (simp add: to_lowercase_def)

lemma to_lowercase_Nil [simp]: "to_lowercase s = [] \<longleftrightarrow> s = []"
  by (simp add: to_lowercase_def)

section \<open>Splitting and trimming\<close>

text \<open>\<open>str::split\<close> on the characters that satisfy a predicate.\<close>

fun split_pred :: "(char \<Rightarrow> bool) \<Rightarrow> string \<Rightarrow> string list" where
  "split_pred p [] = [[]]"
| "split_pred p (c # cs) =
     (if p c then [] # split_pred p cs
      else (c # hd (split_pred p cs)) # tl (split_pred p cs))"

definition trim :: "string \<Rightarrow> string" where
  "trim s = rev (dropWhile is_whitespace (rev (dropWhile is_whitespace s)))"

lemma split_pred_ne [simp]: "split_pred p s \<noteq> []"
  by (induction s) auto

lemma split_pred_parts: "w \<in> set (split_pred p s) \<Longrightarrow> c \<in> set w \<Longrightarrow> c \<in> set s \<and> \<not> p c"
proof (induction s arbitrary: w)
  case Nil
  then show ?case by simp
next
  case (Cons d ds)
  have tl: "\<And>v. v \<in> set (tl (split_pred p ds)) \<Longrightarrow> v \<in> set (split_pred p ds)"
    by (meson list.set_sel(2) split_pred_ne)
  have hd: "c \<in> set (hd (split_pred p ds)) \<Longrightarrow> c \<in> set ds \<and> \<not> p c"
    using Cons.IH [of "hd (split_pred p ds)"] by simp
  from Cons.prems Cons.IH tl hd show ?case by (auto split: if_splits)
qed

lemma split_pred_map:
  "(\<And>c. p (f c) = p c) \<Longrightarrow> split_pred p (map f s) = map (map f) (split_pred p s)"
  by (induction s) (auto simp: hd_map map_tl)

lemma split_pred_sep: "p c \<Longrightarrow> split_pred p (a @ c # b) = split_pred p a @ split_pred p b"
  by (induction a) auto

section \<open>Parsing numbers\<close>

text \<open>
  \<open>str::parse\<close> for an unsigned integer of \<open>w\<close> bits: an optional plus sign, at least one
  digit, nothing else, and a value that fits.
\<close>

definition is_digit :: "char \<Rightarrow> bool" where
  "is_digit c \<longleftrightarrow> 48 \<le> code c \<and> code c \<le> 57"

definition digits_value :: "string \<Rightarrow> nat" where
  "digits_value ds = foldl (\<lambda>n c. 10 * n + (code c - 48)) 0 ds"

definition parse_unsigned :: "nat \<Rightarrow> string \<Rightarrow> nat option" where
  "parse_unsigned w s =
     (let ds = (if s \<noteq> [] \<and> hd s = CHR ''+'' then tl s else s)
      in if ds \<noteq> [] \<and> list_all is_digit ds \<and> digits_value ds < 2 ^ w
         then Some (digits_value ds) else None)"

text \<open>Decimal display of an unsigned integer.\<close>

definition digit_char :: "nat \<Rightarrow> char" where
  "digit_char d = char_of (48 + d)"

fun show_nat :: "nat \<Rightarrow> string" where
  "show_nat n = (if n < 10 then [digit_char n] else show_nat (n div 10) @ [digit_char (n mod 10)])"

declare show_nat.simps [simp del]

lemma code_digit_char: "d < 10 \<Longrightarrow> code (digit_char d) = 48 + d"
  by (simp add: digit_char_def)

lemma digits_value_snoc: "digits_value (ds @ [c]) = 10 * digits_value ds + (code c - 48)"
  by (simp add: digits_value_def)

lemma show_nat_digits:
  "show_nat n \<noteq> [] \<and> list_all is_digit (show_nat n) \<and> digits_value (show_nat n) = n"
proof (induction n rule: show_nat.induct)
  case (1 n)
  show ?case
  proof (cases "n < 10")
    case True
    then show ?thesis
      by (simp add: show_nat.simps [of n] is_digit_def code_digit_char digits_value_def)
  next
    case False
    with 1 show ?thesis
      by (simp add: show_nat.simps [of n] is_digit_def code_digit_char digits_value_snoc)
  qed
qed

lemma hd_show_nat: "hd (show_nat n) \<noteq> CHR ''+''"
proof -
  have "is_digit (hd (show_nat n))"
    using show_nat_digits [of n] by (cases "show_nat n") auto
  then show ?thesis by (auto simp: is_digit_def)
qed

lemma parse_show_nat: "n < 2 ^ w \<Longrightarrow> parse_unsigned w (show_nat n) = Some n"
  using show_nat_digits [of n] hd_show_nat [of n] by (simp add: parse_unsigned_def)

lemma show_nat_inj: "show_nat m = show_nat n \<longleftrightarrow> m = n"
  using show_nat_digits by metis

text \<open>Zero padding and lower-case hexadecimal display.\<close>

definition pad_left :: "nat \<Rightarrow> string \<Rightarrow> string" where
  "pad_left w s = replicate (w - length s) (CHR ''0'') @ s"

fun hex_digits :: "nat \<Rightarrow> string" where
  "hex_digits n = (if n < 16 then [''0123456789abcdef'' ! n] else hex_digits (n div 16) @ [''0123456789abcdef'' ! (n mod 16)])"

declare hex_digits.simps [simp del]

section \<open>The tokenizer\<close>

definition tokenize :: "string \<Rightarrow> string list" where
  "tokenize text1 =
     map to_lowercase (filter (\<lambda>s. s \<noteq> []) (split_pred (\<lambda>c. \<not> is_alphanumeric c) text1))"

lemma tokenize_Nil [simp]: "tokenize [] = []"
  by (simp add: tokenize_def)

lemma tokenize_sep:
  "\<not> is_alphanumeric c \<Longrightarrow> tokenize (a @ c # b) = tokenize a @ tokenize b"
  by (simp add: tokenize_def split_pred_sep)

lemma tokenize_lower [simp]: "tokenize (to_lowercase s) = tokenize s"
  by (simp add: tokenize_def to_lowercase_def split_pred_map filter_map o_def)

lemma tokenize_shape:
  assumes "t \<in> set (tokenize s)"
  shows "t \<noteq> []" and "\<forall>c \<in> set t. is_alphanumeric c" and "to_lowercase t = t"
proof -
  from assms obtain w where w: "w \<in> set (split_pred (\<lambda>c. \<not> is_alphanumeric c) s)" "w \<noteq> []"
    and t: "t = to_lowercase w" by (auto simp: tokenize_def)
  show "t \<noteq> []" using w t by simp
  show "to_lowercase t = t" using t by simp
  show "\<forall>c \<in> set t. is_alphanumeric c"
    using split_pred_parts [OF w(1)] t by (auto simp: to_lowercase_def)
qed

lemma split_pred_none: "\<forall>c \<in> set s. \<not> p c \<Longrightarrow> split_pred p s = [s]"
  by (induction s) auto

text \<open>A token is its own only token: searching for a token looks exactly that token up.\<close>

lemma tokenize_token: "t \<in> set (tokenize s) \<Longrightarrow> tokenize t = [t]"
  by (frule tokenize_shape(1), frule tokenize_shape(2), drule tokenize_shape(3))
    (simp add: tokenize_def split_pred_none)

lemma tokenize_blank: "trim s = [] \<Longrightarrow> tokenize s = []"
proof -
  assume "trim s = []"
  then have "\<forall>c \<in> set (dropWhile is_whitespace s). is_whitespace c"
    by (simp add: trim_def)
  moreover have "set s = set (takeWhile is_whitespace s) \<union> set (dropWhile is_whitespace s)"
    by (metis set_append takeWhile_dropWhile_id)
  ultimately have ws: "\<forall>c \<in> set s. is_whitespace c"
    by (auto dest: set_takeWhileD)
  have "\<forall>w \<in> set (split_pred (\<lambda>c. \<not> is_alphanumeric c) s). w = []"
  proof (intro ballI)
    fix w assume "w \<in> set (split_pred (\<lambda>c. \<not> is_alphanumeric c) s)"
    then have "\<forall>c \<in> set w. is_whitespace c \<and> is_alphanumeric c"
      using split_pred_parts ws by fastforce
    then show "w = []" by (cases w) (auto simp: is_whitespace_def is_alphanumeric_def)
  qed
  then show ?thesis by (simp add: tokenize_def filter_empty_conv)
qed

end
