(* ===== verification/Index.thy ===== *)
theory Index
  imports Doc_View Text_Tokens
begin

text \<open>
  The inverted index of a shard (\<open>crates/shard-node/src/index.rs\<close>): documents in slots with a
  free list, posting lists, the key map, document lengths, and BM25 search. Slot numbers,
  frequencies and lengths are natural numbers: a shard stays below \<open>2^32\<close> documents and
  tokens. A panic (an \<open>expect\<close> or an index out of range) is \<open>None\<close>. The natural logarithm is
  the platform's and an argument; so is the order in which the score map is drained.
\<close>

section \<open>State\<close>

record posting =
  post_doc :: nat
  post_freq :: nat

record inverted_index =
  docs :: "flight_document option list"
  postings :: "(string, posting list) hashmap"
  by_key :: "(string, nat) hashmap"
  free :: "nat list"
  doc_len :: "nat list"
  total_len :: nat

record scored_hit =
  sh_doc :: flight_document
  sh_score :: f64

definition index_new :: inverted_index where
  "index_new = \<lparr>docs = [], postings = [], by_key = [], free = [], doc_len = [], total_len = 0\<rparr>"

definition index_len :: "inverted_index \<Rightarrow> nat" where
  "index_len idx = length (by_key idx)"

definition documents :: "inverted_index \<Rightarrow> flight_document list" where
  "documents idx = List.map_filter (\<lambda>d. d) (docs idx)"

definition bm25_params :: "(string \<Rightarrow> f64 option) \<Rightarrow> string option \<Rightarrow> string option \<Rightarrow> f64 \<times> f64" where
  "bm25_params parse k1_env b_env =
     ((case Option.bind k1_env parse of Some k1 \<Rightarrow> k1 | None \<Rightarrow> fround binary64 False (12 / 10)),
      (case Option.bind b_env parse of Some b \<Rightarrow> b | None \<Rightarrow> fround binary64 False (75 / 100)))"

section \<open>Updates\<close>

definition doc_tokens :: "flight_document \<Rightarrow> string list" where
  "doc_tokens doc = concat (map tokenize
     ([callsign doc, origin doc, destination doc, aircraft_type doc] @ hm_values (text_fields doc)))"

definition bump_freq :: "(string, nat) hashmap \<Rightarrow> string \<Rightarrow> (string, nat) hashmap" where
  "bump_freq freqs token = hm_insert token ((case hm_get freqs token of Some n \<Rightarrow> n | None \<Rightarrow> 0) + 1) freqs"

definition term_freqs :: "flight_document \<Rightarrow> (string, nat) hashmap" where
  "term_freqs doc = foldl bump_freq [] (doc_tokens doc)"

definition remove_posting ::
  "nat \<Rightarrow> (string, posting list) hashmap \<Rightarrow> string \<Rightarrow> (string, posting list) hashmap" where
  "remove_posting doc_id ps term =
     (case hm_get ps term of
        None \<Rightarrow> ps
      | Some ls \<Rightarrow>
          (let kept = filter (\<lambda>p. post_doc p \<noteq> doc_id) ls
           in if kept = [] then hm_remove term ps else hm_insert term kept ps))"

definition remove_postings ::
  "nat \<Rightarrow> flight_document \<Rightarrow> (string, posting list) hashmap \<Rightarrow> (string, posting list) hashmap" where
  "remove_postings doc_id doc ps = foldl (remove_posting doc_id) ps (hm_keys (term_freqs doc))"

definition push_posting ::
  "nat \<Rightarrow> (string, posting list) hashmap \<Rightarrow> string \<times> nat \<Rightarrow> (string, posting list) hashmap" where
  "push_posting doc_id ps tf =
     hm_insert (fst tf) (the_list (hm_get ps (fst tf)) @ [\<lparr>post_doc = doc_id, post_freq = snd tf\<rparr>]) ps"

definition index_insert :: "inverted_index \<Rightarrow> flight_document \<Rightarrow> inverted_index option" where
  "index_insert idx doc =
     (case hm_get (by_key idx) (icao24 doc) of
        Some doc_id \<Rightarrow>
          (if doc_id < length (docs idx) \<and> doc_id < length (doc_len idx) then
             case docs idx ! doc_id of
               None \<Rightarrow> None
             | Some old \<Rightarrow>
                 (let freqs = term_freqs doc;
                      new_len = sum_list (hm_values freqs)
                  in Some (idx\<lparr>docs := (docs idx)[doc_id := Some doc],
                       total_len := total_len idx - doc_len idx ! doc_id + new_len,
                       doc_len := (doc_len idx)[doc_id := new_len],
                       postings := foldl (push_posting doc_id) (remove_postings doc_id old (postings idx)) freqs\<rparr>))
           else None)
      | None \<Rightarrow>
          (let freqs = term_freqs doc;
               len = sum_list (hm_values freqs)
           in if free idx = [] then
                Some (idx\<lparr>docs := docs idx @ [Some doc], doc_len := doc_len idx @ [len],
                     total_len := total_len idx + len,
                     by_key := hm_insert (icao24 doc) (length (docs idx)) (by_key idx),
                     postings := foldl (push_posting (length (docs idx))) (postings idx) freqs\<rparr>)
              else
                (let slot = last (free idx)
                 in if slot < length (docs idx) \<and> slot < length (doc_len idx) then
                      Some (idx\<lparr>docs := (docs idx)[slot := Some doc], doc_len := (doc_len idx)[slot := len],
                           free := butlast (free idx), total_len := total_len idx + len,
                           by_key := hm_insert (icao24 doc) slot (by_key idx),
                           postings := foldl (push_posting slot) (postings idx) freqs\<rparr>)
                    else None)))"

definition index_remove :: "inverted_index \<Rightarrow> string \<Rightarrow> (inverted_index \<times> bool) option" where
  "index_remove idx key =
     (case hm_get (by_key idx) key of
        None \<Rightarrow> Some (idx, False)
      | Some doc_id \<Rightarrow>
          (if doc_id < length (docs idx) \<and> doc_id < length (doc_len idx) then
             case docs idx ! doc_id of
               None \<Rightarrow> None
             | Some doc \<Rightarrow>
                 Some (idx\<lparr>by_key := hm_remove key (by_key idx), docs := (docs idx)[doc_id := None],
                      postings := remove_postings doc_id doc (postings idx),
                      total_len := total_len idx - doc_len idx ! doc_id,
                      doc_len := (doc_len idx)[doc_id := 0], free := free idx @ [doc_id]\<rparr>, True)
           else None))"

section \<open>Search\<close>

definition half :: f64 where
  "half = Fin False (1 / 2)"

definition idf :: "(f64 \<Rightarrow> f64) \<Rightarrow> f64 \<Rightarrow> f64 \<Rightarrow> f64" where
  "idf ln1 n df =
     ln1 (fadd binary64 fone (fdiv binary64 (fadd binary64 (fsub binary64 n df) half) (fadd binary64 df half)))"

definition bm25_norm :: "f64 \<times> f64 \<Rightarrow> f64 \<Rightarrow> f64 \<Rightarrow> f64 \<Rightarrow> f64" where
  "bm25_norm params avgdl tf dl =
     (let (k1, b) = params
      in fdiv binary64 (fmul binary64 tf (fadd binary64 k1 fone))
           (fadd binary64 tf (fmul binary64 k1
              (fadd binary64 (fsub binary64 fone b) (fdiv binary64 (fmul binary64 b dl) avgdl)))))"

definition add_score ::
  "f64 \<times> f64 \<Rightarrow> f64 \<Rightarrow> f64 \<Rightarrow> nat list \<Rightarrow> (nat, f64) hashmap \<Rightarrow> posting \<Rightarrow> (nat, f64) hashmap" where
  "add_score params idf1 avgdl lens scores p =
     (let norm = bm25_norm params avgdl (f64_of_nat (post_freq p)) (f64_of_nat (lens ! post_doc p));
          old = (case hm_get scores (post_doc p) of Some s \<Rightarrow> s | None \<Rightarrow> fzero)
      in hm_insert (post_doc p) (fadd binary64 old (fmul binary64 idf1 norm)) scores)"

definition score_term ::
  "(f64 \<Rightarrow> f64) \<Rightarrow> f64 \<times> f64 \<Rightarrow> inverted_index \<Rightarrow> f64 \<Rightarrow> f64 \<Rightarrow> (nat, f64) hashmap \<Rightarrow> string \<Rightarrow> (nat, f64) hashmap" where
  "score_term ln1 params idx n avgdl scores term =
     (case hm_get (postings idx) term of
        None \<Rightarrow> scores
      | Some ps \<Rightarrow> foldl (add_score params (idf ln1 n (f64_of_nat (length ps))) avgdl (doc_len idx)) scores ps)"

text \<open>The query's terms, each kept at its first occurrence (the \<open>seen_terms\<close> set).\<close>

fun first_occurrences :: "string set \<Rightarrow> string list \<Rightarrow> string list" where
  "first_occurrences seen [] = []"
| "first_occurrences seen (t # ts) =
     (if t \<in> seen then first_occurrences seen ts else t # first_occurrences (insert t seen) ts)"

definition cmp_scored :: "scored_hit \<Rightarrow> scored_hit \<Rightarrow> ordering" where
  "cmp_scored a b =
     ord_then (f64_cmp_or_equal (sh_score b) (sh_score a)) (cmp_lin (icao24 (sh_doc a)) (icao24 (sh_doc b)))"

definition avg_len :: "inverted_index \<Rightarrow> f64" where
  "avg_len idx =
     (if by_key idx = [] then fone
      else fmax (fdiv binary64 (f64_of_nat (total_len idx)) (f64_of_nat (length (by_key idx)))) fone)"

definition query_scores ::
  "(f64 \<Rightarrow> f64) \<Rightarrow> f64 \<times> f64 \<Rightarrow> inverted_index \<Rightarrow> string list \<Rightarrow> (nat, f64) hashmap" where
  "query_scores ln1 params idx terms =
     foldl (score_term ln1 params idx (f64_of_nat (length (by_key idx))) (avg_len idx)) []
       (first_occurrences {} terms)"

definition index_search ::
  "(f64 \<Rightarrow> f64) \<Rightarrow> f64 \<times> f64 \<Rightarrow> ((nat \<times> f64) list \<Rightarrow> (nat \<times> f64) list) \<Rightarrow> inverted_index \<Rightarrow> string \<Rightarrow> nat \<Rightarrow>
    (nat \<times> scored_hit list) option" where
  "index_search ln1 params ord idx query limit =
     (let terms = tokenize query
      in if terms = [] then Some (0, [])
         else
           (let scores = query_scores ln1 params idx terms
            in if list_all (\<lambda>(i, _). i < length (doc_len idx) \<and> i < length (docs idx) \<and> docs idx ! i \<noteq> None) scores then
                 Some (length scores, truncate_limit limit (sort_by cmp_scored
                   (map (\<lambda>(i, s). \<lparr>sh_doc = the (docs idx ! i), sh_score = s\<rparr>) (ord scores))))
               else None))"

section \<open>Term frequencies\<close>

lemma bump_freq_lookup:
  "hm_get (foldl bump_freq m ts) t =
    (if t \<in> set ts then Some (count_list ts t + (case hm_get m t of Some n \<Rightarrow> n | None \<Rightarrow> 0)) else hm_get m t)"
  by (induction ts arbitrary: m) (auto simp: bump_freq_def hm_get_insert count_list_0_iff split: option.split)

lemma term_freqs_lookup:
  "hm_get (term_freqs d) t = (if t \<in> set (doc_tokens d) then Some (count_list (doc_tokens d) t) else None)"
  by (simp add: term_freqs_def bump_freq_lookup)

lemma bump_freq_wf: "hm_wf m \<Longrightarrow> hm_wf (foldl bump_freq m ts)"
  by (induction ts arbitrary: m) (simp_all add: bump_freq_def hm_wf_insert)

lemma term_freqs_wf: "hm_wf (term_freqs d)"
  by (simp add: term_freqs_def bump_freq_wf)

lemma term_freqs_keys: "set (hm_keys (term_freqs d)) = set (doc_tokens d)"
  by (metis (no_types, lifting) dom_map_of_conv_image_fst domIff image_set option.distinct(1) set_eqI term_freqs_lookup)

lemma sum_update:
  "hm_wf m \<Longrightarrow> sum_list (hm_values (AList.update k v m)) =
    sum_list (hm_values m) + v - (case hm_get m k of Some n \<Rightarrow> n | None \<Rightarrow> (0::nat))"
proof (induction m)
  case (Cons x m)
  obtain a b where x: "x = (a, b)" by fastforce
  have "(case hm_get m k of Some n \<Rightarrow> n | None \<Rightarrow> 0) \<le> sum_list (hm_values m)"
    by (auto split: option.split dest!: map_of_SomeD intro!: member_le_sum_list) force
  with Cons x show ?case by (auto split: option.split)
qed simp

lemma bump_freq_sum: "hm_wf m \<Longrightarrow> sum_list (hm_values (foldl bump_freq m ts)) = sum_list (hm_values m) + length ts"
proof (induction ts arbitrary: m)
  case (Cons t ts)
  have "sum_list (hm_values (bump_freq m t)) = sum_list (hm_values m) + 1"
    using Cons.prems by (auto simp: bump_freq_def sum_update split: option.split)
  with Cons show ?case by (simp add: bump_freq_def hm_wf_insert)
qed simp

lemma term_freqs_sum [simp]: "sum_list (hm_values (term_freqs d)) = length (doc_tokens d)"
  by (simp add: term_freqs_def bump_freq_sum)

section \<open>Invariant\<close>

definition live :: "flight_document option list \<Rightarrow> nat \<Rightarrow> flight_document \<Rightarrow> bool" where
  "live ds i d \<longleftrightarrow> i < length ds \<and> ds ! i = Some d"

text \<open>The posting list of a term holds one posting per live document with the term.\<close>

definition post_inv :: "flight_document option list \<Rightarrow> (string, posting list) hashmap \<Rightarrow> bool" where
  "post_inv ds ps \<longleftrightarrow> hm_wf ps \<and> (\<forall>t. hm_get ps t \<noteq> Some []
     \<and> distinct (map post_doc (the_list (hm_get ps t)))
     \<and> set (the_list (hm_get ps t)) = {\<lparr>post_doc = i, post_freq = count_list (doc_tokens d) t\<rparr> | i d.
         live ds i d \<and> t \<in> set (doc_tokens d)})"

definition key_inv :: "flight_document option list \<Rightarrow> (string, nat) hashmap \<Rightarrow> bool" where
  "key_inv ds bk \<longleftrightarrow> hm_wf bk \<and> (\<forall>k i. hm_get bk k = Some i \<longleftrightarrow> (\<exists>d. live ds i d \<and> icao24 d = k))"

definition free_inv :: "flight_document option list \<Rightarrow> nat list \<Rightarrow> bool" where
  "free_inv ds fr \<longleftrightarrow> distinct fr \<and> set fr = {i. i < length ds \<and> ds ! i = None}"

abbreviation slot_len :: "flight_document option \<Rightarrow> nat" where
  "slot_len x \<equiv> (case x of Some d \<Rightarrow> length (doc_tokens d) | None \<Rightarrow> 0)"

definition index_inv :: "inverted_index \<Rightarrow> bool" where
  "index_inv idx \<longleftrightarrow> post_inv (docs idx) (postings idx) \<and> key_inv (docs idx) (by_key idx)
     \<and> free_inv (docs idx) (free idx) \<and> doc_len idx = map slot_len (docs idx) \<and> total_len idx = sum_list (doc_len idx)"

lemma remove_posting_lookup:
  assumes "hm_wf ps" and "\<forall>t. hm_get ps t \<noteq> Some []"
  shows "hm_wf (foldl (remove_posting i) ps ts) \<and> (\<forall>t. hm_get (foldl (remove_posting i) ps ts) t \<noteq> Some [])
    \<and> (\<forall>t. the_list (hm_get (foldl (remove_posting i) ps ts) t) =
        (if t \<in> set ts then filter (\<lambda>p. post_doc p \<noteq> i) (the_list (hm_get ps t)) else the_list (hm_get ps t)))"
  using assms
proof (induction ts arbitrary: ps)
  case (Cons t ts)
  let ?ps = "remove_posting i ps t"
  have "hm_wf ?ps" "\<forall>u. hm_get ?ps u \<noteq> Some []"
    and "\<forall>u. the_list (hm_get ?ps u) = (if u = t then filter (\<lambda>p. post_doc p \<noteq> i) (the_list (hm_get ps u)) else the_list (hm_get ps u))"
    using Cons.prems by (auto simp: remove_posting_def Let_def hashmap_simps split: option.split)
  with Cons.IH [of ?ps] show ?case by auto
qed simp

lemma push_posting_lookup:
  assumes "hm_wf ps" and "\<forall>t. hm_get ps t \<noteq> Some []" and "hm_wf fs"
  shows "hm_wf (foldl (push_posting i) ps fs) \<and> (\<forall>t. hm_get (foldl (push_posting i) ps fs) t \<noteq> Some [])
    \<and> (\<forall>t. the_list (hm_get (foldl (push_posting i) ps fs) t) = the_list (hm_get ps t)
        @ (case hm_get fs t of Some n \<Rightarrow> [\<lparr>post_doc = i, post_freq = n\<rparr>] | None \<Rightarrow> []))"
  using assms
proof (induction fs arbitrary: ps)
  case (Cons f fs)
  obtain a b where f: "f = (a, b)" by fastforce
  let ?ps = "push_posting i ps f"
  have "hm_wf ?ps" "\<forall>u. hm_get ?ps u \<noteq> Some []"
    and "\<forall>u. the_list (hm_get ?ps u) = the_list (hm_get ps u) @ (if u = a then [\<lparr>post_doc = i, post_freq = b\<rparr>] else [])"
    using Cons.prems by (auto simp: push_posting_def hashmap_simps f)
  moreover have "hm_get fs a = None" using Cons.prems(3) f by (auto simp: map_of_eq_None_iff)
  ultimately show ?case using Cons.IH [of ?ps] Cons.prems(3) f by auto
qed simp

lemma live_update: "i < length ds \<Longrightarrow> live (ds[i := x]) j d \<longleftrightarrow> (if j = i then x = Some d else live ds j d)"
  by (auto simp: live_def nth_list_update)

lemma post_inv_remove:
  assumes inv: "post_inv ds ps" and old: "live ds i old"
  shows "post_inv (ds[i := None]) (remove_postings i old ps)"
proof -
  have i: "i < length ds" using old by (simp add: live_def)
  have wf: "hm_wf ps" and ne: "\<forall>t. hm_get ps t \<noteq> Some []" using inv by (simp_all add: post_inv_def)
  note look = remove_posting_lookup [OF wf ne, of i "hm_keys (term_freqs old)", folded remove_postings_def]
  have "the_list (hm_get (remove_postings i old ps) t) = filter (\<lambda>p. post_doc p \<noteq> i) (the_list (hm_get ps t))" for t
  proof (cases "t \<in> set (doc_tokens old)")
    case True
    then show ?thesis using look by (simp only: term_freqs_keys if_True)
  next
    case False
    then have "\<forall>p \<in> set (the_list (hm_get ps t)). post_doc p \<noteq> i"
      using inv old by (auto simp: post_inv_def live_def)
    with False look show ?thesis by (simp only: term_freqs_keys if_False) (simp add: filter_id_conv)
  qed
  with look inv show ?thesis
    unfolding post_inv_def by (auto simp: live_update [OF i] distinct_map_filter)
qed

lemma post_inv_push:
  assumes inv: "post_inv ds ps" and i: "i < length ds" "ds ! i = None"
  shows "post_inv (ds[i := Some d]) (foldl (push_posting i) ps (term_freqs d))"
proof -
  have wf: "hm_wf ps" and ne: "\<forall>t. hm_get ps t \<noteq> Some []" using inv by (simp_all add: post_inv_def)
  note look = push_posting_lookup [OF wf ne term_freqs_wf, of i d]
  have fresh: "\<forall>p \<in> set (the_list (hm_get ps t)). post_doc p \<noteq> i" for t
    using inv i by (auto simp: post_inv_def live_def)
  have dist: "distinct (map post_doc (the_list (hm_get (foldl (push_posting i) ps (term_freqs d)) t)))" for t
    using look inv fresh [of t] by (auto simp: term_freqs_lookup post_inv_def)
  have sets: "set (the_list (hm_get (foldl (push_posting i) ps (term_freqs d)) t))
      = {\<lparr>post_doc = j, post_freq = count_list (doc_tokens e) t\<rparr> | j e. live (ds[i := Some d]) j e \<and> t \<in> set (doc_tokens e)}" for t
  proof -
    have A: "the_list (hm_get (foldl (push_posting i) ps (term_freqs d)) t) = the_list (hm_get ps t)
        @ (if t \<in> set (doc_tokens d) then [\<lparr>post_doc = i, post_freq = count_list (doc_tokens d) t\<rparr>] else [])"
      using look by (simp add: term_freqs_lookup)
    have B: "live (ds[i := Some d]) j e \<longleftrightarrow> j = i \<and> e = d \<or> live ds j e" for j e
      using i live_update [OF i(1), of "Some d" j e] by (auto simp: live_def split: if_splits)
    have C: "set (the_list (hm_get ps t)) = {\<lparr>post_doc = j, post_freq = count_list (doc_tokens e) t\<rparr> | j e.
        live ds j e \<and> t \<in> set (doc_tokens e)}"
      using inv by (simp add: post_inv_def)
    show ?thesis unfolding A B set_append C by (cases "t \<in> set (doc_tokens d)") auto
  qed
  show ?thesis
    unfolding post_inv_def
  proof (intro conjI allI)
    show "hm_wf (foldl (push_posting i) ps (term_freqs d))" by (rule look [THEN conjunct1])
    show "hm_get (foldl (push_posting i) ps (term_freqs d)) t \<noteq> Some []" for t
      using look [THEN conjunct2, THEN conjunct1] by (rule spec)
  qed (rule dist sets)+
qed

lemma post_inv_grow: "post_inv ds ps \<Longrightarrow> post_inv (ds @ [None]) ps"
proof -
  have "live (ds @ [None]) i d \<longleftrightarrow> live ds i d" for i d
    by (auto simp: live_def nth_append)
  then show "post_inv ds ps \<Longrightarrow> ?thesis" by (simp add: post_inv_def)
qed

text \<open>What the index holds, as a map from keys to documents.\<close>

definition index_content :: "inverted_index \<Rightarrow> string \<Rightarrow> flight_document option" where
  "index_content idx k = Option.bind (hm_get (by_key idx) k) (\<lambda>i. docs idx ! i)"

lemma content_live:
  assumes "index_inv idx"
  shows "index_content idx k = Some d \<longleftrightarrow> icao24 d = k \<and> (\<exists>i. live (docs idx) i d)"
  using assms unfolding index_inv_def key_inv_def index_content_def live_def
  by (auto simp: bind_eq_Some_conv)

lemma content_icao24: "index_inv idx \<Longrightarrow> index_content idx k = Some d \<Longrightarrow> icao24 d = k"
  by (simp add: content_live)

lemma sum_slot_update:
  assumes "i < length xs"
  shows "sum_list (map f (xs[i := x])) = sum_list (map f xs) - f (xs ! i) + (f x :: nat)"
proof -
  have "f (xs ! i) \<le> sum_list (map f xs)" using assms by (intro member_le_sum_list) auto
  then show ?thesis using assms by (simp add: map_update sum_list_update)
qed

section \<open>What happens to a slot\<close>

lemma key_inv_vacate:
  assumes "key_inv ds bk" and "live ds i old"
  shows "key_inv (ds[i := None]) (hm_remove (icao24 old) bk)"
proof -
  have i: "i < length ds" and key: "hm_get bk (icao24 old) = Some i" using assms by (auto simp: live_def key_inv_def)
  have "(hm_get bk k = Some j \<and> k \<noteq> icao24 old) \<longleftrightarrow> (j \<noteq> i \<and> hm_get bk k = Some j)" for k j
    using assms key unfolding key_inv_def live_def by (metis option.inject)
  with assms(1) show ?thesis
    unfolding key_inv_def live_update [OF i] by (auto simp: hm_get_remove hm_wf_remove)
qed

lemma key_inv_occupy:
  assumes "key_inv ds bk" and "i < length ds" "ds ! i = None" and "hm_get bk (icao24 d) = None"
  shows "key_inv (ds[i := Some d]) (hm_insert (icao24 d) i bk)"
proof -
  have "\<not> (live ds j e \<and> icao24 e = icao24 d)" for j e using assms(1,4) unfolding key_inv_def by (metis option.distinct(1))
  moreover have "\<not> live ds i e" for e using assms(3) by (simp add: live_def)
  ultimately show ?thesis
    using assms(1) unfolding key_inv_def live_update [OF assms(2)] by (auto simp: hm_get_insert hm_wf_insert)
qed

lemma key_inv_replace:
  assumes "key_inv ds bk" and "live ds i old" and "icao24 d = icao24 old"
  shows "key_inv (ds[i := Some d]) bk"
proof -
  have i: "i < length ds" using assms(2) by (simp add: live_def)
  have "(\<exists>e. live (ds[i := Some d]) j e \<and> icao24 e = k) \<longleftrightarrow> (\<exists>e. live ds j e \<and> icao24 e = k)" for j k
  proof (cases "j = i")
    case True
    with assms(2,3) show ?thesis unfolding live_update [OF i] by (auto simp: live_def)
  qed (simp add: live_update [OF i])
  with assms(1) show ?thesis by (simp add: key_inv_def)
qed

lemma free_inv_update:
  assumes "free_inv ds fr" and "i < length ds"
  shows "free_inv (ds[i := Some d]) (removeAll i fr)"
    and "ds ! i \<noteq> None \<Longrightarrow> free_inv (ds[i := None]) (fr @ [i])"
  using assms by (auto simp: free_inv_def nth_list_update distinct_removeAll)

lemma removeAll_last: "distinct xs \<Longrightarrow> xs \<noteq> [] \<Longrightarrow> removeAll (last xs) xs = butlast xs"
  by (cases xs rule: rev_cases) auto

lemma grow_inv:
  "key_inv ds bk \<Longrightarrow> key_inv (ds @ [None]) bk" "free_inv ds fr \<Longrightarrow> free_inv (ds @ [None]) (fr @ [length ds])"
proof -
  have "live (ds @ [None]) i d \<longleftrightarrow> live ds i d" for i d by (auto simp: live_def nth_append)
  then show "key_inv ds bk \<Longrightarrow> key_inv (ds @ [None]) bk" by (simp add: key_inv_def)
  show "free_inv ds fr \<Longrightarrow> free_inv (ds @ [None]) (fr @ [length ds])"
  proof -
    have "{i. i < length (ds @ [None]) \<and> (ds @ [None]) ! i = None} = insert (length ds) {i. i < length ds \<and> ds ! i = None}"
      by (auto simp: nth_append)
    then show "free_inv ds fr \<Longrightarrow> ?thesis" by (simp add: free_inv_def)
  qed
qed

section \<open>The index refines a map\<close>

lemma content_update:
  assumes "index_inv idx" and "index_inv idx'" and "i < length (docs idx)"
    and "docs idx' = (docs idx)[i := Some d]" and "\<forall>e. live (docs idx) i e \<longrightarrow> icao24 e = icao24 d"
    and "\<forall>j e. live (docs idx) j e \<longrightarrow> icao24 e = icao24 d \<longrightarrow> j = i"
  shows "index_content idx' = (index_content idx)(icao24 d \<mapsto> d)"
proof
  fix k
  show "index_content idx' k = ((index_content idx)(icao24 d \<mapsto> d)) k"
  proof (cases "k = icao24 d")
    case True
    have "live (docs idx') i d" using assms(3) by (simp add: assms(4) live_update)
    with True content_live [OF assms(2)] show ?thesis by (metis fun_upd_same)
  next
    case False
    have "index_content idx' k = Some e \<longleftrightarrow> index_content idx k = Some e" for e
      unfolding content_live [OF assms(1)] content_live [OF assms(2)] assms(4) live_update [OF assms(3)]
      using False assms(5) by auto
    with False show ?thesis by (metis fun_upd_other not_Some_eq)
  qed
qed

text \<open>A known key: its slot gets the new document.\<close>
lemma index_insert_replaces:
  assumes inv: "index_inv idx" and Some: "hm_get (by_key idx) (icao24 d) = Some i"
  shows "\<exists>idx'. index_insert idx d = Some idx' \<and> index_inv idx'
    \<and> index_content idx' = (index_content idx)(icao24 d \<mapsto> d)"
proof -
  obtain old where old: "live (docs idx) i old" "icao24 old = icao24 d"
    using inv Some by (auto simp: index_inv_def key_inv_def)
  then have i: "i < length (docs idx)" "docs idx ! i = Some old" by (simp_all add: live_def)
  let ?idx = "idx\<lparr>docs := (docs idx)[i := Some d], total_len := total_len idx - doc_len idx ! i + length (doc_tokens d),
    doc_len := (doc_len idx)[i := length (doc_tokens d)],
    postings := foldl (push_posting i) (remove_postings i old (postings idx)) (term_freqs d)\<rparr>"
  have ins: "index_insert idx d = Some ?idx"
    using Some i inv by (simp add: index_insert_def index_inv_def Let_def)
  have "post_inv ((docs idx)[i := None, i := Some d]) (foldl (push_posting i) (remove_postings i old (postings idx)) (term_freqs d))"
    using i inv by (intro post_inv_push post_inv_remove [OF _ old(1)]) (simp_all add: index_inv_def)
  moreover have "free_inv ((docs idx)[i := Some d]) (free idx)"
    using free_inv_update(1) [of "docs idx" "free idx" i d] inv i by (auto simp: index_inv_def free_inv_def)
  ultimately have inv': "index_inv ?idx"
    using inv i key_inv_replace [OF _ old(1)] old(2) sum_slot_update [OF i(1), of slot_len "Some d"]
    by (simp add: index_inv_def map_update)
  moreover have "index_content ?idx = (index_content idx)(icao24 d \<mapsto> d)"
  proof (rule content_update [OF inv inv' i(1)])
    have "hm_get (by_key idx) (icao24 e) = Some j" if "live (docs idx) j e" for j e
      using that inv unfolding index_inv_def key_inv_def by blast
    then show "\<forall>j e. live (docs idx) j e \<longrightarrow> icao24 e = icao24 d \<longrightarrow> j = i" using Some by fastforce
  qed (use old in \<open>simp_all add: live_def\<close>)
  ultimately show ?thesis using ins by blast
qed

text \<open>A new key: it takes the last free slot, or a slot appended when none is free.\<close>
lemma index_insert_adds:
  assumes inv: "index_inv idx" and None: "hm_get (by_key idx) (icao24 d) = None"
  shows "\<exists>idx'. index_insert idx d = Some idx' \<and> index_inv idx'
    \<and> index_content idx' = (index_content idx)(icao24 d \<mapsto> d)"
proof -
  define base where "base = (if free idx = [] then idx\<lparr>docs := docs idx @ [None], doc_len := doc_len idx @ [0], free := [length (docs idx)]\<rparr> else idx)"
  have base: "index_inv base" "by_key base = by_key idx" "free base \<noteq> []"
    using inv post_inv_grow [of "docs idx" "postings idx"] grow_inv(1) [of "docs idx"] grow_inv(2) [of "docs idx" "[]"]
    by (auto simp: base_def index_inv_def)
  have content: "index_content base = index_content idx"
  proof
    fix k
    have "index_content base k = Some e \<longleftrightarrow> index_content idx k = Some e" for e
      unfolding content_live [OF inv] content_live [OF base(1)]
      by (auto simp: base_def live_def nth_append)
    then show "index_content base k = index_content idx k" by (metis not_Some_eq)
  qed
  let ?i = "last (free base)"
  have i: "?i < length (docs base)" "docs base ! ?i = None"
    using base(1,3) last_in_set [of "free base"] by (auto simp: index_inv_def free_inv_def)
  let ?idx = "base\<lparr>docs := (docs base)[?i := Some d], doc_len := (doc_len base)[?i := length (doc_tokens d)],
    free := butlast (free base), total_len := total_len base + length (doc_tokens d),
    by_key := hm_insert (icao24 d) ?i (by_key base), postings := foldl (push_posting ?i) (postings base) (term_freqs d)\<rparr>"
  have ins: "index_insert idx d = Some ?idx"
  proof (cases "free idx = []")
    case True
    then show ?thesis
      using None inv by (simp add: index_insert_def base_def index_inv_def Let_def list_update_append)
  next
    case False
    then have "base = idx" by (simp add: base_def)
    then show ?thesis
      using None i inv False by (simp add: index_insert_def index_inv_def Let_def)
  qed
  have "butlast (free base) = removeAll ?i (free base)"
    using base(1,3) by (simp add: removeAll_last index_inv_def free_inv_def)
  then have inv': "index_inv ?idx"
    using base(1) i post_inv_push [of "docs base"] key_inv_occupy [of "docs base" "by_key base" ?i d] None base(2)
      free_inv_update(1) [of "docs base" "free base" ?i d] sum_slot_update [OF i(1), of slot_len "Some d"]
    by (simp add: index_inv_def map_update)
  have "index_content ?idx = (index_content base)(icao24 d \<mapsto> d)"
  proof (rule content_update [OF base(1) inv' i(1)])
    have "\<not> (live (docs base) j e \<and> icao24 e = icao24 d)" for j e
      using base(1,2) None unfolding index_inv_def key_inv_def by (metis option.distinct(1))
    then show "\<forall>j e. live (docs base) j e \<longrightarrow> icao24 e = icao24 d \<longrightarrow> j = ?i" by blast
  qed (use i in \<open>simp_all add: live_def\<close>)
  then show ?thesis using ins inv' content by auto
qed

lemma index_insert_spec:
  assumes "index_inv idx"
  shows "\<exists>idx'. index_insert idx d = Some idx' \<and> index_inv idx'
    \<and> index_content idx' = (index_content idx)(icao24 d \<mapsto> d)"
  using index_insert_replaces [OF assms] index_insert_adds [OF assms] by (cases "hm_get (by_key idx) (icao24 d)") auto

lemma index_remove_spec:
  assumes inv: "index_inv idx"
  shows "\<exists>idx'. index_remove idx k = Some (idx', index_content idx k \<noteq> None) \<and> index_inv idx'
    \<and> index_content idx' = (index_content idx)(k := None)"
proof (cases "hm_get (by_key idx) k")
  case None
  then have "index_content idx k = None" by (simp add: index_content_def)
  then show ?thesis using None inv by (intro exI [of _ idx]) (auto simp: index_remove_def)
next
  case (Some i)
  then obtain old where old: "live (docs idx) i old" "icao24 old = k"
    using inv by (auto simp: index_inv_def key_inv_def)
  then have i: "i < length (docs idx)" "docs idx ! i = Some old" by (simp_all add: live_def)
  let ?idx = "idx\<lparr>by_key := hm_remove k (by_key idx), docs := (docs idx)[i := None],
    postings := remove_postings i old (postings idx), total_len := total_len idx - doc_len idx ! i,
    doc_len := (doc_len idx)[i := 0], free := free idx @ [i]\<rparr>"
  have rem: "index_remove idx k = Some (?idx, True)"
    using Some i inv by (simp add: index_remove_def index_inv_def)
  have inv': "index_inv ?idx"
    using inv i post_inv_remove [OF _ old(1)] key_inv_vacate [OF _ old(1)] old(2)
      free_inv_update(2) [of "docs idx" "free idx" i] sum_slot_update [OF i(1), of slot_len None]
    by (simp add: index_inv_def map_update)
  have "index_content ?idx j = ((index_content idx)(k := None)) j" for j
  proof (cases "hm_get (by_key idx) j = Some i")
    case True
    then have "j = k" using inv old unfolding index_inv_def key_inv_def live_def by (metis option.inject)
    then show ?thesis by (simp add: index_content_def hm_get_remove)
  next
    case False
    with Some show ?thesis by (auto simp: index_content_def hm_get_remove nth_list_update bind_eq_None_conv split: option.split bind_split)
  qed
  moreover have "index_content idx k \<noteq> None" using content_live [OF inv, of k old] old by auto
  ultimately show ?thesis using rem inv' by (intro exI [of _ ?idx]) auto
qed

section \<open>Search against the corpus\<close>

text \<open>
  The specification of a search: the corpus is a map from keys to documents, and document
  frequency, average length and BM25 score are functions of it.
\<close>

definition corpus_df :: "(string \<rightharpoonup> flight_document) \<Rightarrow> string \<Rightarrow> nat" where
  "corpus_df c t = card {k. \<exists>d. c k = Some d \<and> t \<in> set (doc_tokens d)}"

definition corpus_avg :: "(string \<rightharpoonup> flight_document) \<Rightarrow> f64" where
  "corpus_avg c =
     (if dom c = {} then fone
      else fmax (fdiv binary64 (f64_of_nat (\<Sum>k \<in> dom c. length (doc_tokens (the (c k))))) (f64_of_nat (card (dom c)))) fone)"

definition term_weight ::
  "(f64 \<Rightarrow> f64) \<Rightarrow> f64 \<times> f64 \<Rightarrow> (string \<rightharpoonup> flight_document) \<Rightarrow> flight_document \<Rightarrow> f64 \<Rightarrow> string \<Rightarrow> f64" where
  "term_weight ln1 params c d s t =
     (if t \<in> set (doc_tokens d) then
        fadd binary64 s (fmul binary64 (idf ln1 (f64_of_nat (card (dom c))) (f64_of_nat (corpus_df c t)))
          (bm25_norm params (corpus_avg c) (f64_of_nat (count_list (doc_tokens d) t)) (f64_of_nat (length (doc_tokens d)))))
      else s)"

definition bm25 ::
  "(f64 \<Rightarrow> f64) \<Rightarrow> f64 \<times> f64 \<Rightarrow> (string \<rightharpoonup> flight_document) \<Rightarrow> string list \<Rightarrow> flight_document \<Rightarrow> f64" where
  "bm25 ln1 params c terms d = foldl (term_weight ln1 params c d) fzero (first_occurrences {} terms)"

definition matched_keys :: "(string \<rightharpoonup> flight_document) \<Rightarrow> string list \<Rightarrow> string set" where
  "matched_keys c terms = {k. \<exists>d. c k = Some d \<and> set terms \<inter> set (doc_tokens d) \<noteq> {}}"

definition search_spec ::
  "(f64 \<Rightarrow> f64) \<Rightarrow> f64 \<times> f64 \<Rightarrow> (string \<rightharpoonup> flight_document) \<Rightarrow> string list \<Rightarrow> scored_hit list" where
  "search_spec ln1 params c terms =
     sort_by cmp_scored (map (\<lambda>k. \<lparr>sh_doc = the (c k), sh_score = bm25 ln1 params c terms (the (c k))\<rparr>)
       (sorted_list_of_set (matched_keys c terms)))"

lemma set_first_occurrences: "set (first_occurrences seen ts) = set ts - seen"
  by (induction seen ts rule: first_occurrences.induct) auto

definition slots :: "inverted_index \<Rightarrow> nat set" where
  "slots idx = {i. \<exists>d. live (docs idx) i d}"

lemma slots_bij:
  assumes "index_inv idx"
  shows "bij_betw (\<lambda>i. icao24 (the (docs idx ! i))) (slots idx) (dom (index_content idx))"
  unfolding bij_betw_def
proof
  have key: "hm_get (by_key idx) (icao24 d) = Some i" if "live (docs idx) i d" for i d
    using assms that unfolding index_inv_def key_inv_def by blast
  show "inj_on (\<lambda>i. icao24 (the (docs idx ! i))) (slots idx)"
  proof (rule inj_onI)
    fix i j assume "i \<in> slots idx" "j \<in> slots idx" and same: "icao24 (the (docs idx ! i)) = icao24 (the (docs idx ! j))"
    then obtain d e where "live (docs idx) i d" "live (docs idx) j e" by (auto simp: slots_def)
    with same show "i = j" using key [of i d] key [of j e] by (simp add: live_def)
  qed
  show "(\<lambda>i. icao24 (the (docs idx ! i))) ` slots idx = dom (index_content idx)"
  proof (intro equalityI subsetI)
    fix k assume "k \<in> (\<lambda>i. icao24 (the (docs idx ! i))) ` slots idx"
    then obtain i d where "live (docs idx) i d" "k = icao24 d" by (auto simp: slots_def live_def)
    then show "k \<in> dom (index_content idx)" using content_live [OF assms, of k d] by blast
  next
    fix k assume "k \<in> dom (index_content idx)"
    then obtain i d where "live (docs idx) i d" "icao24 d = k" using content_live [OF assms, of k] by blast
    then show "k \<in> (\<lambda>i. icao24 (the (docs idx ! i))) ` slots idx"
      by (intro image_eqI [of _ _ i]) (auto simp: slots_def live_def)
  qed
qed

lemma slots_content:
  assumes "index_inv idx" and "i \<in> slots idx"
  shows "index_content idx (icao24 (the (docs idx ! i))) = docs idx ! i" "docs idx ! i \<noteq> None"
proof -
  obtain d where d: "live (docs idx) i d" using assms(2) by (auto simp: slots_def)
  then have "docs idx ! i = Some d" by (simp add: live_def)
  with d show "index_content idx (icao24 (the (docs idx ! i))) = docs idx ! i" "docs idx ! i \<noteq> None"
    using content_live [OF assms(1), of "icao24 d" d] by auto
qed

lemma slots_card:
  assumes "index_inv idx"
  shows "card {i \<in> slots idx. P (the (docs idx ! i))} = card {k. \<exists>d. index_content idx k = Some d \<and> P d}"
proof (rule bij_betw_same_card [OF bij_betw_subset [OF slots_bij [OF assms]]])
  have "(\<lambda>i. icao24 (the (docs idx ! i))) ` {i \<in> slots idx. P (the (docs idx ! i))}
      = {k \<in> (\<lambda>i. icao24 (the (docs idx ! i))) ` slots idx. P (the (index_content idx k))}"
    using slots_content [OF assms] by fastforce
  also have "\<dots> = {k \<in> dom (index_content idx). P (the (index_content idx k))}"
    using slots_bij [OF assms] by (simp add: bij_betw_def)
  also have "\<dots> = {k. \<exists>d. index_content idx k = Some d \<and> P d}" by fastforce
  finally show "(\<lambda>i. icao24 (the (docs idx ! i))) ` {i \<in> slots idx. P (the (docs idx ! i))}
      = {k. \<exists>d. index_content idx k = Some d \<and> P d}" .
qed auto

lemma slots_sum:
  assumes "index_inv idx"
  shows "total_len idx = (\<Sum>k \<in> dom (index_content idx). length (doc_tokens (the (index_content idx k))))"
proof -
  have "total_len idx = (\<Sum>i < length (docs idx). slot_len (docs idx ! i))"
    using assms by (simp add: index_inv_def sum_list_sum_nth atLeast0LessThan)
  also have "\<dots> = (\<Sum>i \<in> slots idx. slot_len (docs idx ! i))"
    by (rule sum.mono_neutral_right) (auto simp: slots_def live_def split: option.split)
  also have "\<dots> = (\<Sum>i \<in> slots idx. length (doc_tokens (the (index_content idx (icao24 (the (docs idx ! i)))))))"
    by (rule sum.cong) (auto simp: slots_content(1) [OF assms] dest: slots_content(2) [OF assms])
  also have "\<dots> = (\<Sum>k \<in> dom (index_content idx). length (doc_tokens (the (index_content idx k))))"
    by (rule sum.reindex_bij_betw [OF slots_bij [OF assms]])
  finally show ?thesis .
qed

lemma slots_keys:
  assumes "index_inv idx"
  shows "length (by_key idx) = card (dom (index_content idx))"
proof -
  have "dom (index_content idx) = fst ` set (by_key idx)"
  proof -
    have "hm_get (by_key idx) k = Some i \<Longrightarrow> docs idx ! i \<noteq> None" for k i
      using assms unfolding index_inv_def key_inv_def live_def by (metis option.distinct(1))
    then have "k \<in> dom (index_content idx) \<longleftrightarrow> k \<in> dom (hm_get (by_key idx))" for k
      by (auto simp: index_content_def bind_eq_Some_conv dom_def)
    then show ?thesis by (auto simp: dom_map_of_conv_image_fst)
  qed
  moreover have "hm_wf (by_key idx)" using assms by (simp add: index_inv_def key_inv_def)
  ultimately show ?thesis by (metis distinct_card length_map list.set_map)
qed

lemma avg_len_corpus:
  assumes "index_inv idx"
  shows "avg_len idx = corpus_avg (index_content idx)"
proof -
  have fin: "finite (dom (index_content idx))"
    using bij_betw_finite [OF slots_bij [OF assms]] finite_subset [of "slots idx" "{..<length (docs idx)}"]
    by (auto simp: slots_def live_def)
  have "by_key idx = [] \<longleftrightarrow> dom (index_content idx) = {}"
    using slots_keys [OF assms] fin by (metis card_eq_0_iff length_0_conv)
  then show ?thesis
    unfolding avg_len_def corpus_avg_def slots_sum [OF assms] slots_keys [OF assms] by simp
qed

lemma posting_len:
  assumes "index_inv idx"
  shows "length (the_list (hm_get (postings idx) t)) = corpus_df (index_content idx) t"
proof -
  let ?ps = "the_list (hm_get (postings idx) t)"
  have "distinct (map post_doc ?ps)" and sets: "set ?ps = {\<lparr>post_doc = i, post_freq = count_list (doc_tokens d) t\<rparr> | i d.
      live (docs idx) i d \<and> t \<in> set (doc_tokens d)}"
    using assms by (simp_all add: index_inv_def post_inv_def)
  then have "length ?ps = card (post_doc ` set ?ps)" by (metis distinct_card length_map list.set_map)
  also have "post_doc ` set ?ps = {i \<in> slots idx. t \<in> set (doc_tokens (the (docs idx ! i)))}"
    unfolding sets by (force simp: slots_def live_def image_iff)
  also have "card \<dots> = corpus_df (index_content idx) t"
    unfolding corpus_df_def by (rule slots_card [OF assms, where P = "\<lambda>d. t \<in> set (doc_tokens d)"])
  finally show ?thesis .
qed

lemma add_scores_other:
  "i \<notin> post_doc ` set ps \<Longrightarrow> hm_get (foldl (add_score P I A L) sc ps) i = hm_get sc i"
  by (induction ps arbitrary: sc) (auto simp: add_score_def Let_def hm_get_insert)

abbreviation or_zero :: "f64 option \<Rightarrow> f64" where
  "or_zero x \<equiv> (case x of Some s \<Rightarrow> s | None \<Rightarrow> fzero)"

lemma add_scores_hit:
  assumes "distinct (map post_doc ps)" and "p \<in> set ps"
  shows "hm_get (foldl (add_score P I A L) sc ps) (post_doc p) =
    Some (fadd binary64 (or_zero (hm_get sc (post_doc p)))
      (fmul binary64 I (bm25_norm P A (f64_of_nat (post_freq p)) (f64_of_nat (L ! post_doc p)))))"
  using assms
proof (induction ps arbitrary: sc)
  case (Cons q ps)
  show ?case
  proof (cases "q = p")
    case True
    with Cons.prems show ?thesis
      by (simp add: add_scores_other) (simp add: add_score_def Let_def hm_get_insert)
  next
    case False
    then have "p \<in> set ps" and "post_doc p \<noteq> post_doc q" using Cons.prems by (auto dest: in_set_conv_decomp [THEN iffD1])
    then show ?thesis using Cons by (simp add: add_score_def Let_def hm_get_insert)
  qed
qed simp

lemma add_scores_wf: "hm_wf sc \<Longrightarrow> hm_wf (foldl (add_score P I A L) sc ps)"
  by (induction ps arbitrary: sc) (simp_all add: add_score_def Let_def hm_wf_insert)

lemma score_term_wf: "hm_wf sc \<Longrightarrow> hm_wf (foldl (score_term ln1 P idx n A) sc ts)"
  by (induction ts arbitrary: sc) (auto simp: score_term_def add_scores_wf split: option.split)

lemma score_term_eq:
  "score_term ln1 P idx n A sc t =
    foldl (add_score P (idf ln1 n (f64_of_nat (length (the_list (hm_get (postings idx) t))))) A (doc_len idx)) sc
      (the_list (hm_get (postings idx) t))"
  by (simp add: score_term_def split: option.split)

lemma score_term_lookup:
  assumes inv: "index_inv idx" and n: "n = f64_of_nat (card (dom (index_content idx)))" and A: "A = corpus_avg (index_content idx)"
  shows "live (docs idx) i d \<Longrightarrow> hm_get (score_term ln1 P idx n A sc t) i =
      (if t \<in> set (doc_tokens d) then Some (term_weight ln1 P (index_content idx) d (or_zero (hm_get sc i)) t) else hm_get sc i)"
    and "i \<notin> slots idx \<Longrightarrow> hm_get (score_term ln1 P idx n A sc t) i = hm_get sc i"
proof -
  let ?ps = "the_list (hm_get (postings idx) t)"
  have dist: "distinct (map post_doc ?ps)" and sets: "set ?ps = {\<lparr>post_doc = i, post_freq = count_list (doc_tokens d) t\<rparr> | i d.
      live (docs idx) i d \<and> t \<in> set (doc_tokens d)}"
    using inv by (simp_all add: index_inv_def post_inv_def)
  have keys: "post_doc ` set ?ps = {i. \<exists>d. live (docs idx) i d \<and> t \<in> set (doc_tokens d)}"
    unfolding sets by (force simp: image_iff)
  show "hm_get (score_term ln1 P idx n A sc t) i = hm_get sc i" if "i \<notin> slots idx"
    unfolding score_term_eq using that keys by (intro add_scores_other) (auto simp: slots_def)
  show "hm_get (score_term ln1 P idx n A sc t) i =
      (if t \<in> set (doc_tokens d) then Some (term_weight ln1 P (index_content idx) d (or_zero (hm_get sc i)) t) else hm_get sc i)"
    if d: "live (docs idx) i d"
  proof (cases "t \<in> set (doc_tokens d)")
    case True
    have "\<lparr>post_doc = i, post_freq = count_list (doc_tokens d) t\<rparr> \<in> set ?ps" using sets d True by blast
    note add_scores_hit [OF dist this, simplified]
    moreover have "doc_len idx ! i = length (doc_tokens d)" using inv d by (simp add: index_inv_def live_def)
    ultimately show ?thesis
      unfolding score_term_eq using True by (simp add: posting_len [OF inv] term_weight_def n A)
  next
    case False
    then have "i \<notin> post_doc ` set ?ps" unfolding keys using d by (auto simp: live_def)
    then show ?thesis unfolding score_term_eq using False by (simp add: add_scores_other)
  qed
qed

lemma score_terms_lookup:
  assumes inv: "index_inv idx" and n: "n = f64_of_nat (card (dom (index_content idx)))" and A: "A = corpus_avg (index_content idx)"
  shows "live (docs idx) i d \<Longrightarrow> hm_get (foldl (score_term ln1 P idx n A) sc ts) i =
      (if set ts \<inter> set (doc_tokens d) \<noteq> {} then Some (foldl (term_weight ln1 P (index_content idx) d) (or_zero (hm_get sc i)) ts)
       else hm_get sc i)"
proof (induction ts arbitrary: sc)
  case (Cons t ts)
  have "foldl (term_weight ln1 P (index_content idx) d) s ts = s" if "set ts \<inter> set (doc_tokens d) = {}" for s
    using that by (induction ts) (auto simp: term_weight_def)
  with Cons show ?case
    by (auto simp: score_term_lookup(1) [OF inv n A Cons.prems]) (simp_all add: term_weight_def)
qed simp

lemma score_terms_dead:
  assumes "index_inv idx" and "n = f64_of_nat (card (dom (index_content idx)))" and "A = corpus_avg (index_content idx)"
    and "i \<notin> slots idx"
  shows "hm_get (foldl (score_term ln1 P idx n A) sc ts) i = hm_get sc i"
  by (induction ts arbitrary: sc) (simp_all add: score_term_lookup(2) [OF assms])

lemma query_scores_spec:
  assumes inv: "index_inv idx"
  shows "hm_wf (query_scores ln1 P idx terms)"
    and "(i, s) \<in> set (query_scores ln1 P idx terms) \<longleftrightarrow>
      (\<exists>d. live (docs idx) i d \<and> set terms \<inter> set (doc_tokens d) \<noteq> {} \<and> s = bm25 ln1 P (index_content idx) terms d)"
proof -
  let ?q = "query_scores ln1 P idx terms"
  show wf: "hm_wf ?q" by (simp add: query_scores_def score_term_wf)
  have n: "f64_of_nat (length (by_key idx)) = f64_of_nat (card (dom (index_content idx)))"
    by (simp add: slots_keys [OF inv])
  have "(i, s) \<in> set ?q \<longleftrightarrow> hm_get ?q i = Some s" using wf by (simp add: map_of_eq_Some_iff)
  also have "\<dots> \<longleftrightarrow> (\<exists>d. live (docs idx) i d \<and> set terms \<inter> set (doc_tokens d) \<noteq> {} \<and> s = bm25 ln1 P (index_content idx) terms d)"
  proof (cases "i \<in> slots idx")
    case True
    then obtain d where d: "live (docs idx) i d" by (auto simp: slots_def)
    then have "live (docs idx) i e \<longleftrightarrow> e = d" for e by (auto simp: live_def)
    then show ?thesis
      using score_terms_lookup [OF inv n avg_len_corpus [OF inv] d, of ln1 P "[]" "first_occurrences {} terms"]
      by (auto simp: query_scores_def bm25_def set_first_occurrences)
  next
    case False
    then show ?thesis
      using score_terms_dead [OF inv n avg_len_corpus [OF inv], of i ln1 P "[]"]
      by (auto simp: query_scores_def slots_def)
  qed
  finally show "(i, s) \<in> set ?q \<longleftrightarrow> (\<exists>d. live (docs idx) i d \<and> set terms \<inter> set (doc_tokens d) \<noteq> {} \<and>
      s = bm25 ln1 P (index_content idx) terms d)" .
qed

abbreviation hit_of :: "inverted_index \<Rightarrow> nat \<times> f64 \<Rightarrow> scored_hit" where
  "hit_of idx \<equiv> (\<lambda>(i, s). \<lparr>sh_doc = the (docs idx ! i), sh_score = s\<rparr>)"

abbreviation spec_hit :: "(f64 \<Rightarrow> f64) \<Rightarrow> f64 \<times> f64 \<Rightarrow> (string \<rightharpoonup> flight_document) \<Rightarrow> string list \<Rightarrow> string \<Rightarrow> scored_hit" where
  "spec_hit ln1 P c terms \<equiv> (\<lambda>k. \<lparr>sh_doc = the (c k), sh_score = bm25 ln1 P c terms (the (c k))\<rparr>)"

lemma finite_content: "index_inv idx \<Longrightarrow> finite (dom (index_content idx))"
  using bij_betw_finite [OF slots_bij] finite_subset [of "slots idx" "{..<length (docs idx)}"]
  by (auto simp: slots_def live_def)

text \<open>The scored slots are, as a multiset of hits, the matching documents of the corpus.\<close>

lemma query_hits_mset:
  assumes inv: "index_inv idx"
  shows "mset (map (hit_of idx) (query_scores ln1 P idx terms))
    = mset (map (spec_hit ln1 P (index_content idx) terms) (sorted_list_of_set (matched_keys (index_content idx) terms)))"
proof -
  let ?q = "query_scores ln1 P idx terms" and ?c = "index_content idx"
  note member = query_scores_spec(2) [OF inv, of _ _ ln1 P terms]
  have fin: "finite (matched_keys ?c terms)"
    by (rule finite_subset [OF _ finite_content [OF inv]]) (auto simp: matched_keys_def)
  have inj: "inj_on (\<lambda>i. icao24 (the (docs idx ! i))) (slots idx)"
    using slots_bij [OF inv] by (simp add: bij_betw_def)
  have sub: "fst ` set ?q \<subseteq> slots idx" using member by (force simp: slots_def)
  have "distinct (map (\<lambda>p. icao24 (the (docs idx ! fst p))) ?q)"
    using query_scores_spec(1) [OF inv] inj_on_subset [OF inj sub]
    by (simp add: distinct_map inj_on_def)
  then have "distinct (map (\<lambda>h. icao24 (sh_doc h)) (map (hit_of idx) ?q))" by (simp add: case_prod_beta comp_def)
  then have d1: "distinct (map (hit_of idx) ?q)" by (metis distinct_map)
  have "inj_on (spec_hit ln1 P ?c terms) (matched_keys ?c terms)"
    by (rule inj_onI) (auto simp: matched_keys_def, metis content_icao24 [OF inv])
  then have d2: "distinct (map (spec_hit ln1 P ?c terms) (sorted_list_of_set (matched_keys ?c terms)))"
    using fin by (simp add: distinct_map)
  have "set (map (hit_of idx) ?q) = spec_hit ln1 P ?c terms ` matched_keys ?c terms"
  proof (intro equalityI subsetI)
    fix h assume "h \<in> set (map (hit_of idx) ?q)"
    then obtain i s where "(i, s) \<in> set ?q" and hs: "h = hit_of idx (i, s)" by auto
    then obtain d where d: "live (docs idx) i d" "set terms \<inter> set (doc_tokens d) \<noteq> {}"
      and "s = bm25 ln1 P ?c terms d" using member by blast
    then have "h = \<lparr>sh_doc = d, sh_score = bm25 ln1 P ?c terms d\<rparr>" using hs by (simp add: live_def)
    moreover from d have "?c (icao24 d) = Some d" using content_live [OF inv] by blast
    ultimately show "h \<in> spec_hit ln1 P ?c terms ` matched_keys ?c terms"
      using d(2) by (intro image_eqI [of _ _ "icao24 d"]) (auto simp: matched_keys_def)
  next
    fix h assume "h \<in> spec_hit ln1 P ?c terms ` matched_keys ?c terms"
    then obtain k where "k \<in> matched_keys ?c terms" and hk: "h = spec_hit ln1 P ?c terms k" by blast
    then obtain d where kd: "?c k = Some d" "set terms \<inter> set (doc_tokens d) \<noteq> {}" unfolding matched_keys_def by blast
    then have h: "h = \<lparr>sh_doc = d, sh_score = bm25 ln1 P ?c terms d\<rparr>" using hk by simp
    obtain i where i: "live (docs idx) i d" using content_live [OF inv, of k d] kd(1) by blast
    then have "(i, bm25 ln1 P ?c terms d) \<in> set ?q" using member kd(2) by blast
    then have "hit_of idx (i, bm25 ln1 P ?c terms d) \<in> set (map (hit_of idx) ?q)" by (simp only: set_map) (rule imageI)
    then show "h \<in> set (map (hit_of idx) ?q)" using i h by (simp add: live_def)
  qed
  then show ?thesis using set_eq_iff_mset_eq_distinct [OF d1 d2] fin by simp
qed

interpretation scoring: comparator cmp_scored "{h. sh_score h \<noteq> NaN}"
proof unfold_locales
  fix x y z assume "x \<in> {h. sh_score h \<noteq> NaN}" "y \<in> {h. sh_score h \<noteq> NaN}" "z \<in> {h. sh_score h \<noteq> NaN}"
    "cmp_scored x y \<noteq> Greater" "cmp_scored y z \<noteq> Greater"
  then show "cmp_scored x z \<noteq> Greater"
    by (simp add: cmp_scored_def ord_then_not_Greater f64_cmp_iff not_less) (auto simp: f64_lt_def f64_eq_def)
next
  fix x y show "cmp_scored y x = ord_reverse (cmp_scored x y)"
    by (simp add: cmp_scored_def f64_cmp_flip [of "sh_score x"] cmp_lin_flip)
qed

lemma tokenless_search: "terms = [] \<Longrightarrow> matched_keys c terms = {} \<and> search_spec ln1 P c terms = []"
  by (simp add: matched_keys_def search_spec_def)

lemma index_search_total:
  assumes inv: "index_inv idx" and ord: "iteration_order ord"
  shows "\<exists>hits. index_search ln1 P ord idx query limit = Some (card (matched_keys (index_content idx) (tokenize query)), hits)
    \<and> ((\<forall>d \<in> ran (index_content idx). bm25 ln1 P (index_content idx) (tokenize query) d \<noteq> NaN) \<longrightarrow>
        hits = truncate_limit limit (search_spec ln1 P (index_content idx) (tokenize query)))"
proof (cases "tokenize query = []")
  case True
  with tokenless_search [OF True] show ?thesis by (simp add: index_search_def truncate_limit_eq)
next
  case False
  let ?t = "tokenize query" and ?c = "index_content idx"
  let ?q = "query_scores ln1 P idx ?t"
  let ?spec = "map (spec_hit ln1 P ?c ?t) (sorted_list_of_set (matched_keys ?c ?t))"
  have len: "length ?q = card (matched_keys ?c ?t)"
    using arg_cong [OF query_hits_mset [OF inv, of ln1 P ?t], of size] by simp
  have "list_all (\<lambda>(i, _). i < length (doc_len idx) \<and> i < length (docs idx) \<and> docs idx ! i \<noteq> None) ?q"
    using query_scores_spec(2) [OF inv, of _ _ ln1 P ?t] inv by (auto simp: list_all_iff live_def index_inv_def)
  then have search: "index_search ln1 P ord idx query limit = Some (card (matched_keys ?c ?t),
      truncate_limit limit (sort_by cmp_scored (map (hit_of idx) (ord ?q))))"
    using False by (simp add: index_search_def len Let_def)
  have same: "mset (map (hit_of idx) (ord ?q)) = mset ?spec"
    unfolding query_hits_mset [OF inv, symmetric] by (simp only: mset_map iteration_order_mset [OF ord])
  have "sort_by cmp_scored ?spec = sort_by cmp_scored (map (hit_of idx) (ord ?q))"
    if clean: "\<forall>d \<in> ran ?c. bm25 ln1 P ?c ?t d \<noteq> NaN"
  proof (rule scoring.sort_unique [OF same [symmetric]])
    have fin: "finite (matched_keys ?c ?t)"
      by (rule finite_subset [OF _ finite_content [OF inv]]) (auto simp: matched_keys_def)
    then have sets: "set ?spec = spec_hit ln1 P ?c ?t ` matched_keys ?c ?t" by simp
    show sub: "set ?spec \<subseteq> {h. sh_score h \<noteq> NaN}"
      unfolding sets using clean by (auto simp: matched_keys_def ran_def)
    fix x y assume xy: "x \<in> set ?spec" "y \<in> set ?spec" and tie: "cmp_scored x y = Equal"
    then have "icao24 (sh_doc x) = icao24 (sh_doc y)" by (simp add: cmp_scored_def)
    moreover obtain k l d e where "?c k = Some d" "?c l = Some e" "x = spec_hit ln1 P ?c ?t k" "y = spec_hit ln1 P ?c ?t l"
      using xy unfolding sets by (auto simp: matched_keys_def)
    ultimately show "x = y" using content_icao24 [OF inv] by fastforce
  qed
  with search show ?thesis by (simp add: search_spec_def)
qed

interpretation keyword: doc_view index_insert index_remove index_inv index_content icao24 "\<lambda>_. True"
proof unfold_locales
  fix s k d assume "index_inv s" "index_content s k = Some d"
  then show "icao24 d = k" by (simp add: content_live)
qed (use index_insert_spec index_remove_spec finite_content in simp_all)

lemma index_new_inv: "index_inv index_new" "index_content index_new = Map.empty"
proof -
  show "index_inv index_new"
    by (simp add: index_inv_def index_new_def post_inv_def key_inv_def free_inv_def live_def)
  show "index_content index_new = Map.empty" by (rule ext) (simp add: index_content_def index_new_def)
qed

lemma set_present: "set (List.map_filter (\<lambda>d. d) xs) = {d. Some d \<in> set xs}"
  by (induction xs) (auto split: option.split)

text \<open>The snapshot order: the live documents, one per key.\<close>

lemma documents_content:
  assumes "index_inv idx"
  shows "set (documents idx) = ran (index_content idx)" and "distinct (map icao24 (documents idx))"
    and "length (documents idx) = index_len idx"
proof -
  have mem: "d \<in> set (documents idx) \<longleftrightarrow> (\<exists>i. live (docs idx) i d)" for d
    by (auto simp: documents_def set_present live_def in_set_conv_nth)
  then show sets: "set (documents idx) = ran (index_content idx)"
    using content_live [OF assms] by (auto simp: ran_def)
  have "distinct (map icao24 (List.map_filter (\<lambda>d. d) xs))"
    if "\<And>i j d e. live xs i d \<Longrightarrow> live xs j e \<Longrightarrow> icao24 d = icao24 e \<Longrightarrow> i = j" for xs
    using that
  proof (induction xs)
    case (Cons x xs)
    have "distinct (map icao24 (List.map_filter (\<lambda>d. d) xs))"
    proof (rule Cons.IH)
      fix i j d e assume "live xs i d" "live xs j e" "icao24 d = icao24 e"
      then show "i = j" using Cons.prems [of "Suc i" d "Suc j" e] by (simp add: live_def)
    qed
    moreover have "icao24 d \<noteq> icao24 e" if "x = Some d" "e \<in> set (List.map_filter (\<lambda>d. d) xs)" for d e
    proof -
      from that(2) obtain i where "live xs i e" by (auto simp: set_present live_def in_set_conv_nth)
      then show ?thesis using Cons.prems [of 0 d "Suc i" e] that(1) by (auto simp: live_def)
    qed
    ultimately show ?case by (cases x) auto
  qed simp
  moreover have "hm_get (by_key idx) (icao24 d) = Some i" if "live (docs idx) i d" for i d
    using assms that unfolding index_inv_def key_inv_def by blast
  then have "i = j" if "live (docs idx) i d" "live (docs idx) j e" "icao24 d = icao24 e" for i j d e
    using that by (metis option.inject)
  ultimately show dist: "distinct (map icao24 (documents idx))" by (simp add: documents_def)
  have "length (documents idx) = card (icao24 ` set (documents idx))"
    using dist by (metis distinct_card length_map list.set_map)
  also have "icao24 ` set (documents idx) = dom (index_content idx)"
    unfolding sets using content_live [OF assms] by (force simp: ran_def image_iff)
  finally show "length (documents idx) = index_len idx" by (simp add: index_len_def slots_keys [OF assms])
qed

lemma index_run_spec:
  "\<exists>idx. view_run index_insert index_remove index_new ops = Some idx \<and> index_inv idx
    \<and> index_content idx = map_run icao24 ops"
proof -
  have "list_all keyword.op_ok ops" by (simp add: keyword.op_ok_def list_all_iff split: view_op.split)
  from keyword.run_spec [OF index_new_inv(1) this] show ?thesis by (simp add: index_new_inv(2))
qed

text \<open>
  C4: A shard's keyword index is a search engine over the map of its documents. After any
  sequence of inserts (replacing a document in place, reusing retired slots) and removals
  none of which panics, a search reports as its total the number of documents that contain
  a query term, and, unless a score is not a number, its hits are exactly those documents
  with the BM25 score computed from the corpus alone, ranked by score and key and cut to
  the limit: neither the history of the index nor the iteration order of the score map can
  be seen.
\<close>

theorem index_search_exact:
  assumes "iteration_order ord"
  shows "\<exists>idx hits. view_run index_insert index_remove index_new ops = Some idx
    \<and> index_search ln1 P ord idx query limit = Some (card (matched_keys (map_run icao24 ops) (tokenize query)), hits)
    \<and> ((\<forall>d \<in> ran (map_run icao24 ops). bm25 ln1 P (map_run icao24 ops) (tokenize query) d \<noteq> NaN) \<longrightarrow>
        hits = truncate_limit limit (search_spec ln1 P (map_run icao24 ops) (tokenize query)))"
proof -
  obtain idx where "view_run index_insert index_remove index_new ops = Some idx" and inv: "index_inv idx"
    and "index_content idx = map_run icao24 ops"
    using index_run_spec [of ops] by blast
  then show ?thesis using index_search_total [OF inv assms, of ln1 P query limit] by auto
qed

text \<open>
  The index's own bookkeeping after any sequence of operations: the documents handed to
  a snapshot are the live ones, each key once, as many as the reported length; and a removal
  reports whether the key was there.
\<close>

theorem index_documents_exact:
  "\<exists>idx. view_run index_insert index_remove index_new ops = Some idx
    \<and> set (documents idx) = ran (map_run icao24 ops) \<and> distinct (map icao24 (documents idx))
    \<and> index_len idx = card (dom (map_run icao24 ops))
    \<and> (\<exists>idx'. index_remove idx k = Some (idx', map_run icao24 ops k \<noteq> None))"
proof -
  obtain idx where run: "view_run index_insert index_remove index_new ops = Some idx" and inv: "index_inv idx"
    and content: "index_content idx = map_run icao24 ops"
    using index_run_spec [of ops] by blast
  from index_remove_spec [OF inv, of k] documents_content [OF inv] slots_keys [OF inv] run show ?thesis
    unfolding content by (intro exI [of _ idx]) (auto simp: index_len_def)
qed

text \<open>The specification on a corpus given as a list, for evaluation.\<close>

lemma corpus_list:
  assumes "hm_wf xs"
  shows "corpus_df (map_of xs) t = length (filter (\<lambda>(k, d). t \<in> set (doc_tokens d)) xs)"
    and "card (dom (map_of xs)) = length xs"
    and "(\<Sum>k \<in> dom (map_of xs). length (doc_tokens (the (map_of xs k)))) = sum_list (map (\<lambda>(k, d). length (doc_tokens d)) xs)"
proof -
  have "{k. \<exists>d. map_of xs k = Some d \<and> t \<in> set (doc_tokens d)} = fst ` set (filter (\<lambda>(k, d). t \<in> set (doc_tokens d)) xs)"
    unfolding map_of_eq_Some_iff [OF assms] by force
  moreover have "distinct (map fst (filter (\<lambda>(k, d). t \<in> set (doc_tokens d)) xs))"
    using assms by (rule distinct_map_filter)
  ultimately show "corpus_df (map_of xs) t = length (filter (\<lambda>(k, d). t \<in> set (doc_tokens d)) xs)"
    unfolding corpus_df_def using distinct_card [of "map fst (filter (\<lambda>(k, d). t \<in> set (doc_tokens d)) xs)"] by simp
  show "card (dom (map_of xs)) = length xs"
    using assms by (metis distinct_card dom_map_of_conv_image_fst length_map list.set_map)
  have "(\<Sum>k \<in> set (map fst xs). length (doc_tokens (the (map_of xs k)))) = sum_list (map (\<lambda>k. length (doc_tokens (the (map_of xs k)))) (map fst xs))"
    using sum_list_distinct_conv_sum_set [OF assms, of "\<lambda>k. length (doc_tokens (the (map_of xs k)))"] by simp
  also have "\<dots> = sum_list (map (\<lambda>(k, d). length (doc_tokens d)) xs)"
    by (intro arg_cong [of _ _ sum_list]) (auto simp: map_of_is_SomeI [OF assms])
  finally show "(\<Sum>k \<in> dom (map_of xs). length (doc_tokens (the (map_of xs k)))) = sum_list (map (\<lambda>(k, d). length (doc_tokens d)) xs)"
    by (simp add: dom_map_of_conv_image_fst)
qed

definition sample_doc :: "string \<Rightarrow> string \<Rightarrow> flight_document" where
  "sample_doc k txt = default_document\<lparr>icao24 := k, callsign := txt\<rparr>"

definition sample_ops :: "flight_document view_op list" where
  "sample_ops = [Put (sample_doc ''a'' ''UAL 737''), Put (sample_doc ''b'' ''DAL''), Drop ''a'',
     Put (sample_doc ''c'' ''UAL UAL UAL''), Put (sample_doc ''b'' ''UAL 9'')]"

definition sample_corpus :: "(string \<times> flight_document) list" where
  "sample_corpus = [(''b'', sample_doc ''b'' ''UAL 9''), (''c'', sample_doc ''c'' ''UAL UAL UAL'')]"

lemma sample_run: "map_run icao24 sample_ops = map_of sample_corpus"
  by (rule ext) (simp add: sample_ops_def sample_corpus_def sample_doc_def)

lemma sample_wf: "hm_wf sample_corpus"
  by (simp add: sample_corpus_def)

lemma sample_tokens:
  "doc_tokens (sample_doc ''b'' ''UAL 9'') = [''ual'', ''9'']"
  "doc_tokens (sample_doc ''c'' ''UAL UAL UAL'') = [''ual'', ''ual'', ''ual'']"
  "tokenize ''ual'' = [''ual'']"
  by code_simp+

lemmas small_floats = f64_of_int_exact fround_dyadic [of 2 2 0] fround_dyadic [of 6 6 0] fround_dyadic [of 4 4 0]
  fround_dyadic [of "5/2" 5 1] fround_dyadic [of 1 1 0] fround_dyadic [of "3/2" 3 1] fround_dyadic [of 3 3 0]

lemma sample_scores:
  "bm25 (\<lambda>_. fone) (fone, fzero) (map_of sample_corpus) [''ual''] (sample_doc ''b'' ''UAL 9'') = fone"
  "bm25 (\<lambda>_. fone) (fone, fzero) (map_of sample_corpus) [''ual''] (sample_doc ''c'' ''UAL UAL UAL'') = Fin False (3 / 2)"
proof -
  have "corpus_avg (map_of sample_corpus) = Fin False (5 / 2)"
    unfolding corpus_avg_def corpus_list [OF sample_wf] dom_map_of_conv_image_fst
    by (simp add: sample_corpus_def sample_tokens small_floats fmax_def f64_lt_def)
  note avg = this
  show "bm25 (\<lambda>_. fone) (fone, fzero) (map_of sample_corpus) [''ual''] (sample_doc ''b'' ''UAL 9'') = fone"
    "bm25 (\<lambda>_. fone) (fone, fzero) (map_of sample_corpus) [''ual''] (sample_doc ''c'' ''UAL UAL UAL'') = Fin False (3 / 2)"
    by (simp_all add: bm25_def term_weight_def sample_tokens avg bm25_norm_def idf_def small_floats fsub_def fround_def [of _ _ 0])
qed

theorem index_search_exact_witness:
  "\<exists>idx. view_run index_insert index_remove index_new sample_ops = Some idx
    \<and> index_search (\<lambda>_. fone) (fone, fzero) rev idx ''ual'' 1 =
        Some (2, [\<lparr>sh_doc = sample_doc ''c'' ''UAL UAL UAL'', sh_score = Fin False (3 / 2)\<rparr>])"
proof -
  let ?c = "map_of sample_corpus"
  have keys: "matched_keys ?c [''ual''] = {''b'', ''c''}"
    by (auto simp: matched_keys_def sample_corpus_def sample_tokens split: if_splits)
  have ran: "ran ?c = {sample_doc ''b'' ''UAL 9'', sample_doc ''c'' ''UAL UAL UAL''}"
    using ran_distinct [OF sample_wf] by (auto simp: sample_corpus_def)
  have spec: "truncate_limit 1 (search_spec (\<lambda>_. fone) (fone, fzero) ?c [''ual''])
      = [\<lparr>sh_doc = sample_doc ''c'' ''UAL UAL UAL'', sh_score = Fin False (3 / 2)\<rparr>]"
  proof -
    have "?c ''b'' = Some (sample_doc ''b'' ''UAL 9'')" "?c ''c'' = Some (sample_doc ''c'' ''UAL UAL UAL'')"
      by (simp_all add: sample_corpus_def)
    moreover have "sorted_list_of_set {''b'', ''c''} = [''b'', ''c'']" by code_simp
    ultimately show ?thesis
      by (simp add: search_spec_def keys sample_scores cmp_scored_def truncate_limit_eq f64_cmp_or_equal_def
          f64_partial_cmp_def f64_lt_def f64_eq_def)
  qed
  show ?thesis
    using index_search_exact [of rev sample_ops "\<lambda>_. fone" "(fone, fzero)" "''ual''" 1]
    by (auto simp: sample_run sample_tokens keys ran sample_scores spec [unfolded One_nat_def])
qed

end
