(* ===== verification/Shard_Key.thy ===== *)
theory Shard_Key
  imports Aether_Prelude
begin

text \<open>
  The shard key (\<open>crates/common/src/shard.rs\<close>): the 64-bit FNV-1a hash of the bytes of an
  identifier, and its reduction modulo the number of shards or of virtual shards. The
  counts are \<open>NonZeroU32\<close> in the source: the lemmas have \<open>0 < n\<close>.
\<close>

unbundle bit_operations_syntax

definition FNV_OFFSET_BASIS :: u64 where
  "FNV_OFFSET_BASIS = 0xcbf29ce484222325"

definition FNV_PRIME :: u64 where
  "FNV_PRIME = 0x00000100000001b3"

definition fnv_step :: "u64 \<Rightarrow> u8 \<Rightarrow> u64" where
  "fnv_step hash byte = (hash XOR ucast byte) * FNV_PRIME"

definition fnv1a_64 :: "u8 list \<Rightarrow> u64" where
  "fnv1a_64 key = foldl fnv_step FNV_OFFSET_BASIS key"

definition as_bytes :: "string \<Rightarrow> u8 list" where
  "as_bytes s = map of_char s"

definition shard_for :: "string \<Rightarrow> u32 \<Rightarrow> u32" where
  "shard_for key shard_count = ucast (fnv1a_64 (as_bytes key) mod ucast shard_count)"

definition vshard_for :: "string \<Rightarrow> u32 \<Rightarrow> u32" where
  "vshard_for key vshard_count = shard_for key vshard_count"

section \<open>Range\<close>

lemma unat_shard_for:
  assumes "0 < n"
  shows "unat (shard_for key n) = unat (fnv1a_64 (as_bytes key)) mod unat n"
proof -
  let ?h = "fnv1a_64 (as_bytes key)"
  have lt: "unat n < 2 ^ 32" using unsigned_less [of n] by simp
  then have n: "take_bit 64 (unat n) = unat n"
    by (simp add: take_bit_nat_eq_self)
  have pos: "0 < unat n" using assms by (simp add: unat_gt_0)
  have "unat ?h mod unat n < 2 ^ 32"
    using lt mod_less_divisor [OF pos] by (rule less_trans [rotated])
  then have "take_bit 32 (unat ?h mod unat n) = unat ?h mod unat n"
    by (rule take_bit_nat_eq_self)
  then show ?thesis
    by (simp add: shard_for_def unsigned_ucast_eq unat_mod n)
qed

lemma shard_for_less: "0 < n \<Longrightarrow> shard_for key n < n"
  by (simp add: word_less_nat_alt unat_shard_for unat_gt_0)

section \<open>Collisions\<close>

text \<open>The prime is odd, so a step is a bijection of the hash state.\<close>

lemma FNV_PRIME_inverse: "FNV_PRIME * 0xce965057aff6957b = 1"
  by (simp add: FNV_PRIME_def)

lemma fnv_step_inj: "fnv_step h b = fnv_step h' b \<longleftrightarrow> h = h'"
proof
  assume "fnv_step h b = fnv_step h' b"
  moreover have "fnv_step x b * 0xce965057aff6957b = x XOR ucast b" for x
    unfolding fnv_step_def mult.assoc FNV_PRIME_inverse by simp
  ultimately have "h XOR ucast b = h' XOR ucast b" by metis
  then have "(h XOR ucast b) XOR ucast b = (h' XOR ucast b) XOR ucast b" by simp
  then show "h = h'" by (simp add: xor.assoc)
qed simp

lemma foldl_fnv_step_inj: "foldl fnv_step h s = foldl fnv_step h' s \<longleftrightarrow> h = h'"
  by (induction s arbitrary: h h') (simp_all add: fnv_step_inj)

end
