(* ===== verification/Quant.thy ===== *)
theory Quant
  imports Doc_View Text_Tokens Shard_Key
begin

text \<open>
  Embeddings and their binary quantization (\<open>crates/common/src/embed.rs\<close>,
  \<open>crates/shard-node/src/quant.rs\<close>). A vector is a list of \<open>f32\<close> values, rounded to
  \<open>binary32\<close>; a quantized vector holds one sign bit per dimension in 64-bit words. Sums run
  from positive zero.
\<close>

unbundle bit_operations_syntax

type_synonym vec32 = "f64 list"

section \<open>The hashing embedder\<close>

definition EMBED_DIM :: nat where
  "EMBED_DIM = 128"

fun isqrt :: "nat \<Rightarrow> nat" where
  "isqrt n = (if n = 0 then 0 else let r = 2 * isqrt (n div 4) in if (r + 1)\<^sup>2 \<le> n then r + 1 else r)"

declare isqrt.simps [simp del]

text \<open>The correctly rounded square root of a positive magnitude; a tie cannot occur.\<close>

definition sqrt_mag :: "float_format \<Rightarrow> rat \<Rightarrow> rat" where
  "sqrt_mag fmt x =
     (let e = max (ilog2 x div 2 - (precision fmt - 1)) (least_exp fmt);
          y = x / (pow2 e * pow2 e);
          k = isqrt (nat \<lfloor>y\<rfloor>)
      in of_nat (if (of_nat k + 1 / 2) ^ 2 < y then k + 1 else k) * pow2 e)"

fun fsqrt :: "float_format \<Rightarrow> f64 \<Rightarrow> f64" where
  "fsqrt fmt NaN = NaN"
| "fsqrt fmt (Inf s) = (if s then NaN else Inf False)"
| "fsqrt fmt (Fin s m) = (if m = 0 then Fin s 0 else if s then NaN else Fin False (sqrt_mag fmt m))"

definition fsum :: "float_format \<Rightarrow> f64 list \<Rightarrow> f64" where
  "fsum fmt xs = foldl (fadd fmt) fzero xs"

definition l2_normalize :: "vec32 \<Rightarrow> vec32" where
  "l2_normalize v =
     (let norm = fsqrt binary32 (fsum binary32 (map (\<lambda>x. fmul binary32 x x) v))
      in if f64_lt fzero norm then map (\<lambda>x. fdiv binary32 x norm) v else v)"

definition embed_token :: "vec32 \<Rightarrow> string \<Rightarrow> vec32" where
  "embed_token v token =
     (let h = fnv1a_64 (as_bytes token);
          bucket = unat (h mod word_of_nat EMBED_DIM);
          sign = (if drop_bit 63 h AND 1 = 1 then fone else Fin True 1)
      in v[bucket := fadd binary32 (v ! bucket) sign])"

definition hash_embed :: "string \<Rightarrow> vec32" where
  "hash_embed txt = l2_normalize (foldl embed_token (replicate EMBED_DIM fzero) (tokenize txt))"

definition dot :: "vec32 \<Rightarrow> vec32 \<Rightarrow> f64" where
  "dot a b = fsum binary32 (map2 (fmul binary32) a b)"

section \<open>Quantization\<close>

definition OVERSAMPLE :: nat where
  "OVERSAMPLE = 4"

record quantized_vector =
  qbits :: "u64 list"
  correction :: f64
  qdims :: nat

fun set_signs :: "nat \<Rightarrow> vec32 \<Rightarrow> u64 list \<Rightarrow> u64 list" where
  "set_signs i [] bits = bits"
| "set_signs i (x # xs) bits =
     set_signs (i + 1) xs
       (if f64_lt fzero x then bits[i div 64 := bits ! (i div 64) OR push_bit (i mod 64) 1] else bits)"

definition quantize :: "vec32 \<Rightarrow> quantized_vector" where
  "quantize v =
     \<lparr>qbits = set_signs 0 v (replicate ((length v + 63) div 64) 0),
      correction = fdiv binary32 (fsum binary32 (map fabs v)) (fround binary32 False (of_nat (max (length v) 1))),
      qdims = length v\<rparr>"

definition count_ones :: "u64 \<Rightarrow> nat" where
  "count_ones w = length (filter (bit w) [0..<64])"

definition hamming :: "quantized_vector \<Rightarrow> quantized_vector \<Rightarrow> nat" where
  "hamming a b = sum_list (map2 (\<lambda>x y. count_ones (x XOR y)) (qbits a) (qbits b))"

definition memory_bytes :: "quantized_vector \<Rightarrow> nat" where
  "memory_bytes q = length (qbits q) * 8 + 4"

section \<open>Lemmas\<close>

lemma embed_token_length [simp]: "length (embed_token v t) = length v"
  by (simp add: embed_token_def Let_def)

lemma embed_tokens_length [simp]: "length (foldl embed_token v ts) = length v"
  by (induction ts arbitrary: v) simp_all

lemma hash_embed_length [simp]: "length (hash_embed txt) = EMBED_DIM"
  by (simp add: hash_embed_def l2_normalize_def Let_def)

lemma set_signs_bit:
  assumes "i + length v \<le> 64 * length bits"
  shows "length (set_signs i v bits) = length bits \<and>
    (\<forall>j < 64 * length bits. bit (set_signs i v bits ! (j div 64)) (j mod 64) \<longleftrightarrow>
      bit (bits ! (j div 64)) (j mod 64) \<or> i \<le> j \<and> j < i + length v \<and> f64_lt fzero (v ! (j - i)))"
  using assms
proof (induction i v bits rule: set_signs.induct)
  case (2 i x xs bits)
  define bits' where "bits' = (if f64_lt fzero x then bits[i div 64 := bits ! (i div 64) OR push_bit (i mod 64) 1] else bits)"
  have len: "length bits' = length bits" by (simp add: bits'_def)
  have i: "i div 64 < length bits" using 2(2) by simp
  have now: "bit (bits' ! (j div 64)) (j mod 64) \<longleftrightarrow> bit (bits ! (j div 64)) (j mod 64) \<or> j = i \<and> f64_lt fzero x"
    if "j < 64 * length bits" for j
  proof (cases "j div 64 = i div 64")
    case True
    then have "j mod 64 = i mod 64 \<longleftrightarrow> j = i" by (metis mod_div_mult_eq)
    with True i show ?thesis
      by (auto simp: bits'_def bit_or_iff bit_exp_iff)
  next
    case False
    then have "j \<noteq> i" by auto
    with False show ?thesis by (simp add: bits'_def)
  qed
  have IH: "length (set_signs (i + 1) xs bits') = length bits' \<and>
      (\<forall>j < 64 * length bits'. bit (set_signs (i + 1) xs bits' ! (j div 64)) (j mod 64) \<longleftrightarrow>
        bit (bits' ! (j div 64)) (j mod 64) \<or> i + 1 \<le> j \<and> j < i + 1 + length xs \<and> f64_lt fzero (xs ! (j - (i + 1))))"
    unfolding bits'_def using 2 by (intro "2.IH") simp
  have step: "set_signs i (x # xs) bits = set_signs (i + 1) xs bits'" by (simp add: bits'_def)
  show ?case
    unfolding step
  proof (intro conjI allI impI)
    show "length (set_signs (i + 1) xs bits') = length bits" using IH len by simp
    fix j assume j: "j < 64 * length bits"
    have "bit (set_signs (i + 1) xs bits' ! (j div 64)) (j mod 64) \<longleftrightarrow>
        bit (bits ! (j div 64)) (j mod 64) \<or> j = i \<and> f64_lt fzero x
        \<or> i + 1 \<le> j \<and> j < i + 1 + length xs \<and> f64_lt fzero (xs ! (j - (i + 1)))"
      using conjunct2 [OF IH, rule_format, of j] j now [OF j] len by (simp only: disj_assoc)
    also have "\<dots> \<longleftrightarrow> bit (bits ! (j div 64)) (j mod 64)
        \<or> i \<le> j \<and> j < i + length (x # xs) \<and> f64_lt fzero ((x # xs) ! (j - i))"
    proof -
      consider "j < i" | "j = i" | m where "j = i + 1 + m"
        using less_imp_Suc_add [of i j] by (metis Suc_eq_plus1 add.commute add.left_commute linorder_neqE_nat)
      then show ?thesis by cases simp_all
    qed
    finally show "bit (set_signs (i + 1) xs bits' ! (j div 64)) (j mod 64) \<longleftrightarrow> bit (bits ! (j div 64)) (j mod 64)
        \<or> i \<le> j \<and> j < i + length (x # xs) \<and> f64_lt fzero ((x # xs) ! (j - i))" .
  qed
qed (use leD in auto)

lemma quantize_bits:
  "length (qbits (quantize v)) = (length v + 63) div 64"
  "i < length v \<Longrightarrow> bit (qbits (quantize v) ! (i div 64)) (i mod 64) \<longleftrightarrow> f64_lt fzero (v ! i)"
  "length v \<le> i \<Longrightarrow> i < 64 * length (qbits (quantize v)) \<Longrightarrow> \<not> bit (qbits (quantize v) ! (i div 64)) (i mod 64)"
proof -
  let ?z = "replicate ((length v + 63) div 64) (0::u64)"
  have fits: "0 + length v \<le> 64 * length ?z" by simp
  note sb = set_signs_bit [OF fits]
  show len: "length (qbits (quantize v)) = (length v + 63) div 64" using sb by (simp add: quantize_def)
  have all: "bit (qbits (quantize v) ! (i div 64)) (i mod 64) \<longleftrightarrow> i < length v \<and> f64_lt fzero (v ! i)"
    if "i < 64 * length ?z" for i
    using sb that by (simp add: quantize_def)
  show "i < length v \<Longrightarrow> bit (qbits (quantize v) ! (i div 64)) (i mod 64) \<longleftrightarrow> f64_lt fzero (v ! i)"
    using all [of i] fits by simp
  show "length v \<le> i \<Longrightarrow> i < 64 * length (qbits (quantize v)) \<Longrightarrow> \<not> bit (qbits (quantize v) ! (i div 64)) (i mod 64)"
    using all [of i] len by simp
qed

lemma count_ones_xor: "count_ones (x XOR y) = length (filter (\<lambda>i. bit x i \<noteq> bit y i) [0..<64])"
proof -
  have "bit (x XOR y) = (\<lambda>i. bit x i \<noteq> bit y i)" by (rule ext) (simp add: bit_xor_iff)
  then show ?thesis by (simp add: count_ones_def)
qed

lemma hamming_words:
  assumes "length xs = length ys"
  shows "sum_list (map2 (\<lambda>x y. count_ones (x XOR y)) xs ys) =
    length (filter (\<lambda>j. bit (xs ! (j div 64)) (j mod 64) \<noteq> bit (ys ! (j div 64)) (j mod 64)) [0..<64 * length xs])"
  using assms
proof (induction xs ys rule: list_induct2)
  case (Cons x xs y ys)
  let ?P = "\<lambda>zs ws j. bit (zs ! (j div 64)) (j mod 64) \<noteq> bit (ws ! (j div 64)) (j mod 64)"
  have split: "[0..<64 * length (x # xs)] = [0..<64] @ map (\<lambda>j. j + 64) [0..<64 * length xs]"
    using upt_add_eq_append [of 0 64 "64 * length xs"] by (simp add: map_add_upt add.commute)
  have "filter (?P (x # xs) (y # ys)) [0..<64] = filter (\<lambda>i. bit x i \<noteq> bit y i) [0..<64]"
    by (rule filter_cong) auto
  moreover have "?P (x # xs) (y # ys) (j + 64) = ?P xs ys j" for j by simp
  then have "length (filter (?P (x # xs) (y # ys)) (map (\<lambda>j. j + 64) [0..<64 * length xs]))
      = length (filter (?P xs ys) [0..<64 * length xs])"
    by (simp only: filter_map comp_def length_map)
  ultimately show ?case using Cons.IH by (simp only: split filter_append length_append) (simp add: count_ones_xor)
qed simp

text \<open>
  The Hamming distance of two quantized vectors of the same dimension is the number of
  dimensions on which exactly one of them is positive, whatever the layout of the sign bits
  over 64-bit words and the padding of the last word.
\<close>

theorem hamming_counts_sign_flips:
  assumes "length v = length w"
  shows "hamming (quantize v) (quantize w) =
    length (filter (\<lambda>(x, y). f64_lt fzero x \<noteq> f64_lt fzero y) (zip v w))"
proof -
  let ?n = "length v" and ?N = "64 * length (qbits (quantize v))"
  let ?P = "\<lambda>j. bit (qbits (quantize v) ! (j div 64)) (j mod 64) \<noteq> bit (qbits (quantize w) ! (j div 64)) (j mod 64)"
  have len: "length (qbits (quantize v)) = length (qbits (quantize w))" by (simp add: quantize_bits(1) assms)
  have le: "?n \<le> ?N" by (simp add: quantize_bits(1))
  then have "[0..<?N] = [0..<?n] @ [?n..<?N]" by (metis le_Suc_ex upt_add_eq_append zero_le)
  moreover have "filter ?P [?n..<?N] = []"
    using quantize_bits(3) [of v] quantize_bits(3) [of w] assms len by (auto simp: filter_empty_conv)
  moreover have "filter ?P [0..<?n] = filter (\<lambda>j. f64_lt fzero (v ! j) \<noteq> f64_lt fzero (w ! j)) [0..<?n]"
    using assms by (intro filter_cong) (auto simp: quantize_bits(2))
  moreover have "zip v w = map (\<lambda>j. (v ! j, w ! j)) [0..<?n]"
    using assms by (intro nth_equalityI) auto
  ultimately show ?thesis
    by (simp add: hamming_def hamming_words [OF len] filter_map comp_def)
qed

theorem hamming_counts_sign_flips_witness:
  "hamming (quantize [fone, Fin True 1, fzero]) (quantize [fone, fone, Fin False 2]) = 2"
  using hamming_counts_sign_flips [of "[fone, Fin True 1, fzero]" "[fone, fone, Fin False 2]"]
  by (simp add: f64_lt_def)

end
