(* ===== verification/Vector.thy ===== *)
theory Vector
  imports Index Quant
begin

text \<open>
  The vector index of a shard (\<open>crates/shard-node/src/vector.rs\<close>): documents in slots with
  their text, embedding and quantized form, tombstones, the rebuild, and the three search
  paths. The embedder is the function \<open>emb\<close>. The HNSW graph (crate \<open>hnsw_rs\<close>) is the list of the
  points inserted into it; its search is an argument that maps the points, a query and a
  count to neighbours (slot and distance), best first. An out-of-range index is \<open>None\<close>.
\<close>

section \<open>State\<close>

definition EF_SEARCH :: nat where "EF_SEARCH = 64"

definition FLAT_SEARCH_THRESHOLD :: nat where "FLAT_SEARCH_THRESHOLD = 256"

definition REBUILD_TOMBSTONE_RATIO :: f64 where "REBUILD_TOMBSTONE_RATIO = Fin False (1 / 4)"

definition REBUILD_MIN_TOMBSTONES :: nat where "REBUILD_MIN_TOMBSTONES = 16"

text \<open>A vector hit has the fields of a keyword hit, the document and the score.\<close>

type_synonym vector_hit = scored_hit

record vector_index =
  vdocs :: "flight_document list"
  vtexts :: "string list"
  slot_vectors :: "vec32 list"
  vquantized :: "quantized_vector list"
  quantized_mode :: bool
  vby_key :: "(string, nat) hashmap"
  tombstoned :: "nat list"
  vectors_total :: nat
  hnsw :: "(vec32 \<times> nat) list"

definition with_embedder :: vector_index where
  "with_embedder = \<lparr>vdocs = [], vtexts = [], slot_vectors = [], vquantized = [], quantized_mode = False,
     vby_key = [], tombstoned = [], vectors_total = 0, hnsw = []\<rparr>"

definition vector_len :: "vector_index \<Rightarrow> nat" where
  "vector_len vi = length (vby_key vi)"

definition embeddable_text :: "flight_document \<Rightarrow> string" where
  "embeddable_text doc =
     callsign doc @ '' '' @ origin doc @ '' '' @ destination doc @ '' '' @ aircraft_type doc
       @ concat (map (\<lambda>value. '' '' @ value) (hm_values (text_fields doc)))"

section \<open>Updates\<close>

definition vec_insert :: "(string \<Rightarrow> vec32) \<Rightarrow> vector_index \<Rightarrow> flight_document \<Rightarrow> vector_index option" where
  "vec_insert emb vi doc =
     (let txt = embeddable_text doc
      in case hm_get (vby_key vi) (icao24 doc) of
           Some slot \<Rightarrow>
             (if slot < length (vdocs vi) \<and> slot < length (vtexts vi) then
                let vi1 = vi\<lparr>vdocs := (vdocs vi)[slot := doc]\<rparr>
                in if vtexts vi ! slot \<noteq> txt then
                     let v = emb txt
                     in if slot < length (vquantized vi) \<and> slot < length (slot_vectors vi) then
                          Some (vi1\<lparr>hnsw := hnsw vi @ [(v, slot)], vectors_total := vectors_total vi + 1,
                                 vquantized := (vquantized vi)[slot := quantize v],
                                 slot_vectors := (slot_vectors vi)[slot := v], vtexts := (vtexts vi)[slot := txt]\<rparr>)
                        else None
                   else Some vi1
              else None)
         | None \<Rightarrow>
             (let slot = length (vdocs vi);
                  v = emb txt
              in Some (vi\<lparr>hnsw := hnsw vi @ [(v, slot)], vectors_total := vectors_total vi + 1,
                   vby_key := hm_insert (icao24 doc) slot (vby_key vi), vquantized := vquantized vi @ [quantize v],
                   slot_vectors := slot_vectors vi @ [v], vdocs := vdocs vi @ [doc], vtexts := vtexts vi @ [txt]\<rparr>)))"

fun vec_insert_all :: "(string \<Rightarrow> vec32) \<Rightarrow> vector_index \<Rightarrow> flight_document list \<Rightarrow> vector_index option" where
  "vec_insert_all emb vi [] = Some vi"
| "vec_insert_all emb vi (doc # ds) = Option.bind (vec_insert emb vi doc) (\<lambda>vi'. vec_insert_all emb vi' ds)"

definition live_docs :: "vector_index \<Rightarrow> flight_document list" where
  "live_docs vi = map (\<lambda>i. vdocs vi ! i) (filter (\<lambda>i. i \<notin> set (tombstoned vi)) [0..<length (vdocs vi)])"

definition rebuild :: "(string \<Rightarrow> vec32) \<Rightarrow> vector_index \<Rightarrow> vector_index option" where
  "rebuild emb vi =
     vec_insert_all emb
       (vi\<lparr>vdocs := [], vtexts := [], slot_vectors := [], vquantized := [], vby_key := [], tombstoned := [],
          vectors_total := 0, hnsw := []\<rparr>)
       (live_docs vi)"

definition needs_rebuild :: "nat \<Rightarrow> nat \<Rightarrow> bool" where
  "needs_rebuild tombs live_count \<longleftrightarrow> REBUILD_MIN_TOMBSTONES \<le> tombs
     \<and> f64_le (fmul binary64 (f64_of_nat (max live_count 1)) REBUILD_TOMBSTONE_RATIO) (f64_of_nat tombs)"

definition vec_remove :: "(string \<Rightarrow> vec32) \<Rightarrow> vector_index \<Rightarrow> string \<Rightarrow> (vector_index \<times> bool) option" where
  "vec_remove emb vi key =
     (case hm_get (vby_key vi) key of
        None \<Rightarrow> Some (vi, False)
      | Some slot \<Rightarrow>
          (let vi1 = vi\<lparr>vby_key := hm_remove key (vby_key vi), tombstoned := List.insert slot (tombstoned vi)\<rparr>
           in if needs_rebuild (length (tombstoned vi1)) (length (vby_key vi1)) then
                map_option (\<lambda>vi2. (vi2, True)) (rebuild emb vi1)
              else Some (vi1, True)))"

definition set_quantized :: "vector_index \<Rightarrow> bool \<Rightarrow> vector_index" where
  "set_quantized vi on = vi\<lparr>quantized_mode := on\<rparr>"

section \<open>Search\<close>

definition scan_slots :: "'a list \<Rightarrow> vector_index \<Rightarrow> nat list" where
  "scan_slots column vi = filter (\<lambda>slot. slot \<notin> set (tombstoned vi)) [0..<length column]"

definition score_slots :: "vector_index \<Rightarrow> vec32 \<Rightarrow> nat list \<Rightarrow> vector_hit list option" where
  "score_slots vi query sl =
     (if list_all (\<lambda>slot. slot < length (vdocs vi) \<and> slot < length (slot_vectors vi)) sl then
        Some (map (\<lambda>slot. \<lparr>sh_doc = vdocs vi ! slot, sh_score = dot query (slot_vectors vi ! slot)\<rparr>) sl)
      else None)"

definition search_quantized ::
  "((nat \<times> nat) list \<Rightarrow> (nat \<times> nat) list) \<Rightarrow> vector_index \<Rightarrow> vec32 \<Rightarrow> nat \<Rightarrow> vector_hit list option" where
  "search_quantized unst vi query k =
     (let q = quantize query;
          candidates = map (\<lambda>slot. (hamming q (vquantized vi ! slot), slot)) (scan_slots (vquantized vi) vi);
          keep = min (k * OVERSAMPLE) (length candidates);
          survivors = take keep (sort_by (\<lambda>a b. cmp_lin (fst a) (fst b)) (unst candidates))
      in map_option (\<lambda>hits. take k (sort_by cmp_scored hits)) (score_slots vi query (map snd survivors)))"

definition search_flat :: "vector_index \<Rightarrow> vec32 \<Rightarrow> nat \<Rightarrow> vector_hit list option" where
  "search_flat vi query k =
     map_option (\<lambda>hits. take k (sort_by cmp_scored hits)) (score_slots vi query (scan_slots (slot_vectors vi) vi))"

fun collect_neighbours ::
  "vector_index \<Rightarrow> nat \<Rightarrow> nat list \<Rightarrow> vector_hit list \<Rightarrow> (nat \<times> f64) list \<Rightarrow> vector_hit list option" where
  "collect_neighbours vi k seen best [] = Some best"
| "collect_neighbours vi k seen best ((slot, distance) # ns) =
     (if slot \<in> set (tombstoned vi) \<or> slot \<in> set seen then collect_neighbours vi k seen best ns
      else if slot < length (vdocs vi) then
        (let best' = best @ [\<lparr>sh_doc = vdocs vi ! slot, sh_score = fsub binary64 fone distance\<rparr>]
         in if length best' = k then Some best' else collect_neighbours vi k (slot # seen) best' ns)
      else None)"

definition hnsw_fetch :: "nat \<Rightarrow> nat \<Rightarrow> nat" where
  "hnsw_fetch k held = max (min (min (k * 2) (k + 32)) held) (min k held)"

type_synonym graph_search = "(vec32 \<times> nat) list \<Rightarrow> vec32 \<Rightarrow> nat \<Rightarrow> nat \<Rightarrow> (nat \<times> f64) list"

definition search_hnsw :: "graph_search \<Rightarrow> vector_index \<Rightarrow> vec32 \<Rightarrow> nat \<Rightarrow> vector_hit list option" where
  "search_hnsw nn vi query k =
     (let fetch = hnsw_fetch k (vectors_total vi)
      in collect_neighbours vi k [] [] (nn (hnsw vi) query fetch (max EF_SEARCH fetch)))"

definition vec_search ::
  "graph_search \<Rightarrow> ((nat \<times> nat) list \<Rightarrow> (nat \<times> nat) list) \<Rightarrow> vector_index \<Rightarrow> vec32 \<Rightarrow> nat \<Rightarrow> vector_hit list option" where
  "vec_search nn unst vi query k =
     (if k = 0 \<or> vby_key vi = [] then Some []
      else if quantized_mode vi then search_quantized unst vi query k
      else if length (vdocs vi) \<le> FLAT_SEARCH_THRESHOLD then search_flat vi query k
      else search_hnsw nn vi query k)"

section \<open>Invariant\<close>

definition vec_keys_ok :: "flight_document list \<Rightarrow> nat list \<Rightarrow> (string, nat) hashmap \<Rightarrow> bool" where
  "vec_keys_ok ds tombs bk \<longleftrightarrow> hm_wf bk \<and> distinct tombs \<and> set tombs \<subseteq> {..<length ds}
     \<and> (\<forall>k i. hm_get bk k = Some i \<longleftrightarrow> i < length ds \<and> i \<notin> set tombs \<and> icao24 (ds ! i) = k)"

definition vec_inv :: "(string \<Rightarrow> vec32) \<Rightarrow> vector_index \<Rightarrow> bool" where
  "vec_inv emb vi \<longleftrightarrow> vtexts vi = map embeddable_text (vdocs vi) \<and> slot_vectors vi = map emb (vtexts vi)
     \<and> vquantized vi = map quantize (slot_vectors vi) \<and> vec_keys_ok (vdocs vi) (tombstoned vi) (vby_key vi)
     \<and> snd ` set (hnsw vi) \<subseteq> {..<length (vdocs vi)} \<and> vectors_total vi = length (hnsw vi)"

definition vec_content :: "vector_index \<Rightarrow> string \<Rightarrow> flight_document option" where
  "vec_content vi k = map_option (\<lambda>i. vdocs vi ! i) (hm_get (vby_key vi) k)"

lemma vec_content_iff:
  assumes "vec_inv emb vi"
  shows "vec_content vi k = Some d \<longleftrightarrow>
    (\<exists>i < length (vdocs vi). i \<notin> set (tombstoned vi) \<and> vdocs vi ! i = d \<and> icao24 d = k)"
  using assms by (auto simp: vec_inv_def vec_keys_ok_def vec_content_def)

lemma vec_content_key: "vec_inv emb vi \<Longrightarrow> vec_content vi k = Some d \<Longrightarrow> icao24 d = k"
  using vec_content_iff by blast

lemma vec_keys_replace:
  assumes "vec_keys_ok ds tombs bk" and "hm_get bk (icao24 d) = Some i"
  shows "vec_keys_ok (ds[i := d]) tombs bk"
proof -
  have "i < length ds" "icao24 (ds ! i) = icao24 d" using assms by (auto simp: vec_keys_ok_def)
  then have "icao24 (ds[i := d] ! j) = icao24 (ds ! j)" for j by (cases "j = i") auto
  with assms(1) show ?thesis by (simp add: vec_keys_ok_def)
qed

lemma vec_keys_append:
  assumes "vec_keys_ok ds tombs bk" and "hm_get bk (icao24 d) = None"
  shows "vec_keys_ok (ds @ [d]) tombs (hm_insert (icao24 d) (length ds) bk)"
proof -
  have fresh: "\<not> (i < length ds \<and> i \<notin> set tombs \<and> icao24 (ds ! i) = icao24 d)" for i
    using assms unfolding vec_keys_ok_def by (metis option.distinct(1))
  have "length ds \<notin> set tombs" using assms(1) by (auto simp: vec_keys_ok_def)
  with assms(1) fresh show ?thesis
    unfolding vec_keys_ok_def by (auto simp: hashmap_simps nth_append less_Suc_eq split: if_splits)
qed

lemma vec_keys_tombstone:
  assumes "vec_keys_ok ds tombs bk" and "hm_get bk k = Some i"
  shows "vec_keys_ok ds (List.insert i tombs) (hm_remove k bk)"
proof -
  have i: "i < length ds" "icao24 (ds ! i) = k" using assms by (auto simp: vec_keys_ok_def)
  have "j = i" if "j < length ds" "j \<notin> set tombs" "icao24 (ds ! j) = k" for j
    using assms that unfolding vec_keys_ok_def by (metis option.inject)
  then have "l \<noteq> k \<and> j < length ds \<and> j \<notin> set tombs \<and> icao24 (ds ! j) = l \<longleftrightarrow>
      j < length ds \<and> j \<notin> set (List.insert i tombs) \<and> icao24 (ds ! j) = l" for l j
    using i by (cases "j = i") auto
  moreover have "(hm_get (hm_remove k bk) l = Some j) \<longleftrightarrow> l \<noteq> k \<and> j < length ds \<and> j \<notin> set tombs \<and> icao24 (ds ! j) = l" for l j
    using assms(1) by (simp add: vec_keys_ok_def hm_get_remove)
  ultimately show ?thesis using assms(1) i(1) unfolding vec_keys_ok_def by (simp add: hm_wf_remove)
qed

text \<open>A known key: its slot is overwritten, and embedded again only when its text changed.\<close>
lemma vec_insert_replaces:
  assumes inv: "vec_inv emb vi" and Some: "hm_get (vby_key vi) (icao24 d) = Some i"
  shows "\<exists>vi'. vec_insert emb vi d = Some vi' \<and> vec_inv emb vi' \<and> vec_content vi' = (vec_content vi)(icao24 d \<mapsto> d)
    \<and> quantized_mode vi' = quantized_mode vi"
proof -
  have i: "i < length (vdocs vi)" using inv Some by (auto simp: vec_inv_def vec_keys_ok_def)
  let ?t = "embeddable_text d"
  obtain vi' where vi': "vec_insert emb vi d = Some vi'" "vdocs vi' = (vdocs vi)[i := d]" "vtexts vi' = (vtexts vi)[i := ?t]"
    "slot_vectors vi' = (slot_vectors vi)[i := emb ?t]" "vquantized vi' = (vquantized vi)[i := quantize (emb ?t)]"
    "vby_key vi' = vby_key vi" "tombstoned vi' = tombstoned vi" "snd ` set (hnsw vi') \<subseteq> insert i (snd ` set (hnsw vi))"
    "vectors_total vi' = length (hnsw vi')" "quantized_mode vi' = quantized_mode vi"
  proof (cases "vtexts vi ! i = ?t")
    case True
    moreover have "(vtexts vi)[i := ?t] = vtexts vi" "(slot_vectors vi)[i := emb ?t] = slot_vectors vi"
      "(vquantized vi)[i := quantize (emb ?t)] = vquantized vi"
      using inv i True by (simp_all add: vec_inv_def list_update_same_conv)
    ultimately show ?thesis using that Some inv i by (simp add: vec_insert_def vec_inv_def Let_def subset_insertI)
  next
    case False
    with that Some inv i show ?thesis by (simp add: vec_insert_def vec_inv_def Let_def)
  qed
  have "snd ` set (hnsw vi') \<subseteq> {..<length (vdocs vi)}"
    by (rule subset_trans [OF vi'(8)]) (use inv i in \<open>simp add: vec_inv_def\<close>)
  then have "vec_inv emb vi'"
    using inv i vi' vec_keys_replace [OF _ Some] unfolding vec_inv_def by (simp add: map_update)
  moreover have "vec_content vi' k = ((vec_content vi)(icao24 d \<mapsto> d)) k" for k
  proof (cases "k = icao24 d")
    case False
    then have "hm_get (vby_key vi) k \<noteq> Some i" using inv Some by (auto simp: vec_inv_def vec_keys_ok_def)
    with False vi' show ?thesis by (cases "hm_get (vby_key vi) k") (auto simp: vec_content_def)
  qed (use Some vi' i in \<open>simp add: vec_content_def\<close>)
  ultimately show ?thesis using vi' by auto
qed

text \<open>A new key: it gets a slot at the end.\<close>
lemma vec_insert_adds:
  assumes inv: "vec_inv emb vi" and None: "hm_get (vby_key vi) (icao24 d) = None"
  shows "\<exists>vi'. vec_insert emb vi d = Some vi' \<and> vec_inv emb vi' \<and> vec_content vi' = (vec_content vi)(icao24 d \<mapsto> d)
    \<and> quantized_mode vi' = quantized_mode vi"
proof -
  let ?t = "embeddable_text d"
  define vi' where "vi' = vi\<lparr>hnsw := hnsw vi @ [(emb ?t, length (vdocs vi))], vectors_total := vectors_total vi + 1,
    vby_key := hm_insert (icao24 d) (length (vdocs vi)) (vby_key vi), vquantized := vquantized vi @ [quantize (emb ?t)],
    slot_vectors := slot_vectors vi @ [emb ?t], vdocs := vdocs vi @ [d], vtexts := vtexts vi @ [?t]\<rparr>"
  then have vi': "vec_insert emb vi d = Some vi'" "vdocs vi' = vdocs vi @ [d]"
    "vtexts vi' = vtexts vi @ [?t]" "slot_vectors vi' = slot_vectors vi @ [emb ?t]" "vquantized vi' = vquantized vi @ [quantize (emb ?t)]"
    "vby_key vi' = hm_insert (icao24 d) (length (vdocs vi)) (vby_key vi)" "tombstoned vi' = tombstoned vi"
    "hnsw vi' = hnsw vi @ [(emb ?t, length (vdocs vi))]" "vectors_total vi' = vectors_total vi + 1"
    "quantized_mode vi' = quantized_mode vi"
    using None by (simp_all add: vec_insert_def Let_def)
  have "vec_inv emb vi'"
    using inv vi' vec_keys_append [OF _ None] unfolding vec_inv_def by (auto simp: less_Suc_eq)
  moreover have "vec_content vi' k = ((vec_content vi)(icao24 d \<mapsto> d)) k" for k
  proof (cases "hm_get (vby_key vi) k")
    case (Some i)
    then have "i < length (vdocs vi)" using inv by (auto simp: vec_inv_def vec_keys_ok_def)
    with Some None vi' show ?thesis by (auto simp: vec_content_def hashmap_simps nth_append)
  qed (use vi' in \<open>simp add: vec_content_def hashmap_simps\<close>)
  ultimately show ?thesis using vi' by auto
qed

lemma vec_insert_spec:
  assumes "vec_inv emb vi"
  shows "\<exists>vi'. vec_insert emb vi d = Some vi' \<and> vec_inv emb vi' \<and> vec_content vi' = (vec_content vi)(icao24 d \<mapsto> d)
    \<and> quantized_mode vi' = quantized_mode vi"
  using vec_insert_replaces [OF assms] vec_insert_adds [OF assms] by (cases "hm_get (vby_key vi) (icao24 d)") auto

lemma vec_insert_all_spec:
  assumes "vec_inv emb vi"
  shows "\<exists>vi'. vec_insert_all emb vi ds = Some vi' \<and> vec_inv emb vi'
    \<and> vec_content vi' = foldl (\<lambda>c d. c(icao24 d \<mapsto> d)) (vec_content vi) ds \<and> quantized_mode vi' = quantized_mode vi"
  using assms
proof (induction ds arbitrary: vi)
  case (Cons d ds)
  obtain v1 where v1: "vec_insert emb vi d = Some v1" "vec_inv emb v1" "vec_content v1 = (vec_content vi)(icao24 d \<mapsto> d)"
    "quantized_mode v1 = quantized_mode vi" using vec_insert_spec [OF Cons.prems] by blast
  from Cons.IH [OF v1(2)] v1 show ?case by simp
qed simp

lemma puts_distinct:
  "distinct (map key ds) \<Longrightarrow> foldl (\<lambda>c d. c(key d \<mapsto> d)) c ds k = Some d \<longleftrightarrow>
    d \<in> set ds \<and> key d = k \<or> k \<notin> key ` set ds \<and> c k = Some d"
  by (induction ds rule: rev_induct) (auto, (metis image_eqI)+)

lemma live_docs_content:
  assumes "vec_inv emb vi"
  shows "distinct (map icao24 (live_docs vi))" and "d \<in> set (live_docs vi) \<longleftrightarrow> vec_content vi (icao24 d) = Some d"
proof -
  have "i = j" if "i < length (vdocs vi)" "i \<notin> set (tombstoned vi)" "j < length (vdocs vi)" "j \<notin> set (tombstoned vi)"
    "icao24 (vdocs vi ! i) = icao24 (vdocs vi ! j)" for i j
    using assms that unfolding vec_inv_def vec_keys_ok_def by (metis option.inject)
  then have "inj_on (\<lambda>i. icao24 (vdocs vi ! i)) (set (filter (\<lambda>i. i \<notin> set (tombstoned vi)) [0..<length (vdocs vi)]))"
    by (intro inj_onI) simp
  then show "distinct (map icao24 (live_docs vi))"
    by (simp add: live_docs_def comp_def distinct_map)
  show "d \<in> set (live_docs vi) \<longleftrightarrow> vec_content vi (icao24 d) = Some d"
    unfolding vec_content_iff [OF assms] by (auto simp: live_docs_def)
qed

lemma vec_empty_inv:
  "vdocs vi = [] \<Longrightarrow> vtexts vi = [] \<Longrightarrow> slot_vectors vi = [] \<Longrightarrow> vquantized vi = [] \<Longrightarrow> vby_key vi = [] \<Longrightarrow>
    tombstoned vi = [] \<Longrightarrow> vectors_total vi = 0 \<Longrightarrow> hnsw vi = [] \<Longrightarrow> vec_inv emb vi \<and> vec_content vi = Map.empty"
  by (auto simp: vec_inv_def vec_keys_ok_def vec_content_def)

lemma rebuild_spec:
  assumes "vec_inv emb vi"
  shows "\<exists>vi'. rebuild emb vi = Some vi' \<and> vec_inv emb vi' \<and> vec_content vi' = vec_content vi
    \<and> quantized_mode vi' = quantized_mode vi"
proof -
  let ?e = "vi\<lparr>vdocs := [], vtexts := [], slot_vectors := [], vquantized := [], vby_key := [], tombstoned := [],
    vectors_total := 0, hnsw := []\<rparr>"
  have e: "vec_inv emb ?e" "vec_content ?e = Map.empty" using vec_empty_inv [of ?e] by simp_all
  have "foldl (\<lambda>c d. c(icao24 d \<mapsto> d)) Map.empty (live_docs vi) k = vec_content vi k" for k
  proof -
    have "vec_content vi k = Some d \<Longrightarrow> icao24 d = k" for d using vec_content_iff [OF assms] by blast
    then have "foldl (\<lambda>c d. c(icao24 d \<mapsto> d)) Map.empty (live_docs vi) k = Some d \<longleftrightarrow> vec_content vi k = Some d" for d
      using puts_distinct [OF live_docs_content(1) [OF assms], of Map.empty k d] live_docs_content(2) [OF assms, of d]
        \<open>vec_content vi k = Some d \<Longrightarrow> icao24 d = k\<close> by (cases "icao24 d = k") auto
    then show ?thesis by (rule option_eq_by_Some)
  qed
  then have "foldl (\<lambda>c d. c(icao24 d \<mapsto> d)) Map.empty (live_docs vi) = vec_content vi" by (rule ext)
  then show ?thesis
    using vec_insert_all_spec [OF e(1), of "live_docs vi"] unfolding rebuild_def e(2) by simp
qed

lemma vec_remove_spec:
  assumes inv: "vec_inv emb vi"
  shows "\<exists>vi'. vec_remove emb vi k = Some (vi', vec_content vi k \<noteq> None) \<and> vec_inv emb vi'
    \<and> vec_content vi' = (vec_content vi)(k := None) \<and> quantized_mode vi' = quantized_mode vi"
proof (cases "hm_get (vby_key vi) k")
  case None
  then have "vec_content vi k = None" by (simp add: vec_content_def)
  then show ?thesis using None inv by (intro exI [of _ vi]) (auto simp: vec_remove_def)
next
  case (Some i)
  let ?v = "vi\<lparr>vby_key := hm_remove k (vby_key vi), tombstoned := List.insert i (tombstoned vi)\<rparr>"
  have inv': "vec_inv emb ?v" using inv vec_keys_tombstone [OF _ Some] by (simp add: vec_inv_def)
  have content: "vec_content ?v = (vec_content vi)(k := None)"
    by (rule ext) (simp add: vec_content_def hashmap_simps)
  have "vec_content vi k \<noteq> None" using Some by (simp add: vec_content_def)
  then show ?thesis
    using Some inv' content rebuild_spec [OF inv'] by (auto simp: vec_remove_def Let_def)
qed

lemma vec_content_finite: "vec_inv emb vi \<Longrightarrow> finite (dom (vec_content vi))"
proof -
  have "dom (vec_content vi) = dom (hm_get (vby_key vi))" by (auto simp: vec_content_def)
  then show ?thesis by (simp add: finite_dom_map_of)
qed

interpretation vec: doc_view "vec_insert emb" "vec_remove emb" "vec_inv emb" vec_content icao24 "\<lambda>_. True" for emb
proof unfold_locales
  fix s k d
  show "vec_inv emb s \<Longrightarrow> \<exists>s'. vec_insert emb s d = Some s' \<and> vec_inv emb s' \<and> vec_content s' = (vec_content s)(icao24 d \<mapsto> d)"
    using vec_insert_spec [of emb s d] by blast
  show "vec_inv emb s \<Longrightarrow> \<exists>s'. vec_remove emb s k = Some (s', vec_content s k \<noteq> None) \<and> vec_inv emb s'
      \<and> vec_content s' = (vec_content s)(k := None)"
    using vec_remove_spec [of emb s k] by blast
  show "vec_inv emb s \<Longrightarrow> vec_content s k = Some d \<Longrightarrow> icao24 d = k" by (simp add: vec_content_iff) blast
qed (rule vec_content_finite)

section \<open>What a search returns\<close>

text \<open>Hits on a corpus: at most \<open>k\<close>, each a document of the corpus, no document twice.\<close>

definition hits_ok :: "(string \<rightharpoonup> flight_document) \<Rightarrow> nat \<Rightarrow> vector_hit list \<Rightarrow> bool" where
  "hits_ok c k hits \<longleftrightarrow> length hits \<le> k \<and> distinct (map (\<lambda>h. icao24 (sh_doc h)) hits)
     \<and> list_all (\<lambda>h. c (icao24 (sh_doc h)) = Some (sh_doc h)) hits"

definition nearest_hit :: "(string \<Rightarrow> vec32) \<Rightarrow> vec32 \<Rightarrow> flight_document \<Rightarrow> vector_hit" where
  "nearest_hit emb query d = \<lparr>sh_doc = d, sh_score = dot query (emb (embeddable_text d))\<rparr>"

definition nearest :: "(string \<Rightarrow> vec32) \<Rightarrow> (string \<rightharpoonup> flight_document) \<Rightarrow> vec32 \<Rightarrow> vector_hit list" where
  "nearest emb c query = sort_by cmp_scored (map (\<lambda>k. nearest_hit emb query (the (c k))) (sorted_list_of_set (dom c)))"

lemma slots_hits_ok:
  assumes inv: "vec_inv emb vi" and "map sh_doc hits = map (\<lambda>i. vdocs vi ! i) sl" and "distinct sl"
    and "set sl \<subseteq> {..<length (vdocs vi)} - set (tombstoned vi)" and "length hits \<le> k"
  shows "hits_ok (vec_content vi) k hits"
proof -
  have keys: "map (\<lambda>h. icao24 (sh_doc h)) hits = map (\<lambda>i. icao24 (vdocs vi ! i)) sl"
    using arg_cong [OF assms(2), of "map icao24"] by (simp add: comp_def)
  have "inj_on (\<lambda>i. icao24 (vdocs vi ! i)) (set sl)"
  proof (rule inj_onI)
    fix i j assume "i \<in> set sl" "j \<in> set sl" "icao24 (vdocs vi ! i) = icao24 (vdocs vi ! j)"
    moreover have "hm_get (vby_key vi) (icao24 (vdocs vi ! i)) = Some i" if "i \<in> set sl" for i
      using inv that assms(4) by (auto simp: vec_inv_def vec_keys_ok_def)
    ultimately show "i = j" by (metis option.inject)
  qed
  moreover have "vec_content vi (icao24 (sh_doc h)) = Some (sh_doc h)" if "h \<in> set hits" for h
  proof -
    from that have "sh_doc h \<in> set (map (\<lambda>i. vdocs vi ! i) sl)" unfolding assms(2) [symmetric] by simp
    then show ?thesis using assms(4) unfolding vec_content_iff [OF inv] by auto
  qed
  ultimately show ?thesis using assms(3,5) keys by (simp add: hits_ok_def distinct_map list_all_iff)
qed

lemma scan_slots_eq: "length column = length (vdocs vi) \<Longrightarrow>
    scan_slots column vi = filter (\<lambda>i. i \<notin> set (tombstoned vi)) [0..<length (vdocs vi)]"
  by (simp add: scan_slots_def)

lemma score_slots_eq:
  assumes "vec_inv emb vi" and "set sl \<subseteq> {..<length (vdocs vi)}"
  shows "score_slots vi query sl = Some (map (\<lambda>i. nearest_hit emb query (vdocs vi ! i)) sl)"
  using assms by (auto simp: score_slots_def vec_inv_def nearest_hit_def list_all_iff)

lemma hits_ok_take_sort:
  "hits_ok c n hits \<Longrightarrow> hits_ok c k (take k (sort_by cmp_scored hits))"
  unfolding hits_ok_def
  by (auto simp: list_all_iff take_map [symmetric] dest: in_set_takeD intro: distinct_take)

lemma live_docs_mset:
  assumes "vec_inv emb vi"
  shows "mset (live_docs vi) = mset (map (\<lambda>k. the (vec_content vi k)) (sorted_list_of_set (dom (vec_content vi))))"
proof -
  let ?c = "vec_content vi"
  have fin: "finite (dom ?c)" by (rule vec_content_finite [OF assms])
  have "inj_on (\<lambda>k. the (?c k)) (dom ?c)"
    by (intro inj_onI) (metis domD option.sel vec_content_key [OF assms])
  then have d1: "distinct (map (\<lambda>k. the (?c k)) (sorted_list_of_set (dom ?c)))" using fin by (simp add: distinct_map)
  have d2: "distinct (live_docs vi)" using live_docs_content(1) [OF assms] by (metis distinct_map)
  have "set (live_docs vi) = (\<lambda>k. the (?c k)) ` dom ?c"
  proof (intro set_eqI iffI)
    fix d assume "d \<in> set (live_docs vi)"
    then show "d \<in> (\<lambda>k. the (?c k)) ` dom ?c" using live_docs_content(2) [OF assms] by (intro image_eqI [of _ _ "icao24 d"]) auto
  next
    fix d assume "d \<in> (\<lambda>k. the (?c k)) ` dom ?c"
    then obtain k where "?c k = Some d" by auto
    moreover from this have "icao24 d = k" using vec_content_iff [OF assms] by blast
    ultimately show "d \<in> set (live_docs vi)" using live_docs_content(2) [OF assms] by auto
  qed
  then show ?thesis using set_eq_iff_mset_eq_distinct [OF d2 d1] fin by simp
qed

lemma nearest_sort:
  assumes inv: "vec_inv emb vi" and same: "mset hits = mset (map (nearest_hit emb query) (live_docs vi))"
    and clean: "\<forall>d \<in> ran (vec_content vi). dot query (emb (embeddable_text d)) \<noteq> NaN"
  shows "sort_by cmp_scored hits = nearest emb (vec_content vi) query"
  unfolding nearest_def
proof (rule scoring.sort_unique)
  have "mset (map (nearest_hit emb query) (live_docs vi))
      = mset (map (nearest_hit emb query) (map (\<lambda>k. the (vec_content vi k)) (sorted_list_of_set (dom (vec_content vi)))))"
    by (simp only: mset_map live_docs_mset [OF inv])
  then show "mset hits = mset (map (\<lambda>k. nearest_hit emb query (the (vec_content vi k))) (sorted_list_of_set (dom (vec_content vi))))"
    using same by (simp add: comp_def)
  have sets: "set hits = nearest_hit emb query ` set (live_docs vi)" using mset_eq_setD [OF same] by simp
  show "set hits \<subseteq> {h. sh_score h \<noteq> NaN}"
  proof -
    have "set (live_docs vi) \<subseteq> ran (vec_content vi)" using live_docs_content(2) [OF inv] by (auto simp: ran_def)
    then show ?thesis unfolding sets using clean by (auto simp: nearest_hit_def)
  qed
  fix x y assume xy: "x \<in> set hits" "y \<in> set hits" and "cmp_scored x y = Equal"
  then have "icao24 (sh_doc x) = icao24 (sh_doc y)" by (simp add: cmp_scored_def)
  moreover obtain d e where "x = nearest_hit emb query d" "y = nearest_hit emb query e" "d \<in> set (live_docs vi)" "e \<in> set (live_docs vi)"
    using xy unfolding sets by blast
  moreover from this(3,4) have "vec_content vi (icao24 d) = Some d" "vec_content vi (icao24 e) = Some e"
    using live_docs_content(2) [OF inv] by blast+
  ultimately have "d = e" by (metis nearest_hit_def option.inject scored_hit.select_convs(1))
  then show "x = y" using \<open>x = nearest_hit emb query d\<close> \<open>y = nearest_hit emb query e\<close> by simp
qed

lemma search_flat_spec:
  assumes inv: "vec_inv emb vi"
  shows "\<exists>hits. search_flat vi query k = Some hits \<and> hits_ok (vec_content vi) k hits
    \<and> ((\<forall>d \<in> ran (vec_content vi). dot query (emb (embeddable_text d)) \<noteq> NaN) \<longrightarrow>
        hits = take k (nearest emb (vec_content vi) query))"
proof -
  let ?sl = "filter (\<lambda>i. i \<notin> set (tombstoned vi)) [0..<length (vdocs vi)]"
  let ?hits = "map (\<lambda>i. nearest_hit emb query (vdocs vi ! i)) ?sl"
  have "length (slot_vectors vi) = length (vdocs vi)" using inv by (simp add: vec_inv_def)
  then have "search_flat vi query k = Some (take k (sort_by cmp_scored ?hits))"
    by (simp add: search_flat_def scan_slots_eq score_slots_eq [OF inv] subset_eq)
  moreover have "hits_ok (vec_content vi) (length ?hits) ?hits"
    by (rule slots_hits_ok [OF inv, of _ ?sl]) (auto simp: nearest_hit_def)
  moreover have "?hits = map (nearest_hit emb query) (live_docs vi)" by (simp add: live_docs_def)
  ultimately show ?thesis using hits_ok_take_sort nearest_sort [OF inv, of ?hits query] by auto
qed

interpretation hamming_order: comparator "\<lambda>a b. cmp_lin (fst a) (fst b :: nat)" UNIV
  by unfold_locales (auto simp: cmp_lin_flip not_less)

lemma search_quantized_spec:
  assumes inv: "vec_inv emb vi" and ord: "iteration_order unst"
  shows "\<exists>hits. search_quantized unst vi query k = Some hits \<and> hits_ok (vec_content vi) k hits
    \<and> (length (live_docs vi) \<le> k * OVERSAMPLE \<longrightarrow>
       (\<forall>d \<in> ran (vec_content vi). dot query (emb (embeddable_text d)) \<noteq> NaN) \<longrightarrow>
        hits = take k (nearest emb (vec_content vi) query))"
proof -
  let ?sl = "filter (\<lambda>i. i \<notin> set (tombstoned vi)) [0..<length (vdocs vi)]"
  let ?cand = "map (\<lambda>slot. (hamming (quantize query) (vquantized vi ! slot), slot)) ?sl"
  let ?sorted = "sort_by (\<lambda>a b. cmp_lin (fst a) (fst b)) (unst ?cand)"
  define surv where "surv = map snd (take (min (k * OVERSAMPLE) (length ?cand)) ?sorted)"
  let ?hits = "map (\<lambda>i. nearest_hit emb query (vdocs vi ! i)) surv"
  have ms: "mset (map snd ?sorted) = mset ?sl"
    by (simp only: mset_map mset_sort_by iteration_order_mset [OF ord]) (simp add: image_mset.compositionality comp_def)
  then have perm: "distinct (map snd ?sorted)" "set (map snd ?sorted) = set ?sl"
    using mset_eq_imp_distinct_iff [OF ms] mset_eq_setD [OF ms] by simp_all
  have dist: "distinct surv" unfolding surv_def take_map [symmetric] using perm(1) by (rule distinct_take)
  have sub: "set surv \<subseteq> set ?sl" unfolding surv_def take_map [symmetric] perm(2) [symmetric] by (rule set_take_subset)
  have len: "length (vquantized vi) = length (vdocs vi)" using inv by (simp add: vec_inv_def)
  have "set surv \<subseteq> {..<length (vdocs vi)}" using sub by auto
  then have res: "search_quantized unst vi query k = Some (take k (sort_by cmp_scored ?hits))"
    unfolding search_quantized_def Let_def scan_slots_eq [OF len] surv_def [symmetric]
    by (simp add: score_slots_eq [OF inv])
  have ok: "hits_ok (vec_content vi) (length ?hits) ?hits"
    using dist sub by (intro slots_hits_ok [OF inv, of _ surv]) (auto simp: nearest_hit_def)
  have "mset ?hits = mset (map (nearest_hit emb query) (live_docs vi))" if "length (live_docs vi) \<le> k * OVERSAMPLE"
  proof -
    have "surv = map snd ?sorted" using that unfolding surv_def
      by (simp add: live_docs_def iteration_order_length [OF ord])
    then have "mset surv = mset ?sl" using ms by simp
    then have "mset ?hits = image_mset (\<lambda>i. nearest_hit emb query (vdocs vi ! i)) (mset ?sl)" by (simp only: mset_map)
    then show ?thesis by (simp add: live_docs_def image_mset.compositionality comp_def)
  qed
  then show ?thesis using res hits_ok_take_sort [OF ok] nearest_sort [OF inv, of ?hits query] by auto
qed

lemma collect_neighbours_spec:
  assumes "fst ` set ns \<subseteq> {..<length (vdocs vi)}" and "map sh_doc best = map (\<lambda>i. vdocs vi ! i) (rev seen)" and "distinct seen"
    and "set seen \<subseteq> {..<length (vdocs vi)} - set (tombstoned vi)" and "length seen < k"
  shows "\<exists>hits sl. collect_neighbours vi k seen best ns = Some hits \<and> map sh_doc hits = map (\<lambda>i. vdocs vi ! i) sl
    \<and> distinct sl \<and> set sl \<subseteq> {..<length (vdocs vi)} - set (tombstoned vi) \<and> length hits \<le> k"
  using assms
proof (induction vi k seen best ns rule: collect_neighbours.induct)
  case (1 vi k seen best)
  then have "length best = length seen" by (metis length_map length_rev)
  with 1 show ?case by (intro exI [of _ best] exI [of _ "rev seen"]) auto
next
  case (2 vi k seen best slot distance ns)
  show ?case
  proof (cases "slot \<in> set (tombstoned vi) \<or> slot \<in> set seen")
    case True
    with 2 show ?thesis by simp
  next
    case False
    let ?best = "best @ [\<lparr>sh_doc = vdocs vi ! slot, sh_score = fsub binary64 fone distance\<rparr>]"
    have slot: "slot < length (vdocs vi)" using "2.prems"(1) by simp
    have ext: "map sh_doc ?best = map (\<lambda>i. vdocs vi ! i) (rev (slot # seen))" using "2.prems"(2) by simp
    have len: "length best = length seen" using "2.prems"(2) by (metis length_map length_rev)
    show ?thesis
    proof (cases "length ?best = k")
      case True
      with False slot ext "2.prems"(3,4) show ?thesis
        by (intro exI [of _ ?best] exI [of _ "rev (slot # seen)"]) (auto simp: Let_def)
    next
      case more_room: False
      have "\<exists>hits sl. collect_neighbours vi k (slot # seen) ?best ns = Some hits \<and> map sh_doc hits = map (\<lambda>i. vdocs vi ! i) sl
        \<and> distinct sl \<and> set sl \<subseteq> {..<length (vdocs vi)} - set (tombstoned vi) \<and> length hits \<le> k"
        by (rule "2.IH"(2) [OF False slot refl more_room]) (use "2.prems" False slot ext len more_room in auto)
      then show ?thesis using False slot more_room by (simp add: Let_def)
    qed
  qed
qed

text \<open>What is relied on of the graph: it answers with points that were inserted into it.\<close>

definition graph_sound :: "graph_search \<Rightarrow> bool" where
  "graph_sound nn \<longleftrightarrow> (\<forall>pts query fetch ef. fst ` set (nn pts query fetch ef) \<subseteq> snd ` set pts)"

lemma search_hnsw_spec:
  assumes inv: "vec_inv emb vi" and "graph_sound nn" and "0 < k"
  shows "\<exists>hits. search_hnsw nn vi query k = Some hits \<and> hits_ok (vec_content vi) k hits"
proof -
  let ?ns = "nn (hnsw vi) query (hnsw_fetch k (vectors_total vi)) (max EF_SEARCH (hnsw_fetch k (vectors_total vi)))"
  have "fst ` set ?ns \<subseteq> snd ` set (hnsw vi)" using assms(2) by (simp add: graph_sound_def)
  also have "\<dots> \<subseteq> {..<length (vdocs vi)}" using inv by (simp add: vec_inv_def)
  finally obtain hits sl where "collect_neighbours vi k [] [] ?ns = Some hits" and hits: "map sh_doc hits = map (\<lambda>i. vdocs vi ! i) sl"
    "distinct sl" "set sl \<subseteq> {..<length (vdocs vi)} - set (tombstoned vi)" "length hits \<le> k"
    using collect_neighbours_spec [of ?ns vi "[]" "[]" k] assms(3) by auto
  then show ?thesis using slots_hits_ok [OF inv hits] by (simp add: search_hnsw_def Let_def)
qed

lemma live_docs_length: "vec_inv emb vi \<Longrightarrow> length (live_docs vi) = card (dom (vec_content vi))"
  using arg_cong [OF live_docs_mset, of emb vi size] vec_content_finite [of emb vi] by simp

lemma vec_search_spec:
  assumes inv: "vec_inv emb vi" and nn: "graph_sound nn" and ord: "iteration_order unst"
  shows "\<exists>hits. vec_search nn unst vi query k = Some hits \<and> hits_ok (vec_content vi) k hits
    \<and> ((\<forall>d \<in> ran (vec_content vi). dot query (emb (embeddable_text d)) \<noteq> NaN) \<longrightarrow>
       (if quantized_mode vi then card (dom (vec_content vi)) \<le> k * OVERSAMPLE else length (vdocs vi) \<le> FLAT_SEARCH_THRESHOLD) \<longrightarrow>
       hits = take k (nearest emb (vec_content vi) query))"
proof (cases "k = 0 \<or> vby_key vi = []")
  case True
  then have "take k (nearest emb (vec_content vi) query) = []"
    by (auto simp: nearest_def vec_content_def dom_def)
  with True show ?thesis by (auto simp: vec_search_def hits_ok_def)
next
  case False
  then show ?thesis
    using search_flat_spec [OF inv, of query k] search_quantized_spec [OF inv ord, of query k]
      search_hnsw_spec [OF inv nn, of k query]
    by (auto simp: vec_search_def live_docs_length [OF inv])
qed

lemma run_mode:
  assumes "vec_inv emb vi" and "view_run (vec_insert emb) (vec_remove emb) vi ops = Some vi'"
  shows "quantized_mode vi' = quantized_mode vi"
  using assms
proof (induction ops arbitrary: vi)
  case (Cons p ops)
  obtain v1 where v1: "view_step (vec_insert emb) (vec_remove emb) vi p = Some v1" "vec_inv emb v1" "quantized_mode v1 = quantized_mode vi"
  proof (cases p)
    case (Put d)
    with vec_insert_spec [OF Cons.prems(1), of d] that show ?thesis by auto
  next
    case (Drop k)
    with vec_remove_spec [OF Cons.prems(1), of k] that show ?thesis by auto
  qed
  with Cons show ?case by simp
qed simp

lemma vec_run_spec:
  assumes "vec_inv emb vi" "vec_content vi = Map.empty"
  shows "\<exists>vi'. view_run (vec_insert emb) (vec_remove emb) vi ops = Some vi' \<and> vec_inv emb vi'
    \<and> vec_content vi' = map_run icao24 ops \<and> quantized_mode vi' = quantized_mode vi"
proof -
  have "list_all vec.op_ok ops" by (simp add: vec.op_ok_def list_all_iff split: view_op.split)
  from vec.run_spec [OF assms(1) this] run_mode [OF assms(1)] show ?thesis by (auto simp: assms(2))
qed

text \<open>
  C8: Vector search over any history of upserts and removals, rebuilds included, never
  panics and in each of its three modes returns at most \<open>k\<close> hits, no aircraft twice, each
  the current document of an aircraft that is still in the shard: a removed aircraft never
  surfaces. When no score is a NaN the flat scan, and the two-tier quantized search whenever
  the corpus fits its candidate set, return exactly the \<open>k\<close> best documents of the corpus by
  dot product and key; so they agree with each other and do not depend on the history.
\<close>

theorem vector_search_exact:
  assumes "graph_sound nn" and "iteration_order unst"
  shows "\<exists>vi hits. view_run (vec_insert emb) (vec_remove emb) (set_quantized with_embedder mode) ops = Some vi
    \<and> vec_search nn unst vi query k = Some hits \<and> hits_ok (map_run icao24 ops) k hits
    \<and> ((\<forall>d \<in> ran (map_run icao24 ops). dot query (emb (embeddable_text d)) \<noteq> NaN) \<longrightarrow>
       (if mode then card (dom (map_run icao24 ops)) \<le> k * OVERSAMPLE else length (vdocs vi) \<le> FLAT_SEARCH_THRESHOLD) \<longrightarrow>
       hits = take k (nearest emb (map_run icao24 ops) query))"
proof -
  let ?v = "set_quantized with_embedder mode"
  have "vec_inv emb ?v" "vec_content ?v = Map.empty"
    using vec_empty_inv [of ?v emb] by (simp_all add: set_quantized_def with_embedder_def)
  from vec_run_spec [OF this, of ops] obtain vi where "view_run (vec_insert emb) (vec_remove emb) ?v ops = Some vi"
    and inv: "vec_inv emb vi" and "vec_content vi = map_run icao24 ops" "quantized_mode vi = mode"
    by (auto simp: set_quantized_def)
  then show ?thesis using vec_search_spec [OF inv assms, of query k] by auto
qed

definition sample_embed :: "string \<Rightarrow> vec32" where
  "sample_embed txt = (if take 1 txt = ''U'' then [fone, fzero] else [fzero, fone])"

theorem vector_search_exact_witness:
  "\<exists>vi. view_run (vec_insert sample_embed) (vec_remove sample_embed) (set_quantized with_embedder True)
      [Put (sample_doc ''a'' ''UAL''), Put (sample_doc ''b'' ''DAL''), Drop ''a''] = Some vi
    \<and> vec_search (\<lambda>pts q n ef. map (\<lambda>(v, i). (i, fzero)) pts) rev vi [fone, fone] 1 =
        Some [\<lparr>sh_doc = sample_doc ''b'' ''DAL'', sh_score = fone\<rparr>]"
proof -
  let ?ops = "[Put (sample_doc ''a'' ''UAL''), Put (sample_doc ''b'' ''DAL''), Drop ''a'']"
  let ?nn = "\<lambda>(pts :: (vec32 \<times> nat) list) (q :: vec32) (n :: nat) (ef :: nat). map (\<lambda>(v, i). (i, fzero)) pts"
  have "map_run icao24 ?ops = [''b'' \<mapsto> sample_doc ''b'' ''DAL'']"
    by (rule ext) (simp add: sample_doc_def)
  moreover have "dot [fone, fone] (sample_embed (embeddable_text (sample_doc ''b'' ''DAL''))) = fone"
    by (simp add: sample_embed_def embeddable_text_def sample_doc_def default_document_def dot_def fsum_def
        fround_def [of _ _ 0] fround_one32)
  moreover have "graph_sound ?nn" by (auto simp: graph_sound_def image_iff split: prod.split) force
  ultimately show ?thesis
    using vector_search_exact [of ?nn rev sample_embed True ?ops "[fone, fone]" 1]
    by (auto simp: nearest_def nearest_hit_def OVERSAMPLE_def)
qed

end
