(* ===== verification/Store.thy ===== *)
theory Store
  imports Vector
begin

text \<open>
  The document store of a shard (\<open>crates/shard-node/src/store.rs\<close>): the keyword index and the
  vector index, updated together. Operations return \<open>None\<close> where the code panics, the debug
  assertion that both indexes agree on a removal included. The embedder is \<open>emb\<close>.
\<close>

section \<open>Operations\<close>

record shard_store =
  keyword :: inverted_index
  vector :: vector_index

definition store_new :: shard_store where
  "store_new = \<lparr>keyword = index_new, vector = with_embedder\<rparr>"

definition with_quantized :: "shard_store \<Rightarrow> bool \<Rightarrow> shard_store" where
  "with_quantized st on = st\<lparr>vector := set_quantized (vector st) on\<rparr>"

definition store_documents :: "shard_store \<Rightarrow> flight_document list" where
  "store_documents st = documents (keyword st)"

definition store_len :: "shard_store \<Rightarrow> nat" where
  "store_len st = index_len (keyword st)"

definition store_insert :: "(string \<Rightarrow> vec32) \<Rightarrow> shard_store \<Rightarrow> flight_document \<Rightarrow> shard_store option" where
  "store_insert emb st doc =
     Option.bind (vec_insert emb (vector st) doc) (\<lambda>v.
     Option.bind (index_insert (keyword st) doc) (\<lambda>k.
       Some (st\<lparr>keyword := k, vector := v\<rparr>)))"

fun store_insert_all :: "(string \<Rightarrow> vec32) \<Rightarrow> shard_store \<Rightarrow> flight_document list \<Rightarrow> shard_store option" where
  "store_insert_all emb st [] = Some st"
| "store_insert_all emb st (doc # ds) = Option.bind (store_insert emb st doc) (\<lambda>st'. store_insert_all emb st' ds)"

definition replace_all :: "(string \<Rightarrow> vec32) \<Rightarrow> shard_store \<Rightarrow> flight_document list \<Rightarrow> shard_store option" where
  "replace_all emb st ds = store_insert_all emb (st\<lparr>keyword := index_new, vector := with_embedder\<rparr>) ds"

definition store_remove :: "(string \<Rightarrow> vec32) \<Rightarrow> shard_store \<Rightarrow> string \<Rightarrow> (shard_store \<times> bool) option" where
  "store_remove emb st key =
     Option.bind (index_remove (keyword st) key) (\<lambda>(k, was_k).
     Option.bind (vec_remove emb (vector st) key) (\<lambda>(v, was_v).
       if was_k = was_v then Some (st\<lparr>keyword := k, vector := v\<rparr>, was_k) else None))"

fun store_remove_all :: "(string \<Rightarrow> vec32) \<Rightarrow> shard_store \<Rightarrow> string list \<Rightarrow> shard_store option" where
  "store_remove_all emb st [] = Some st"
| "store_remove_all emb st (key # ks) = Option.bind (store_remove emb st key) (\<lambda>(st', _). store_remove_all emb st' ks)"

definition doomed_keys :: "shard_store \<Rightarrow> u32 \<Rightarrow> u32 \<Rightarrow> string list" where
  "doomed_keys st vshard v = map icao24 (filter (\<lambda>d. vshard_for (icao24 d) v = vshard) (documents (keyword st)))"

definition evict_vshard ::
  "(string \<Rightarrow> vec32) \<Rightarrow> shard_store \<Rightarrow> u32 \<Rightarrow> u32 \<Rightarrow> (shard_store \<times> nat) option" where
  "evict_vshard emb st vshard v =
     (if v = 0 then Some (st, 0)
      else map_option (\<lambda>st'. (st', length (doomed_keys st vshard v))) (store_remove_all emb st (doomed_keys st vshard v)))"

definition store_search ::
  "(f64 \<Rightarrow> f64) \<Rightarrow> f64 \<times> f64 \<Rightarrow> ((nat \<times> f64) list \<Rightarrow> (nat \<times> f64) list) \<Rightarrow> shard_store \<Rightarrow> string \<Rightarrow> nat \<Rightarrow>
    (nat \<times> scored_hit list) option" where
  "store_search ln1 params ord st query limit = index_search ln1 params ord (keyword st) query limit"

definition matching ::
  "(f64 \<Rightarrow> f64) \<Rightarrow> f64 \<times> f64 \<Rightarrow> ((nat \<times> f64) list \<Rightarrow> (nat \<times> f64) list) \<Rightarrow> shard_store \<Rightarrow> string \<Rightarrow>
    flight_document list option" where
  "matching ln1 params ord st query =
     (if trim query = [] then Some (documents (keyword st))
      else map_option (\<lambda>(_, hits). map sh_doc hits) (index_search ln1 params ord (keyword st) query 0))"

definition store_vector_search ::
  "graph_search \<Rightarrow> ((nat \<times> nat) list \<Rightarrow> (nat \<times> nat) list) \<Rightarrow> shard_store \<Rightarrow> vec32 \<Rightarrow> nat \<Rightarrow> vector_hit list option" where
  "store_vector_search nn unst st query k = vec_search nn unst (vector st) query k"

section \<open>The two views in lockstep\<close>

definition store_inv :: "(string \<Rightarrow> vec32) \<Rightarrow> shard_store \<Rightarrow> bool" where
  "store_inv emb st \<longleftrightarrow> index_inv (keyword st) \<and> vec_inv emb (vector st)
     \<and> vec_content (vector st) = index_content (keyword st)"

abbreviation store_content :: "shard_store \<Rightarrow> string \<Rightarrow> flight_document option" where
  "store_content st \<equiv> index_content (keyword st)"

lemma store_insert_spec:
  assumes "store_inv emb st"
  shows "\<exists>st'. store_insert emb st d = Some st' \<and> store_inv emb st' \<and> store_content st' = (store_content st)(icao24 d \<mapsto> d)"
  using assms vec_insert_spec [of emb "vector st" d] index_insert_spec [of "keyword st" d]
  by (auto simp: store_inv_def store_insert_def)

lemma store_remove_spec:
  assumes "store_inv emb st"
  shows "\<exists>st'. store_remove emb st k = Some (st', store_content st k \<noteq> None) \<and> store_inv emb st'
    \<and> store_content st' = (store_content st)(k := None)"
  using assms vec_remove_spec [of emb "vector st" k] index_remove_spec [of "keyword st" k]
  by (auto simp: store_inv_def store_remove_def)

lemma store_new_inv: "store_inv emb (store_new\<lparr>vector := set_quantized with_embedder m\<rparr>)"
  using vec_empty_inv [of "set_quantized with_embedder m" emb]
  by (simp add: store_inv_def store_new_def index_new_inv set_quantized_def with_embedder_def)

interpretation store: doc_view "store_insert emb" "store_remove emb" "store_inv emb" store_content icao24 "\<lambda>_. True" for emb
proof unfold_locales
  show "store_inv emb s \<Longrightarrow> finite (dom (store_content s))" for s by (simp add: store_inv_def finite_content)
  show "store_inv emb s \<Longrightarrow> store_content s k = Some d \<Longrightarrow> icao24 d = k" for s k d
    using content_icao24 [of "keyword s" k d] by (simp add: store_inv_def)
qed (use store_insert_spec store_remove_spec in simp_all)

lemma store_insert_all_spec:
  assumes "store_inv emb st"
  shows "\<exists>st'. store_insert_all emb st ds = Some st' \<and> store_inv emb st'
    \<and> store_content st' = foldl (\<lambda>c d. c(icao24 d \<mapsto> d)) (store_content st) ds"
  using assms
proof (induction ds arbitrary: st)
  case (Cons d ds)
  obtain s1 where s1: "store_insert emb st d = Some s1" "store_inv emb s1" "store_content s1 = (store_content st)(icao24 d \<mapsto> d)"
    using store_insert_spec [OF Cons.prems] by blast
  from Cons.IH [OF s1(2)] s1 show ?case by simp
qed simp

lemma store_remove_all_spec:
  assumes "store_inv emb st"
  shows "\<exists>st'. store_remove_all emb st ks = Some st' \<and> store_inv emb st'
    \<and> store_content st' = store_content st |` (- set ks)"
  using assms
proof (induction ks arbitrary: st)
  case (Cons k ks)
  obtain s1 b where s1: "store_remove emb st k = Some (s1, b)" "store_inv emb s1" "store_content s1 = (store_content st)(k := None)"
    using store_remove_spec [OF Cons.prems] by blast
  moreover have "(store_content st)(k := None) |` (- set ks) = store_content st |` (- set (k # ks))"
    by (rule ext) (simp add: restrict_map_def)
  ultimately show ?case using Cons.IH [OF s1(2)] by (simp only: store_remove_all.simps bind.simps case_prod_conv)
qed (simp add: restrict_map_def)

lemma replace_all_spec:
  assumes "store_inv emb st" and "distinct (map icao24 ds)"
  shows "\<exists>st'. replace_all emb st ds = Some st' \<and> store_inv emb st'
    \<and> (\<forall>k d. store_content st' k = Some d \<longleftrightarrow> d \<in> set ds \<and> icao24 d = k)"
proof -
  let ?st = "st\<lparr>keyword := index_new, vector := with_embedder\<rparr>"
  have "store_inv emb ?st"
    using vec_empty_inv [of with_embedder emb] by (simp add: store_inv_def index_new_inv with_embedder_def)
  from store_insert_all_spec [OF this, of ds] show ?thesis
    using puts_distinct [OF assms(2), of Map.empty] by (auto simp: replace_all_def index_new_inv)
qed

lemma doomed_keys_spec:
  assumes "store_inv emb st"
  shows "set (doomed_keys st vshard v) = {k \<in> dom (store_content st). vshard_for k v = vshard}"
    and "length (doomed_keys st vshard v) = card {k \<in> dom (store_content st). vshard_for k v = vshard}"
proof -
  have inv: "index_inv (keyword st)" using assms by (simp add: store_inv_def)
  have "k \<in> set (doomed_keys st vshard v) \<longleftrightarrow> k \<in> dom (store_content st) \<and> vshard_for k v = vshard" for k
  proof -
    have "k \<in> set (doomed_keys st vshard v) \<longleftrightarrow> (\<exists>d \<in> ran (store_content st). icao24 d = k) \<and> vshard_for k v = vshard"
      using documents_content(1) [OF inv] by (auto simp: doomed_keys_def)
    also have "(\<exists>d \<in> ran (store_content st). icao24 d = k) \<longleftrightarrow> k \<in> dom (store_content st)"
      using content_icao24 [OF inv] by (force simp: ran_def)
    finally show ?thesis .
  qed
  then show sets: "set (doomed_keys st vshard v) = {k \<in> dom (store_content st). vshard_for k v = vshard}" by blast
  have "distinct (doomed_keys st vshard v)"
    unfolding doomed_keys_def using documents_content(2) [OF inv] by (rule distinct_map_filter)
  then show "length (doomed_keys st vshard v) = card {k \<in> dom (store_content st). vshard_for k v = vshard}"
    unfolding sets [symmetric] by (simp add: distinct_card)
qed

lemma evict_vshard_spec:
  assumes "store_inv emb st"
  shows "\<exists>st'. evict_vshard emb st vshard v =
      Some (st', if v = 0 then 0 else card {k \<in> dom (store_content st). vshard_for k v = vshard})
    \<and> store_inv emb st'
    \<and> store_content st' = (if v = 0 then store_content st else store_content st |` {k. vshard_for k v \<noteq> vshard})"
proof (cases "v = 0")
  case True
  with assms show ?thesis by (simp add: evict_vshard_def)
next
  case False
  have "store_content st |` (- {k \<in> dom (store_content st). vshard_for k v = vshard}) = store_content st |` {k. vshard_for k v \<noteq> vshard}"
    by (rule ext) (auto simp: restrict_map_def dom_def)
  with False store_remove_all_spec [OF assms, of "doomed_keys st vshard v"] show ?thesis
    by (auto simp: evict_vshard_def doomed_keys_spec [OF assms])
qed

lemma store_run_spec:
  "\<exists>st. view_run (store_insert emb) (store_remove emb) (with_quantized store_new m) ops = Some st
    \<and> store_inv emb st \<and> store_content st = map_run icao24 ops"
proof -
  have ok: "list_all store.op_ok ops" by (simp add: store.op_ok_def list_all_iff split: view_op.split)
  have "with_quantized store_new m = store_new\<lparr>vector := set_quantized with_embedder m\<rparr>"
    by (simp add: with_quantized_def store_new_def)
  with store.run_spec [OF store_new_inv ok, of emb m] show ?thesis by (simp add: store_new_def index_new_inv)
qed

text \<open>
  C11: The two views of a shard cannot diverge: after any sequence of inserts and removals,
  none of which panics or trips the debug assertion, keyword and vector index hold the same
  documents. Evicting a virtual shard then removes from both exactly the documents that hash
  to it, reports how many there were, and with zero virtual shards does nothing.
\<close>

theorem store_lockstep_evict:
  "\<exists>st st'. view_run (store_insert emb) (store_remove emb) (with_quantized store_new m) ops = Some st
    \<and> vec_content (vector st) = index_content (keyword st) \<and> index_content (keyword st) = map_run icao24 ops
    \<and> evict_vshard emb st vshard v =
        Some (st', if v = 0 then 0 else card {k. map_run icao24 ops k \<noteq> None \<and> vshard_for k v = vshard})
    \<and> vec_content (vector st') = index_content (keyword st')
    \<and> index_content (keyword st') = (if v = 0 then map_run icao24 ops else map_run icao24 ops |` {k. vshard_for k v \<noteq> vshard})"
proof -
  obtain st where st: "view_run (store_insert emb) (store_remove emb) (with_quantized store_new m) ops = Some st"
    "store_inv emb st" "store_content st = map_run icao24 ops" using store_run_spec by blast
  have "{k \<in> dom (store_content st). vshard_for k v = vshard} = {k. map_run icao24 ops k \<noteq> None \<and> vshard_for k v = vshard}"
    by (auto simp: st(3))
  with st evict_vshard_spec [OF st(2), of vshard v] show ?thesis by (auto simp: store_inv_def)
qed

text \<open>
  Installing a snapshot turns quantized search off: \<open>replace_all\<close> builds its vector index
  afresh, and the mode the store was configured with is not carried over.
\<close>

theorem replace_all_drops_quantized:
  "\<exists>st'. replace_all emb (with_quantized store_new True) ds = Some st' \<and> \<not> quantized_mode (vector st')"
proof -
  have mode: "quantized_mode (vector t) = quantized_mode (vector s)"
    if "store_inv emb s" "store_insert_all emb s ds = Some t" for s t ds
    using that
  proof (induction ds arbitrary: s)
    case (Cons d ds)
    obtain s1 where s1: "store_insert emb s d = Some s1" "store_inv emb s1"
      using store_insert_spec [OF Cons.prems(1), of d] by blast
    moreover have "quantized_mode (vector s1) = quantized_mode (vector s)"
      using s1(1) vec_insert_spec [of emb "vector s" d] Cons.prems(1)
      by (auto simp: store_insert_def store_inv_def bind_eq_Some_conv)
    ultimately show ?case using Cons by simp
  qed simp
  let ?s = "(with_quantized store_new True)\<lparr>keyword := index_new, vector := with_embedder\<rparr>"
  have "store_inv emb ?s"
    using vec_empty_inv [of with_embedder emb] by (simp add: store_inv_def index_new_inv with_embedder_def)
  from store_insert_all_spec [OF this, of ds] mode [OF this, of ds] show ?thesis
    by (auto simp: replace_all_def with_embedder_def)
qed

end
