(* ===== verification/Doc_Filter.thy ===== *)
theory Doc_Filter
  imports Documents Text_Tokens
begin

text \<open>
  Structured filters (\<open>crates/common/src/filter.rs\<close>): shape validation with its error
  messages, and the test of a document. How a float is printed in a message is the argument
  \<open>show_f64\<close>.
\<close>

section \<open>Data\<close>

datatype filter_test = Equals string | Range "f64 option" "f64 option" | Is bool

record filter_condition =
  fc_field :: string
  fc_test :: "filter_test option"

record filter_msg =
  conditions :: "filter_condition list"

definition TEXT_FIELDS :: "string list" where
  "TEXT_FIELDS = [''callsign'', ''origin'', ''destination'', ''aircraft_type'', ''tenant_id'', ''icao24'']"

definition NUMERIC_FIELDS :: "string list" where
  "NUMERIC_FIELDS = [''altitude'', ''velocity'', ''heading'', ''vertical_rate'', ''latitude'', ''longitude'', ''observed_at'']"

definition BOOL_FIELDS :: "string list" where
  "BOOL_FIELDS = [''on_ground'']"

section \<open>Validation\<close>

abbreviation quote :: "string \<Rightarrow> string" where
  "quote s \<equiv> [CHR 0x27] @ s @ [CHR 0x27]"

definition condition_error :: "(f64 \<Rightarrow> string) \<Rightarrow> filter_condition \<Rightarrow> string option" where
  "condition_error show_f64 c =
     (let field = fc_field c
      in case fc_test c of
           Some (Equals _) \<Rightarrow>
             if field \<in> set NUMERIC_FIELDS \<or> field \<in> set BOOL_FIELDS
             then Some (quote field @ '' is not a text field (equals applies to text/generic fields)'') else None
         | Some (Range lo hi) \<Rightarrow>
             if field \<in> set TEXT_FIELDS \<or> field \<in> set BOOL_FIELDS
             then Some (quote field @ '' is not a numeric field (range applies to numeric/generic fields)'')
             else (case (lo, hi) of
                     (Some mn, Some mx) \<Rightarrow>
                       if f64_lt mx mn then Some (quote field @ '' range has min '' @ show_f64 mn @ '' > max '' @ show_f64 mx)
                       else None
                   | _ \<Rightarrow> None)
         | Some (Is _) \<Rightarrow>
             if field \<notin> set BOOL_FIELDS
             then Some (quote field @ '' is not a boolean field (is applies to: on_ground)'') else None
         | None \<Rightarrow> Some (''condition on '' @ quote field @ '' has no test''))"

fun validate_conditions :: "(f64 \<Rightarrow> string) \<Rightarrow> filter_condition list \<Rightarrow> string + unit" where
  "validate_conditions show_f64 [] = Inr ()"
| "validate_conditions show_f64 (c # cs) =
     (case condition_error show_f64 c of Some e \<Rightarrow> Inl e | None \<Rightarrow> validate_conditions show_f64 cs)"

definition validate :: "(f64 \<Rightarrow> string) \<Rightarrow> filter_msg \<Rightarrow> string + unit" where
  "validate show_f64 f = validate_conditions show_f64 (conditions f)"

section \<open>Evaluation\<close>

definition text_value :: "flight_document \<Rightarrow> string \<Rightarrow> string" where
  "text_value doc field =
     (if field = ''callsign'' then callsign doc
      else if field = ''origin'' then origin doc
      else if field = ''destination'' then destination doc
      else if field = ''aircraft_type'' then aircraft_type doc
      else if field = ''tenant_id'' then tenant_id doc
      else if field = ''icao24'' then icao24 doc
      else (case hm_get (text_fields doc) field of Some v \<Rightarrow> v | None \<Rightarrow> []))"

definition numeric_value :: "flight_document \<Rightarrow> string \<Rightarrow> f64" where
  "numeric_value doc field =
     (if field = ''altitude'' then altitude doc
      else if field = ''velocity'' then velocity doc
      else if field = ''heading'' then heading doc
      else if field = ''vertical_rate'' then vertical_rate doc
      else if field = ''latitude'' then latitude doc
      else if field = ''longitude'' then longitude doc
      else if field = ''observed_at'' then f64_of_int (observed_at doc)
      else (case hm_get (number_fields doc) field of Some v \<Rightarrow> v | None \<Rightarrow> NaN))"

definition condition_holds :: "flight_document \<Rightarrow> filter_condition \<Rightarrow> bool" where
  "condition_holds doc c \<longleftrightarrow>
     (case fc_test c of
        Some (Equals want) \<Rightarrow> eq_ignore_ascii_case (text_value doc (fc_field c)) want
      | Some (Range lo hi) \<Rightarrow>
          (let v = numeric_value doc (fc_field c)
           in (case lo of None \<Rightarrow> True | Some mn \<Rightarrow> f64_le mn v) \<and> (case hi of None \<Rightarrow> True | Some mx \<Rightarrow> f64_le v mx))
      | Some (Is want) \<Rightarrow> on_ground doc = want
      | None \<Rightarrow> False)"

definition passes :: "flight_document \<Rightarrow> filter_msg option \<Rightarrow> bool" where
  "passes doc fo = (case fo of None \<Rightarrow> True | Some f \<Rightarrow> list_all (condition_holds doc) (conditions f))"

section \<open>Properties\<close>

text \<open>The shapes that validation accepts.\<close>

definition well_typed :: "filter_condition \<Rightarrow> bool" where
  "well_typed c \<longleftrightarrow>
     (\<exists>w. fc_test c = Some (Equals w) \<and> fc_field c \<notin> set NUMERIC_FIELDS \<union> set BOOL_FIELDS)
     \<or> (\<exists>lo hi. fc_test c = Some (Range lo hi) \<and> fc_field c \<notin> set TEXT_FIELDS \<union> set BOOL_FIELDS
          \<and> (\<forall>mn mx. lo = Some mn \<longrightarrow> hi = Some mx \<longrightarrow> \<not> f64_lt mx mn))
     \<or> (\<exists>b. fc_test c = Some (Is b) \<and> fc_field c \<in> set BOOL_FIELDS)"

lemma condition_error_None: "condition_error show_f64 c = None \<longleftrightarrow> well_typed c"
  by (auto simp: condition_error_def well_typed_def Let_def split: option.splits filter_test.splits)

lemma validate_first:
  "validate_conditions show_f64 cs =
    (case find (\<lambda>c. condition_error show_f64 c \<noteq> None) cs of None \<Rightarrow> Inr () | Some c \<Rightarrow> Inl (the (condition_error show_f64 c)))"
  by (induction cs) (auto split: option.split)

lemma find_ill_typed: "(\<lambda>c. condition_error show_f64 c \<noteq> None) = (\<lambda>c. \<not> well_typed c)"
  using condition_error_None [of show_f64] by auto

text \<open>The field a message names.\<close>

lemma condition_error_field:
  "condition_error show_f64 c = Some e \<Longrightarrow> \<exists>pre post. e = pre @ quote (fc_field c) @ post"
proof (cases "fc_test c")
  case None
  then show "condition_error show_f64 c = Some e \<Longrightarrow> ?thesis"
    by (intro exI [of _ "''condition on ''"] exI [of _ "'' has no test''"]) (simp add: condition_error_def)
next
  case (Some t)
  then show "condition_error show_f64 c = Some e \<Longrightarrow> ?thesis"
    by (intro exI [of _ "[]"] exI [of _ "drop (length (fc_field c) + 2) e"]) (auto simp: condition_error_def Let_def split: option.splits filter_test.splits if_splits)
qed

text \<open>
  C33: Validation rejects a filter exactly when one of its conditions is ill-typed (a test of
  the wrong kind for a built-in column, an inverted range, a missing test), with a message
  that quotes the field of the first such condition. A filter that validates can still be
  met: a document passes it exactly when every condition holds of it, and a filter with no
  conditions passes everything.
\<close>

theorem filter_validate_exact:
  "(validate show_f64 f = Inr () \<longleftrightarrow> list_all well_typed (conditions f))
    \<and> (\<forall>e. validate show_f64 f = Inl e \<longrightarrow> (\<exists>pre c post quoted1 quoted2. conditions f = pre @ c # post
        \<and> list_all well_typed pre \<and> \<not> well_typed c \<and> e = quoted1 @ quote (fc_field c) @ quoted2))
    \<and> passes doc (Some \<lparr>conditions = []\<rparr>) \<and> passes doc None"
proof (intro conjI allI impI)
  show "validate show_f64 f = Inr () \<longleftrightarrow> list_all well_typed (conditions f)"
    unfolding validate_def validate_first find_ill_typed by (auto simp: list_all_iff find_None_iff find_Some_iff split: option.split)
  fix e assume "validate show_f64 f = Inl e"
  then obtain c where c: "find (\<lambda>c. \<not> well_typed c) (conditions f) = Some c" and e: "e = the (condition_error show_f64 c)"
    unfolding validate_def validate_first find_ill_typed by (auto split: option.splits)
  from c obtain i where i: "i < length (conditions f)" "\<not> well_typed (conditions f ! i)" "c = conditions f ! i"
    "\<forall>j < i. well_typed (conditions f ! j)" unfolding find_Some_iff by auto
  have "conditions f = take i (conditions f) @ c # drop (Suc i) (conditions f)" using i by (simp add: id_take_nth_drop)
  moreover have "list_all well_typed (take i (conditions f))" using i by (auto simp: list_all_length)
  moreover obtain q1 q2 where "e = q1 @ quote (fc_field c) @ q2"
    using condition_error_field [of show_f64 c e] condition_error_None [of show_f64 c] i e by auto
  ultimately show "\<exists>pre c post quoted1 quoted2. conditions f = pre @ c # post
        \<and> list_all well_typed pre \<and> \<not> well_typed c \<and> e = quoted1 @ quote (fc_field c) @ quoted2"
    using i by blast
qed (simp_all add: passes_def)

theorem filter_validate_exact_witness:
  "\<exists>pre c post q1 q2. [\<lparr>fc_field = ''origin'', fc_test = Some (Equals ''SFO'')\<rparr>, \<lparr>fc_field = ''origin'', fc_test = None\<rparr>] = pre @ c # post
    \<and> list_all well_typed pre \<and> \<not> well_typed c \<and> ''condition on '' @ quote ''origin'' @ '' has no test'' = q1 @ quote (fc_field c) @ q2"
  using filter_validate_exact [of "\<lambda>_. []" "\<lparr>conditions = [\<lparr>fc_field = ''origin'', fc_test = Some (Equals ''SFO'')\<rparr>,
    \<lparr>fc_field = ''origin'', fc_test = None\<rparr>]\<rparr>" default_document, THEN conjunct2, THEN conjunct1, rule_format,
    of "''condition on '' @ quote ''origin'' @ '' has no test''"]
  by (simp add: validate_def condition_error_def NUMERIC_FIELDS_def BOOL_FIELDS_def)

end
