(* ===== verification/TDigest.thy ===== *)
theory TDigest
  imports Float64
begin

text \<open>
  The mergeable percentile sketch (\<open>crates/common/src/tdigest.rs\<close>). The sort of the points
  panics on a NaN mean (\<open>partial_cmp(..).unwrap()\<close>): then the operations return \<open>None\<close>. The
  arcsine is the platform's and an argument.
\<close>

section \<open>Operations\<close>

record centroid =
  c_mean :: f64
  c_weight :: f64

record tdigest =
  centroids :: "centroid list"
  buffer :: "f64 list"
  td_count :: f64
  delta :: f64

definition with_delta :: "f64 \<Rightarrow> tdigest" where
  "with_delta d = \<lparr>centroids = [], buffer = [], td_count = fzero, delta = d\<rparr>"

definition tdigest_new :: tdigest where
  "tdigest_new = with_delta (Fin False 100)"

definition td_is_empty :: "tdigest \<Rightarrow> bool" where
  "td_is_empty t \<longleftrightarrow> f64_eq (td_count t) fzero"

definition clamp01 :: "f64 \<Rightarrow> f64" where
  "clamp01 q = (if f64_lt q fzero then fzero else if f64_lt fone q then fone else q)"

definition f64_pi :: f64 where
  "f64_pi = Fin False (884279719003555 / 281474976710656)"

abbreviation ftwo :: f64 where "ftwo \<equiv> Fin False 2"

definition k_scale :: "(f64 \<Rightarrow> f64) \<Rightarrow> f64 \<Rightarrow> f64 \<Rightarrow> f64" where
  "k_scale asin1 d q =
     fmul binary64 (fdiv binary64 d (fmul binary64 ftwo f64_pi))
       (asin1 (fsub binary64 (fmul binary64 ftwo (clamp01 q)) fone))"

text \<open>The greedy clustering loop: \<open>cur\<close> is the open centroid, \<open>cum\<close> the weight before it.\<close>

fun cluster :: "(f64 \<Rightarrow> f64) \<Rightarrow> f64 \<Rightarrow> f64 \<Rightarrow> f64 \<Rightarrow> centroid \<Rightarrow> centroid list \<Rightarrow> centroid list" where
  "cluster asin1 d total1 cum cur [] = [cur]"
| "cluster asin1 d total1 cum cur (p # ps) =
     (let proposed = fadd binary64 (c_weight cur) (c_weight p);
          q_left = fdiv binary64 cum total1;
          q_right = fdiv binary64 (fadd binary64 cum proposed) total1
      in if f64_le (fsub binary64 (k_scale asin1 d q_right) (k_scale asin1 d q_left)) fone then
           cluster asin1 d total1 cum
             \<lparr>c_mean = fdiv binary64 (fadd binary64 (fmul binary64 (c_mean cur) (c_weight cur))
                (fmul binary64 (c_mean p) (c_weight p))) proposed, c_weight = proposed\<rparr> ps
         else cur # cluster asin1 d total1 (fadd binary64 cum (c_weight cur)) p ps)"

definition weight_sum :: "centroid list \<Rightarrow> f64" where
  "weight_sum cs = foldl (\<lambda>s c. fadd binary64 s (c_weight c)) fzero cs"

definition sort_means :: "centroid list \<Rightarrow> centroid list option" where
  "sort_means cs =
     (if 2 \<le> length cs \<and> (\<exists>c \<in> set cs. c_mean c = NaN) then None
      else Some (sort_by (\<lambda>a b. f64_cmp_or_equal (c_mean a) (c_mean b)) cs))"

definition compress :: "(f64 \<Rightarrow> f64) \<Rightarrow> tdigest \<Rightarrow> tdigest option" where
  "compress asin1 t =
     (if buffer t = [] \<and> length (centroids t) \<le> 1 then Some t
      else
        map_option (\<lambda>points.
          (let total1 = weight_sum points
           in if f64_eq total1 fzero then t\<lparr>centroids := [], buffer := [], td_count := fzero\<rparr>
              else t\<lparr>centroids := cluster asin1 (delta t) total1 fzero (hd points) (tl points), buffer := [],
                     td_count := total1\<rparr>))
          (sort_means (centroids t @ map (\<lambda>x. \<lparr>c_mean = x, c_weight = fone\<rparr>) (buffer t))))"

definition td_add :: "(f64 \<Rightarrow> f64) \<Rightarrow> tdigest \<Rightarrow> f64 \<Rightarrow> tdigest option" where
  "td_add asin1 t x =
     (if is_finite x then
        (let t1 = t\<lparr>buffer := buffer t @ [x], td_count := fadd binary64 (td_count t) fone\<rparr>
         in if f64_le (fmul binary64 (delta t) (Fin False 10)) (f64_of_nat (length (buffer t1))) then compress asin1 t1 else Some t1)
      else Some t)"

definition to_parts :: "(f64 \<Rightarrow> f64) \<Rightarrow> tdigest \<Rightarrow> (tdigest \<times> f64 list \<times> f64 list) option" where
  "to_parts asin1 t = map_option (\<lambda>t1. (t1, map c_mean (centroids t1), map c_weight (centroids t1))) (compress asin1 t)"

definition part_centroids :: "f64 list \<Rightarrow> f64 list \<Rightarrow> centroid list" where
  "part_centroids means weights =
     map (\<lambda>(m, w). \<lparr>c_mean = m, c_weight = w\<rparr>) (filter (\<lambda>(m, w). f64_lt fzero w) (zip means weights))"

definition from_parts :: "f64 list \<Rightarrow> f64 list \<Rightarrow> tdigest option" where
  "from_parts means weights =
     (let cs = part_centroids means weights
      in map_option (\<lambda>sorted1. tdigest_new\<lparr>centroids := sorted1, td_count := weight_sum cs\<rparr>) (sort_means cs))"

definition td_merge :: "(f64 \<Rightarrow> f64) \<Rightarrow> tdigest \<Rightarrow> tdigest \<Rightarrow> tdigest option" where
  "td_merge asin1 t other =
     compress asin1
       (t\<lparr>centroids := centroids t @ centroids other, buffer := buffer t @ buffer other,
          td_count := foldl (\<lambda>s _. fadd binary64 s fone)
            (foldl (\<lambda>s c. fadd binary64 s (c_weight c)) (td_count t) (centroids other)) (buffer other)\<rparr>)"

fun quantile_walk :: "f64 \<Rightarrow> bool \<Rightarrow> f64 \<Rightarrow> f64 \<Rightarrow> f64 \<Rightarrow> centroid list \<Rightarrow> f64" where
  "quantile_walk target first acc prev_center prev_mean [] = prev_mean"
| "quantile_walk target first acc prev_center prev_mean (c # cs) =
     (let center = fadd binary64 acc (fdiv binary64 (c_weight c) ftwo)
      in if f64_le target center then
           (if first then c_mean c
            else let t = fdiv binary64 (fsub binary64 target prev_center) (fsub binary64 center prev_center)
                 in fadd binary64 prev_mean (fmul binary64 t (fsub binary64 (c_mean c) prev_mean)))
         else quantile_walk target False (fadd binary64 acc (c_weight c)) center (c_mean c) cs)"

definition quantile :: "tdigest \<Rightarrow> f64 \<Rightarrow> f64" where
  "quantile t q =
     (case centroids t of
        [] \<Rightarrow> NaN
      | [c] \<Rightarrow> c_mean c
      | c # cs \<Rightarrow> quantile_walk (fmul binary64 (clamp01 q) (td_count t)) True fzero fzero (c_mean c) (c # cs))"

section \<open>Weights are exact counts\<close>

text \<open>
  Below \<open>2^53\<close> samples every weight is a positive whole number and every sum of weights is
  exact: \<open>weights cs n\<close> says that the centroids weigh \<open>n\<close> samples together.
\<close>

definition fnat :: "nat \<Rightarrow> f64" where
  "fnat n = Fin False (of_nat n)"

definition wnat :: "centroid \<Rightarrow> nat" where
  "wnat c = nat \<lfloor>fval (c_weight c)\<rfloor>"

definition whole :: "centroid \<Rightarrow> bool" where
  "whole c \<longleftrightarrow> c_weight c = fnat (wnat c) \<and> 0 < wnat c"

definition weights :: "centroid list \<Rightarrow> nat \<Rightarrow> bool" where
  "weights cs n \<longleftrightarrow> list_all whole cs \<and> n = sum_list (map wnat cs)"

lemma wnat_fnat: "c_weight c = fnat w \<Longrightarrow> wnat c = w"
  by (simp add: wnat_def fnat_def)

lemma whole_fnat: "c_weight c = fnat w \<Longrightarrow> 0 < w \<Longrightarrow> whole c \<and> wnat c = w"
  using wnat_fnat [of c w] by (simp add: whole_def)

lemma fadd_nat: "a + b < 2 ^ 53 \<Longrightarrow> fadd binary64 (fnat a) (fnat b) = fnat (a + b)"
  using fround_dyadic [of "of_nat (a + b)" "a + b" 0] by (simp add: fnat_def)

lemma fnat_consts: "fzero = fnat 0" "fone = fnat 1"
  by (simp_all add: fnat_def)

lemma fnat_eq_zero [simp]: "f64_eq (fnat n) fzero \<longleftrightarrow> n = 0"
  by (simp add: fnat_def f64_eq_def)

lemma weights_simps [simp]:
  "weights [] n \<longleftrightarrow> n = 0"
  "weights (c # cs) n \<longleftrightarrow> whole c \<and> wnat c \<le> n \<and> weights cs (n - wnat c)"
  by (auto simp: weights_def)

lemma weights_append: "weights xs m \<Longrightarrow> weights ys n \<Longrightarrow> weights (xs @ ys) (m + n)"
  by (auto simp: weights_def)

lemma weights_perm: "mset xs = mset ys \<Longrightarrow> weights xs n \<Longrightarrow> weights ys n"
  unfolding weights_def list_all_iff by (metis mset_eq_setD mset_map sum_mset_sum_list)

lemma weight_fold:
  "weights cs n \<Longrightarrow> a + n < 2 ^ 53 \<Longrightarrow> foldl (\<lambda>s c. fadd binary64 s (c_weight c)) (fnat a) cs = fnat (a + n)"
proof (induction cs arbitrary: a n)
  case (Cons c cs)
  then have "fadd binary64 (fnat a) (c_weight c) = fnat (a + wnat c)"
    using fadd_nat [of a "wnat c"] by (auto simp: whole_def)
  with Cons.IH [of "n - wnat c" "a + wnat c"] Cons.prems show ?case by simp
qed simp

lemma weight_sum_exact: "weights cs n \<Longrightarrow> n < 2 ^ 53 \<Longrightarrow> weight_sum cs = fnat n"
  using weight_fold [of cs n 0] by (simp add: weight_sum_def fnat_def)

lemma count_fold: "a + length xs < 2 ^ 53 \<Longrightarrow> foldl (\<lambda>s _. fadd binary64 s fone) (fnat a) xs = fnat (a + length xs)"
proof (induction xs arbitrary: a)
  case (Cons x xs)
  then show ?case using fadd_nat [of a 1] Cons.IH [of "a + 1"] by (simp add: fnat_consts)
qed simp

lemma cluster_weights:
  assumes "weights (cur # ps) n" and "n < 2 ^ 53"
  shows "weights (cluster asin1 d total1 cum cur ps) n"
  using assms
proof (induction asin1 d total1 cum cur ps arbitrary: n rule: cluster.induct)
  case (2 asin1 d total1 cum cur p ps)
  let ?w = "wnat cur + wnat p"
  have sum: "fadd binary64 (c_weight cur) (c_weight p) = fnat ?w"
    using fadd_nat [of "wnat cur" "wnat p"] 2(3,4) by (auto simp: whole_def)
  let ?join = "\<lparr>c_mean = fdiv binary64 (fadd binary64 (fmul binary64 (c_mean cur) (c_weight cur))
    (fmul binary64 (c_mean p) (c_weight p))) (fnat ?w), c_weight = fnat ?w\<rparr>"
  have "0 < ?w" using 2(3) by (simp add: whole_def)
  then have "whole ?join \<and> wnat ?join = ?w" by (intro whole_fnat) simp_all
  then have "weights (?join # ps) n" using 2(3) by auto
  with 2 sum show ?case by (auto simp: Let_def)
qed simp

text \<open>A digest that holds \<open>n\<close> samples.\<close>

definition holds :: "tdigest \<Rightarrow> nat \<Rightarrow> bool" where
  "holds t n \<longleftrightarrow> length (buffer t) \<le> n \<and> weights (centroids t) (n - length (buffer t)) \<and> td_count t = fnat n"

lemma sort_means_perm: "sort_means cs = Some cs' \<Longrightarrow> mset cs' = mset cs"
  by (auto simp: sort_means_def split: if_splits)

lemma singletons_weights: "weights (map (\<lambda>x. \<lparr>c_mean = x, c_weight = fone\<rparr>) xs) (length xs)"
proof (induction xs)
  case (Cons x xs)
  have "whole \<lparr>c_mean = x, c_weight = fone\<rparr> \<and> wnat \<lparr>c_mean = x, c_weight = fone\<rparr> = 1"
    by (rule whole_fnat) (simp_all add: fnat_consts)
  with Cons show ?case by simp
qed simp

lemma compress_weights:
  assumes "compress asin1 t = Some t'" and "length (buffer t) \<le> n" and "weights (centroids t) (n - length (buffer t))"
    and "buffer t = [] \<and> length (centroids t) \<le> 1 \<Longrightarrow> td_count t = fnat n" and "n < 2 ^ 53"
  shows "holds t' n \<and> buffer t' = []"
proof (cases "buffer t = [] \<and> length (centroids t) \<le> 1")
  case True
  with assms show ?thesis by (simp add: compress_def holds_def)
next
  case False
  let ?pts = "centroids t @ map (\<lambda>x. \<lparr>c_mean = x, c_weight = fone\<rparr>) (buffer t)"
  obtain points where points: "sort_means ?pts = Some points"
    and t': "t' = (let total1 = weight_sum points
           in if f64_eq total1 fzero then t\<lparr>centroids := [], buffer := [], td_count := fzero\<rparr>
              else t\<lparr>centroids := cluster asin1 (delta t) total1 fzero (hd points) (tl points), buffer := [],
                     td_count := total1\<rparr>)"
    using False assms(1) by (auto simp: compress_def)
  have "weights ?pts n"
    using weights_append [of "centroids t" "n - length (buffer t)"] singletons_weights [of "buffer t"] assms(2,3)
    by (metis le_add_diff_inverse2)
  then have w: "weights points n" using sort_means_perm [OF points] weights_perm by metis
  moreover have "points \<noteq> []" using sort_means_perm [OF points] False by auto
  ultimately have "weights (cluster asin1 (delta t) (weight_sum points) fzero (hd points) (tl points)) n"
    using cluster_weights [of "hd points" "tl points" n] assms(5) by (metis list.collapse)
  with w assms(5) show ?thesis
    by (cases "n = 0") (simp_all add: t' Let_def holds_def weight_sum_exact, simp add: fnat_consts)
qed

lemma tdigest_new_holds: "holds tdigest_new 0"
  by (simp add: holds_def tdigest_new_def with_delta_def fnat_consts)

lemma td_add_holds:
  assumes "td_add asin1 t x = Some t'" and "holds t n" and "n + 1 < 2 ^ 53"
  shows "holds t' (if is_finite x then n + 1 else n)"
proof (cases "is_finite x")
  case True
  let ?t = "t\<lparr>buffer := buffer t @ [x], td_count := fadd binary64 (td_count t) fone\<rparr>"
  have "fadd binary64 (fnat n) fone = fnat (n + 1)" using fadd_nat [of n 1] assms(3) by (simp add: fnat_consts)
  then have t: "holds ?t (n + 1)" using assms(2) by (simp add: holds_def)
  show ?thesis
  proof (cases "t' = ?t")
    case True
    with t \<open>is_finite x\<close> show ?thesis by simp
  next
    case False
    then have "compress asin1 ?t = Some t'" using assms(1) \<open>is_finite x\<close> by (auto simp: td_add_def Let_def split: if_splits)
    from compress_weights [OF this, of "n + 1"] t assms(3) \<open>is_finite x\<close> show ?thesis by (auto simp: holds_def)
  qed
qed (use assms in \<open>simp add: td_add_def\<close>)

lemma td_merge_holds:
  assumes "td_merge asin1 t u = Some t'" and t: "holds t m" and u: "holds u n" and lt: "m + n < 2 ^ 53"
  shows "holds t' (m + n) \<and> buffer t' = []"
proof -
  have cu: "weights (centroids u) (n - length (buffer u))" "length (buffer u) \<le> n" using u by (auto simp: holds_def)
  have "foldl (\<lambda>s c. fadd binary64 s (c_weight c)) (td_count t) (centroids u) = fnat (m + (n - length (buffer u)))"
    using weight_fold [OF cu(1), of m] t lt by (simp add: holds_def)
  then have count: "foldl (\<lambda>s _. fadd binary64 s fone)
      (foldl (\<lambda>s c. fadd binary64 s (c_weight c)) (td_count t) (centroids u)) (buffer u) = fnat (m + n)"
    using count_fold [of "m + (n - length (buffer u))" "buffer u"] cu(2) lt by simp
  have w: "weights (centroids t @ centroids u) (m + n - length (buffer t @ buffer u))"
    using weights_append [of "centroids t" "m - length (buffer t)" "centroids u" "n - length (buffer u)"] t cu
    by (auto simp: holds_def)
  show ?thesis
    by (rule compress_weights [OF assms(1) [unfolded td_merge_def]]) (use w count t cu(2) lt in \<open>auto simp: holds_def\<close>)
qed

lemma from_parts_holds:
  assumes "holds t n" and "buffer t = []" and "n < 2 ^ 53"
    and "from_parts (map c_mean (centroids t)) (map c_weight (centroids t)) = Some t'"
  shows "holds t' n"
proof -
  have "part_centroids (map c_mean cs) (map c_weight cs) = cs" if "weights cs k" for cs k
    using that
  proof (induction cs arbitrary: k)
    case (Cons c cs)
    have "f64_lt fzero (fnat (wnat c)) \<longleftrightarrow> 0 < wnat c" by (simp add: fnat_def f64_lt_def)
    then have "f64_lt fzero (c_weight c)" using Cons.prems by (auto simp: whole_def)
    with Cons show ?case by (auto simp: part_centroids_def)
  qed (simp add: part_centroids_def)
  then have cs: "part_centroids (map c_mean (centroids t)) (map c_weight (centroids t)) = centroids t"
    and w: "weights (centroids t) n" using assms(1,2) by (auto simp: holds_def)
  obtain cs' where "sort_means (centroids t) = Some cs'" and t': "t' = tdigest_new\<lparr>centroids := cs', td_count := weight_sum (centroids t)\<rparr>"
    using assms(4) by (auto simp: from_parts_def cs Let_def)
  then have "weights cs' n" using sort_means_perm weights_perm w by metis
  then show ?thesis using w assms(3) by (simp add: t' holds_def weight_sum_exact tdigest_new_def with_delta_def)
qed

end
