(* ===== verification/Fanout.thy ===== *)
theory Fanout
  imports Documents Text_Tokens
begin

text \<open>
  Scatter-gather merging (\<open>crates/coordinator/src/fanout.rs\<close>): the global ranking of hits,
  deduplication by aircraft keeping the freshest observation, the merged response with its
  manifest, and the progressive merge that a streaming search folds shard by shard. The
  order in which the deduplication's hash map is drained is the argument \<open>ord\<close>.
\<close>

section \<open>Ranking and deduplication\<close>

definition icao24_of :: "search_hit \<Rightarrow> string" where
  "icao24_of hit = (case hit_document hit of None \<Rightarrow> [] | Some d \<Rightarrow> icao24 d)"

definition cmp_hits :: "search_hit \<Rightarrow> search_hit \<Rightarrow> ordering" where
  "cmp_hits a b =
     ord_then (f64_cmp_or_equal (hit_score b) (hit_score a)) (cmp_lin (icao24_of a) (icao24_of b))"

definition hit_time :: "search_hit \<Rightarrow> int" where
  "hit_time hit = (case hit_document hit of None \<Rightarrow> 0 | Some d \<Rightarrow> observed_at d)"

definition supersedes :: "search_hit \<Rightarrow> search_hit \<Rightarrow> bool" where
  "supersedes a b \<longleftrightarrow> hit_time a > hit_time b
     \<or> hit_time a = hit_time b \<and> f64_lt (hit_score b) (hit_score a)"

definition dedup_step ::
  "(string, search_hit) hashmap \<Rightarrow> search_hit \<Rightarrow> (string, search_hit) hashmap" where
  "dedup_step best hit =
     (let key = icao24_of hit in
      case hm_get best key of
        Some existing \<Rightarrow> if \<not> supersedes hit existing then best else hm_insert key hit best
      | None \<Rightarrow> hm_insert key hit best)"

definition dedup_by_aircraft ::
  "(search_hit list \<Rightarrow> search_hit list) \<Rightarrow> search_hit list \<Rightarrow> search_hit list" where
  "dedup_by_aircraft ord hits = ord (hm_values (foldl dedup_step [] hits))"

section \<open>Manifest and merge\<close>

definition max_or :: "int \<Rightarrow> int list \<Rightarrow> int" where
  "max_or d xs = (if xs = [] then d else Max (set xs))"

definition min_or :: "int \<Rightarrow> int list \<Rightarrow> int" where
  "min_or d xs = (if xs = [] then d else Min (set xs))"

definition observed_times :: "search_hit list \<Rightarrow> int list" where
  "observed_times hits = filter (\<lambda>t. t > 0) (map prov_observed_at (List.map_filter hit_prov hits))"

definition build_manifest ::
  "search_hit list \<Rightarrow> u32 \<Rightarrow> u32 \<Rightarrow> omitted_shard list \<Rightarrow> u32 \<Rightarrow> u64 \<Rightarrow> u64 \<Rightarrow> query_manifest" where
  "build_manifest hits shards_queried shards_answered omitted deduped placement_version elapsed_ms =
     \<lparr>m_shards_queried = shards_queried, m_shards_answered = shards_answered,
      m_omitted = omitted, m_deduped = deduped,
      m_freshest = max_or 0 (observed_times hits), m_stalest = min_or 0 (observed_times hits),
      m_elapsed_ms = elapsed_ms, m_placement_version = placement_version\<rparr>"

record fanout =
  responses :: "search_response list"
  omitted :: "omitted_shard list"

definition merge_search_responses ::
  "(search_hit list \<Rightarrow> search_hit list) \<Rightarrow> fanout \<Rightarrow> nat \<Rightarrow> u32 \<Rightarrow> u64 \<Rightarrow> u64 \<Rightarrow> search_response" where
  "merge_search_responses ord fo limit shards_queried placement_version elapsed_ms =
     (let shards_answered = of_len (responses fo);
          total_matched = foldl (\<lambda>t r. t + resp_total_matched r) 0 (responses fo);
          all_hits = concat (map resp_hits (responses fo));
          deduped_hits = dedup_by_aircraft ord all_hits;
          deduped = word_of_nat (length all_hits - length deduped_hits);
          hits = truncate_limit limit (sort_by cmp_hits deduped_hits)
      in \<lparr>resp_hits = hits, resp_total_matched = total_matched, resp_shard_id = ''coordinator'',
          resp_shards_queried = shards_queried, resp_shards_answered = shards_answered,
          resp_manifest = Some (build_manifest hits shards_queried shards_answered
            (omitted fo) deduped placement_version elapsed_ms)\<rparr>)"

section \<open>Progressive merge\<close>

record progressive_merge =
  pm_limit :: nat
  pm_hits :: "search_hit list"
  pm_total_matched :: u64
  pm_shards_answered :: u32
  pm_shards_queried :: u32
  pm_omitted :: "omitted_shard list"
  pm_deduped :: u32
  pm_placement_version :: u64

record search_update =
  upd_hits :: "search_hit list"
  upd_total_matched :: u64
  upd_shards_answered :: u32
  upd_shards_queried :: u32
  upd_complete :: bool
  upd_manifest :: "query_manifest option"

definition pm_new :: "u32 \<Rightarrow> nat \<Rightarrow> u64 \<Rightarrow> progressive_merge" where
  "pm_new shards_queried limit placement_version =
     \<lparr>pm_limit = limit, pm_hits = [], pm_total_matched = 0, pm_shards_answered = 0,
      pm_shards_queried = shards_queried, pm_omitted = [], pm_deduped = 0,
      pm_placement_version = placement_version\<rparr>"

definition pm_omit :: "progressive_merge \<Rightarrow> omitted_shard \<Rightarrow> progressive_merge" where
  "pm_omit pm o1 = pm\<lparr>pm_omitted := pm_omitted pm @ [o1]\<rparr>"

definition pm_add ::
  "(search_hit list \<Rightarrow> search_hit list) \<Rightarrow> progressive_merge \<Rightarrow> search_response \<Rightarrow> progressive_merge" where
  "pm_add ord pm resp =
     (let extended = pm_hits pm @ resp_hits resp;
          deduped_hits = dedup_by_aircraft ord extended
      in pm\<lparr>pm_shards_answered := pm_shards_answered pm + 1,
            pm_total_matched := pm_total_matched pm + resp_total_matched resp,
            pm_deduped := pm_deduped pm + word_of_nat (length extended - length deduped_hits),
            pm_hits := truncate_limit (pm_limit pm) (sort_by cmp_hits deduped_hits)\<rparr>)"

definition pm_snapshot :: "progressive_merge \<Rightarrow> bool \<Rightarrow> u64 \<Rightarrow> search_update" where
  "pm_snapshot pm final elapsed_ms =
     \<lparr>upd_hits = pm_hits pm, upd_total_matched = pm_total_matched pm,
      upd_shards_answered = pm_shards_answered pm, upd_shards_queried = pm_shards_queried pm,
      upd_complete = final,
      upd_manifest =
        (if final then Some (build_manifest (pm_hits pm) (pm_shards_queried pm)
           (pm_shards_answered pm) (pm_omitted pm) (pm_deduped pm) (pm_placement_version pm)
           elapsed_ms) else None)\<rparr>"

section \<open>Scatter and gather\<close>

text \<open>
  The network is a parameter: what a call to an address with a request ends in. A task that
  panics is dropped by the gathering loop. \<open>sched\<close> is the order in which the tasks complete.
\<close>

datatype 'r rpc_outcome = Answered 'r | Unreachable | TimedOut | Panicked

definition shard_timeout :: "string option \<Rightarrow> nat" where
  "shard_timeout env = (case Option.bind env (parse_unsigned 64) of Some ms \<Rightarrow> ms | None \<Rightarrow> 2000)"

definition omitted_shard_of :: "string \<Rightarrow> string \<Rightarrow> omitted_shard" where
  "omitted_shard_of address reason = \<lparr>omitted_address = address, omitted_reason = reason\<rparr>"

definition query_leader ::
  "(string \<Rightarrow> 'q \<Rightarrow> 'r rpc_outcome) \<Rightarrow> string \<Rightarrow> 'q \<Rightarrow> (omitted_shard + 'r) option" where
  "query_leader net addr req =
     (case net addr req of
        Answered resp \<Rightarrow> Some (Inr resp)
      | Unreachable \<Rightarrow> Some (Inl (omitted_shard_of addr ''unreachable''))
      | TimedOut \<Rightarrow> Some (Inl (omitted_shard_of addr ''timeout''))
      | Panicked \<Rightarrow> None)"

definition gather_step ::
  "fanout \<Rightarrow> (omitted_shard + search_response) option \<Rightarrow> fanout" where
  "gather_step fo joined =
     (case joined of
        Some (Inr resp) \<Rightarrow> fo\<lparr>responses := responses fo @ [resp]\<rparr>
      | Some (Inl o1) \<Rightarrow> fo\<lparr>omitted := omitted fo @ [o1]\<rparr>
      | None \<Rightarrow> fo)"

definition scatter_gather ::
  "(string \<Rightarrow> 'q \<Rightarrow> search_response rpc_outcome) \<Rightarrow> (string list \<Rightarrow> string list) \<Rightarrow>
    string list \<Rightarrow> 'q \<Rightarrow> fanout" where
  "scatter_gather net sched leaders request =
     foldl gather_step \<lparr>responses = [], omitted = []\<rparr>
       (map (\<lambda>addr. query_leader net addr request) (sched leaders))"

section \<open>The ranking is a total preorder on hits with a comparable score\<close>

abbreviation scored :: "search_hit set" where
  "scored \<equiv> {h. hit_score h \<noteq> NaN}"

lemma cmp_hits_not_Greater:
  assumes "a \<in> scored" and "b \<in> scored"
  shows "cmp_hits a b \<noteq> Greater \<longleftrightarrow>
    f64_lt (hit_score b) (hit_score a) \<or>
    f64_eq (hit_score b) (hit_score a) \<and> icao24_of a \<le> icao24_of b"
  using assms by (auto simp: cmp_hits_def ord_then_not_Greater f64_cmp_iff not_less)

lemma cmp_hits_Equal:
  assumes "a \<in> scored" and "b \<in> scored"
  shows "cmp_hits a b = Equal \<longleftrightarrow> f64_eq (hit_score b) (hit_score a) \<and> icao24_of a = icao24_of b"
  using assms by (simp add: cmp_hits_def f64_cmp_iff)

interpretation ranking: comparator cmp_hits scored
proof unfold_locales
  fix x y :: search_hit
  show "cmp_hits y x = ord_reverse (cmp_hits x y)"
    by (simp add: cmp_hits_def f64_cmp_flip [of "hit_score x"] cmp_lin_flip)
next
  fix x y z :: search_hit
  assume "x \<in> scored" "y \<in> scored" "z \<in> scored"
    and "cmp_hits x y \<noteq> Greater" "cmp_hits y z \<noteq> Greater"
  then show "cmp_hits x z \<noteq> Greater"
    by (simp add: cmp_hits_not_Greater) (auto simp: f64_lt_def f64_eq_def)
qed

section \<open>What deduplication keeps\<close>

lemma supersedes_irrefl: "\<not> supersedes a a"
  by (simp add: supersedes_def f64_lt_def)

lemma not_supersedes_chain:
  assumes "supersedes x e" and "\<not> supersedes h e"
    and "x \<in> scored" and "e \<in> scored" and "h \<in> scored"
  shows "\<not> supersedes h x"
  using assms by (auto simp: supersedes_def f64_lt_def)

text \<open>
  Invariant of the fold over the hits seen so far: every key holds a hit of that key that
  no hit seen with the key supersedes.
\<close>

definition dedup_inv :: "(string, search_hit) hashmap \<Rightarrow> search_hit set \<Rightarrow> bool" where
  "dedup_inv best seen \<longleftrightarrow> hm_wf best
     \<and> (\<forall>k h. hm_get best k = Some h \<longrightarrow> h \<in> seen \<and> icao24_of h = k)
     \<and> (\<forall>h \<in> seen. \<exists>h'. hm_get best (icao24_of h) = Some h' \<and> (h' \<in> scored \<longrightarrow> h \<in> scored \<longrightarrow> \<not> supersedes h h'))"

lemma dedup_step_inv:
  assumes inv: "dedup_inv best seen" and sc: "insert x seen \<subseteq> scored"
  shows "dedup_inv (dedup_step best x) (insert x seen)"
proof (cases "hm_get best (icao24_of x)")
  case None
  then have "\<forall>h \<in> seen. icao24_of h \<noteq> icao24_of x" using inv by (auto simp: dedup_inv_def)
  with None inv show ?thesis
    by (auto simp: dedup_inv_def dedup_step_def hashmap_simps supersedes_irrefl)
next
  case (Some e)
  have e: "e \<in> seen" "icao24_of e = icao24_of x" using inv Some by (auto simp: dedup_inv_def)
  show ?thesis
  proof (cases "supersedes x e")
    case False
    with Some inv show ?thesis by (auto simp: dedup_inv_def dedup_step_def)
  next
    case True
    have "\<not> supersedes h x" if "h \<in> seen" "icao24_of h = icao24_of x" for h
    proof (rule not_supersedes_chain [OF True])
      show "\<not> supersedes h e" using that inv Some sc e by (fastforce simp: dedup_inv_def)
    qed (use that e sc in auto)
    with True Some inv show ?thesis
      by (auto simp: dedup_inv_def dedup_step_def hashmap_simps supersedes_irrefl)
  qed
qed

lemma dedup_fold_inv:
  "dedup_inv best seen \<Longrightarrow> seen \<union> set hits \<subseteq> scored \<Longrightarrow>
    dedup_inv (foldl dedup_step best hits) (seen \<union> set hits)"
proof (induction hits arbitrary: best seen)
  case Nil
  then show ?case by simp
next
  case (Cons x hits)
  then have "dedup_inv (dedup_step best x) (insert x seen)" by (simp add: dedup_step_inv)
  from Cons.IH [OF this] Cons.prems show ?case by simp
qed

lemma dedup_inv_Nil: "dedup_inv [] {}"
  by (simp add: dedup_inv_def)

lemma dedup_fold_wf: "hm_wf best \<Longrightarrow> hm_wf (foldl dedup_step best hits)"
  by (induction hits arbitrary: best)
    (auto simp: dedup_step_def Let_def hashmap_simps split: option.split)

text \<open>Every stored hit sits under its own key, whatever the scores.\<close>

lemma dedup_fold_keys:
  assumes "\<forall>(k, h) \<in> set best. icao24_of h = k \<and> h \<in> S" and "hm_wf best" and "set hits \<subseteq> S"
  shows "\<forall>(k, h) \<in> set (foldl dedup_step best hits). icao24_of h = k \<and> h \<in> S"
  using assms
proof (induction hits arbitrary: best)
  case (Cons x hits)
  have "\<forall>(k, h) \<in> set (dedup_step best x). icao24_of h = k \<and> h \<in> S"
    using Cons.prems by (auto simp: dedup_step_def Let_def hm_mem_insert split: option.splits if_splits)
  moreover have "hm_wf (dedup_step best x)"
    using dedup_fold_wf [of best "[x]"] Cons.prems(2) by simp
  ultimately show ?case using Cons by simp
qed simp

lemma dedup_values:
  "distinct (map icao24_of (hm_values (foldl dedup_step [] hits)))"
  "set (hm_values (foldl dedup_step [] hits)) \<subseteq> set hits"
proof -
  have keys: "\<forall>(k, h) \<in> set (foldl dedup_step [] hits). icao24_of h = k \<and> h \<in> set hits"
    by (rule dedup_fold_keys) auto
  then have eq: "map icao24_of (hm_values (foldl dedup_step [] hits)) = map fst (foldl dedup_step [] hits)"
    by auto
  show "distinct (map icao24_of (hm_values (foldl dedup_step [] hits)))"
    unfolding eq by (rule dedup_fold_wf) simp
  show "set (hm_values (foldl dedup_step [] hits)) \<subseteq> set hits"
    using keys by auto
qed

lemma dedup_distinct:
  "iteration_order ord \<Longrightarrow> distinct (map icao24_of (dedup_by_aircraft ord hits))"
proof -
  assume "iteration_order ord"
  then have "mset (map icao24_of (dedup_by_aircraft ord hits))
      = mset (map icao24_of (hm_values (foldl dedup_step [] hits)))"
    unfolding dedup_by_aircraft_def mset_map by (simp add: iteration_order_mset)
  then show ?thesis using dedup_values(1) mset_eq_imp_distinct_iff by blast
qed

lemma dedup_subset: "iteration_order ord \<Longrightarrow> set (dedup_by_aircraft ord hits) \<subseteq> set hits"
  using dedup_values(2) [of hits] by (simp add: dedup_by_aircraft_def iteration_order_set)

lemma dedup_length: "iteration_order ord \<Longrightarrow> length (dedup_by_aircraft ord hits) \<le> length hits"
proof -
  assume "iteration_order ord"
  then have "card (set (dedup_by_aircraft ord hits)) = length (dedup_by_aircraft ord hits)"
    using dedup_distinct by (meson distinct_card distinct_map)
  with dedup_subset [OF \<open>iteration_order ord\<close>, of hits] show ?thesis
    by (metis List.finite_set card_length card_mono le_trans)
qed

text \<open>Every aircraft stays represented, by a hit none of its hits supersedes.\<close>

lemma dedup_keeps_freshest:
  assumes ord: "iteration_order ord" and sc: "set hits \<subseteq> scored" and h: "h \<in> set hits"
  obtains h' where "h' \<in> set (dedup_by_aircraft ord hits)" and "icao24_of h' = icao24_of h"
    and "\<not> supersedes h h'"
proof -
  have "dedup_inv (foldl dedup_step [] hits) (set hits)"
    using dedup_fold_inv [OF dedup_inv_Nil, of hits] sc by simp
  then obtain h' where get: "hm_get (foldl dedup_step [] hits) (icao24_of h) = Some h'"
    and "h' \<in> set hits" "icao24_of h' = icao24_of h" "\<not> supersedes h h'"
    using h sc unfolding dedup_inv_def by blast
  moreover have "h' \<in> set (dedup_by_aircraft ord hits)"
    using map_of_SomeD [OF get] by (force simp: dedup_by_aircraft_def iteration_order_set [OF ord])
  ultimately show ?thesis using that by blast
qed

definition ties_identical :: "search_hit set \<Rightarrow> bool" where
  "ties_identical H \<longleftrightarrow> (\<forall>a \<in> H. \<forall>b \<in> H. icao24_of a = icao24_of b \<longrightarrow>
     hit_time a = hit_time b \<longrightarrow> f64_eq (hit_score a) (hit_score b) \<longrightarrow> a = b)"

lemma not_supersedes_tie:
  "a \<in> scored \<Longrightarrow> b \<in> scored \<Longrightarrow> \<not> supersedes a b \<Longrightarrow> \<not> supersedes b a \<Longrightarrow>
    hit_time a = hit_time b \<and> f64_eq (hit_score a) (hit_score b)"
  by (auto simp: supersedes_def f64_lt_def f64_eq_def)

lemma set_dedup:
  assumes ord: "iteration_order ord" and sc: "set hits \<subseteq> scored" and ties: "ties_identical (set hits)"
  shows "set (dedup_by_aircraft ord hits)
    = {h \<in> set hits. \<forall>g \<in> set hits. icao24_of g = icao24_of h \<longrightarrow> \<not> supersedes g h}"
    (is "?D = ?B")
proof
  show "?D \<subseteq> ?B"
  proof
    fix h assume h: "h \<in> ?D"
    have "\<not> supersedes g h" if g: "g \<in> set hits" "icao24_of g = icao24_of h" for g
    proof -
      obtain h' where h': "h' \<in> ?D" "icao24_of h' = icao24_of g" "\<not> supersedes g h'"
        using dedup_keeps_freshest [OF ord sc g(1)] .
      then have "h' = h"
        using dedup_distinct [OF ord, of hits] h g(2) by (metis distinct_map inj_on_contraD)
      with h' show ?thesis by simp
    qed
    with h dedup_subset [OF ord] show "h \<in> ?B" by blast
  qed
next
  show "?B \<subseteq> ?D"
  proof
    fix h assume h: "h \<in> ?B"
    then obtain h' where h': "h' \<in> ?D" "icao24_of h' = icao24_of h" "\<not> supersedes h h'"
      using dedup_keeps_freshest [OF ord sc, of h] by blast
    have "h' \<in> set hits" using h'(1) dedup_subset [OF ord] by blast
    then have "hit_time h = hit_time h'" "f64_eq (hit_score h) (hit_score h')"
      using h h' sc not_supersedes_tie [of h h'] by auto
    then have "h = h'"
      using h h'(2) \<open>h' \<in> set hits\<close> ties by (simp add: ties_identical_def)
    with h' show "h \<in> ?D" by simp
  qed
qed

lemma mset_dedup_cong:
  assumes "iteration_order ord" "iteration_order ord'" and "set hits = set hits'"
    and "set hits \<subseteq> scored" and "ties_identical (set hits)"
  shows "mset (dedup_by_aircraft ord hits) = mset (dedup_by_aircraft ord' hits')"
proof -
  have "set (dedup_by_aircraft ord hits) = set (dedup_by_aircraft ord' hits')"
    using assms by (simp add: set_dedup)
  moreover have "distinct (dedup_by_aircraft ord hits)" "distinct (dedup_by_aircraft ord' hits')"
    using dedup_distinct assms(1,2) distinct_map by blast+
  ultimately show ?thesis by (simp add: set_eq_iff_mset_eq_distinct)
qed

text \<open>Ranking a list with at most one hit per aircraft does not depend on its order.\<close>

lemma rank_cong:
  assumes "mset xs = mset ys" and "set xs \<subseteq> scored" and "distinct (map icao24_of xs)"
  shows "sort_by cmp_hits xs = sort_by cmp_hits ys"
proof (rule ranking.sort_unique [OF assms(1,2)])
  fix a b assume "a \<in> set xs" "b \<in> set xs" "cmp_hits a b = Equal"
  then have "icao24_of a = icao24_of b" using assms(2) cmp_hits_Equal [of a b] by blast
  with \<open>a \<in> set xs\<close> \<open>b \<in> set xs\<close> assms(3) show "a = b" by (metis distinct_map inj_onD)
qed

lemma rank_dedup_cong:
  assumes "iteration_order ord" "iteration_order ord'" and "set hits = set hits'"
    and "set hits \<subseteq> scored" and "ties_identical (set hits)"
  shows "sort_by cmp_hits (dedup_by_aircraft ord hits) = sort_by cmp_hits (dedup_by_aircraft ord' hits')"
  using mset_dedup_cong [OF assms] dedup_subset [OF assms(1)] dedup_distinct [OF assms(1)] assms(4)
  by (intro rank_cong) blast+

section \<open>The merged answer\<close>

text \<open>The reference: per aircraft, the hits that no other hit of the aircraft supersedes.\<close>

definition freshest_hits :: "search_hit set \<Rightarrow> search_hit set" where
  "freshest_hits H = {h \<in> H. \<forall>g \<in> H. icao24_of g = icao24_of h \<longrightarrow> \<not> supersedes g h}"

abbreviation all_hits :: "search_response list \<Rightarrow> search_hit list" where
  "all_hits rs \<equiv> concat (map resp_hits rs)"

lemma merge_hits [simp]:
  "resp_hits (merge_search_responses ord fo limit q v e)
    = truncate_limit limit (sort_by cmp_hits (dedup_by_aircraft ord (all_hits (responses fo))))"
  by (simp add: merge_search_responses_def Let_def)


text \<open>
  Which shard answers first, and how the hash map is drained, does not
  change the hits of the merged answer.
\<close>

theorem merge_order_independent:
  assumes "iteration_order ord" "iteration_order ord'"
    and "mset (responses fo) = mset (responses fo')"
    and "set (all_hits (responses fo)) \<subseteq> scored" and "ties_identical (set (all_hits (responses fo)))"
  shows "resp_hits (merge_search_responses ord fo limit q v e)
    = resp_hits (merge_search_responses ord' fo' limit q' v' e')"
proof -
  have "set (all_hits (responses fo)) = set (all_hits (responses fo'))"
    using mset_eq_setD [OF assms(3)] by simp
  from rank_dedup_cong [OF assms(1,2) this assms(4,5)] show ?thesis by simp
qed

section \<open>Disjoint shards: progressive merging and top-k pushdown\<close>

lemma dedup_fold_fresh:
  assumes "distinct (map icao24_of hits)" and "fst ` set best \<inter> icao24_of ` set hits = {}"
  shows "foldl dedup_step best hits = best @ map (\<lambda>h. (icao24_of h, h)) hits"
  using assms
proof (induction hits arbitrary: best)
  case (Cons x hits)
  then have "hm_get best (icao24_of x) = None" by (auto simp: map_of_eq_None_iff)
  then have "dedup_step best x = best @ [(icao24_of x, x)]"
    using Cons.prems(2) by (auto simp: dedup_step_def hm_insert_fresh)
  with Cons show ?case by auto
qed simp

lemma mset_dedup_fresh:
  "iteration_order ord \<Longrightarrow> distinct (map icao24_of hits) \<Longrightarrow>
    mset (dedup_by_aircraft ord hits) = mset hits"
  by (simp add: dedup_by_aircraft_def iteration_order_mset dedup_fold_fresh o_def)

lemma rank_dedup_fresh:
  assumes "iteration_order ord" and "set hits \<subseteq> scored" and "distinct (map icao24_of hits)"
  shows "sort_by cmp_hits (dedup_by_aircraft ord hits) = sort_by cmp_hits hits"
  using mset_dedup_fresh [OF assms(1,3)] dedup_subset [OF assms(1)] dedup_distinct [OF assms(1)]
    assms(2) by (intro rank_cong) blast+

lemma rank_topk_append:
  assumes "set (xs @ ys) \<subseteq> scored" and "distinct (map icao24_of (xs @ ys))"
  shows "truncate_limit n (sort_by cmp_hits (truncate_limit n (sort_by cmp_hits xs) @ ys))
    = truncate_limit n (sort_by cmp_hits (xs @ ys))"
proof (cases "n = 0")
  case True
  have "sort_by cmp_hits (sort_by cmp_hits xs @ ys) = sort_by cmp_hits (xs @ ys)"
    using assms by (intro rank_cong [symmetric]) auto
  with True show ?thesis by simp
next
  case False
  have "a = b" if "a \<in> set (xs @ ys)" "b \<in> set (xs @ ys)" "cmp_hits a b = Equal" for a b
    using that assms cmp_hits_Equal [of a b] by (metis distinct_map inj_onD subsetD)
  from ranking.take_sort_append [OF assms(1) _ this] have
    "take n (sort_by cmp_hits (take n (sort_by cmp_hits xs) @ ys)) = take n (sort_by cmp_hits (xs @ ys))"
    using assms(2) distinct_map by blast
  with False show ?thesis by (simp add: truncate_limit_eq)
qed

lemma pm_add_fields [simp]:
  "pm_limit (pm_add ord pm r) = pm_limit pm"
  "pm_hits (pm_add ord pm r) =
     truncate_limit (pm_limit pm) (sort_by cmp_hits (dedup_by_aircraft ord (pm_hits pm @ resp_hits r)))"
  by (simp_all add: pm_add_def Let_def)

lemma distinct_rank_append:
  assumes "distinct (map icao24_of (xs @ ys))"
  shows "distinct (map icao24_of (truncate_limit n (sort_by cmp_hits xs) @ ys))"
proof -
  have "mset (map icao24_of (sort_by cmp_hits xs)) = mset (map icao24_of xs)" by simp
  then have "distinct (map icao24_of (truncate_limit n (sort_by cmp_hits xs)))"
    using assms mset_eq_imp_distinct_iff by (intro distinct_truncate_limit) auto
  moreover have "set (truncate_limit n (sort_by cmp_hits xs)) \<subseteq> set xs"
    using set_truncate_limit [of n "sort_by cmp_hits xs"] by simp
  ultimately show ?thesis using assms by auto
qed

lemma progressive_hits:
  assumes ord: "iteration_order ord" and sc: "set (xs @ all_hits rs) \<subseteq> scored"
    and dis: "distinct (map icao24_of (xs @ all_hits rs))"
    and hits: "pm_hits pm = truncate_limit (pm_limit pm) (sort_by cmp_hits xs)"
  shows "pm_hits (foldl (pm_add ord) pm rs)
    = truncate_limit (pm_limit pm) (sort_by cmp_hits (xs @ all_hits rs))"
  using sc dis hits
proof (induction rs arbitrary: pm xs)
  case (Cons r rs)
  let ?top = "truncate_limit (pm_limit pm) (sort_by cmp_hits xs)"
  have dis: "distinct (map icao24_of (?top @ resp_hits r))"
    by (rule distinct_rank_append) (use Cons.prems(2) in auto)
  have "set (?top @ resp_hits r) \<subseteq> scored"
    using Cons.prems(1) set_truncate_limit [of "pm_limit pm" "sort_by cmp_hits xs"] by auto
  then have "sort_by cmp_hits (dedup_by_aircraft ord (?top @ resp_hits r))
      = sort_by cmp_hits (?top @ resp_hits r)"
    using rank_dedup_fresh [OF ord _ dis] by blast
  moreover have "truncate_limit (pm_limit pm) (sort_by cmp_hits (?top @ resp_hits r))
      = truncate_limit (pm_limit pm) (sort_by cmp_hits (xs @ resp_hits r))"
    by (rule rank_topk_append) (use Cons.prems(1,2) in auto)
  ultimately have "pm_hits (pm_add ord pm r)
      = truncate_limit (pm_limit pm) (sort_by cmp_hits (xs @ resp_hits r))"
    using Cons.prems(3) by simp
  then show ?case using Cons.IH [of "xs @ resp_hits r" "pm_add ord pm r"] Cons.prems(1,2) by simp
qed simp

text \<open>
  C9: While shards hold disjoint slices, a streaming search ends with exactly
  the hits of the batch merge: keeping only the running top-\<open>limit\<close> loses nothing.
\<close>

theorem progressive_eq_batch:
  assumes ord: "iteration_order ord" and sc: "set (all_hits rs) \<subseteq> scored"
    and dis: "distinct (map icao24_of (all_hits rs))"
  shows "upd_hits (pm_snapshot (foldl (pm_add ord) (pm_new q limit v) rs) True e)
    = resp_hits (merge_search_responses ord \<lparr>responses = rs, omitted = om\<rparr> limit q v e)"
  using progressive_hits [of ord "[]" rs "pm_new q limit v"] assms
  by (simp add: pm_snapshot_def pm_new_def rank_dedup_fresh truncate_limit_def)

lemma distinct_append_mono:
  assumes "distinct (map f (xs @ zs))" and "distinct (map f ys)" and "set ys \<subseteq> set zs"
  shows "distinct (map f (xs @ ys))"
proof -
  have "f ` set ys \<subseteq> f ` set zs" using assms(3) by (rule image_mono)
  with assms(1,2) show ?thesis by simp blast
qed

lemma set_topk: "set (truncate_limit n (sort_by cmp_hits ys)) \<subseteq> set ys"
  using set_truncate_limit [of n "sort_by cmp_hits ys"] by simp

lemma set_topk_concat:
  "set (concat (map (\<lambda>xs. truncate_limit n (sort_by cmp_hits xs)) xss)) \<subseteq> set (concat xss)"
  using set_topk by fastforce

lemma distinct_topk_concat:
  "distinct (map icao24_of (concat xss)) \<Longrightarrow>
    distinct (map icao24_of (concat (map (\<lambda>xs. truncate_limit n (sort_by cmp_hits xs)) xss)))"
proof (induction xss)
  case (Cons x xss)
  let ?rest = "concat (map (\<lambda>xs. truncate_limit n (sort_by cmp_hits xs)) xss)"
  have "distinct (map icao24_of (x @ ?rest))"
    by (rule distinct_append_mono [OF _ _ set_topk_concat]) (use Cons in auto)
  from distinct_rank_append [OF this] show ?case by simp
qed simp

lemma topk_concat:
  assumes "set (acc @ concat xss) \<subseteq> scored" and "distinct (map icao24_of (acc @ concat xss))"
  shows "truncate_limit n (sort_by cmp_hits
      (acc @ concat (map (\<lambda>xs. truncate_limit n (sort_by cmp_hits xs)) xss)))
    = truncate_limit n (sort_by cmp_hits (acc @ concat xss))"
  using assms
proof (induction xss arbitrary: acc)
  case (Cons x xss)
  let ?top = "\<lambda>xs. truncate_limit n (sort_by cmp_hits xs)"
  let ?rest = "concat (map ?top xss)"
  note rest = set_topk_concat [of n xss]
  have "distinct (map icao24_of ?rest)"
    by (rule distinct_topk_concat) (use Cons.prems(2) in simp)
  moreover have "distinct (map icao24_of ((x @ acc) @ concat xss))"
    using Cons.prems(2) by (simp add: Int_ac Int_Un_distrib Int_Un_distrib2)
  ultimately have d: "distinct (map icao24_of (x @ acc @ ?rest))"
    using distinct_append_mono [OF _ _ rest, of icao24_of "x @ acc"] by simp
  have "set ?rest \<subseteq> scored" by (rule subset_trans [OF rest]) (use Cons.prems(1) in auto)
  with Cons.prems(1) have sc: "set (x @ acc @ ?rest) \<subseteq> scored" by auto
  have "sort_by cmp_hits (acc @ ?top x @ ?rest) = sort_by cmp_hits (?top x @ acc @ ?rest)"
    by (rule rank_cong [symmetric]) (use sc set_topk [of n x] distinct_rank_append [OF d] in auto)
  then have "?top (acc @ ?top x @ ?rest) = ?top (x @ acc @ ?rest)"
    using rank_topk_append [OF sc d] by simp
  also have "sort_by cmp_hits (x @ acc @ ?rest) = sort_by cmp_hits ((acc @ x) @ ?rest)"
    by (rule rank_cong) (use sc d in auto)
  finally show ?case using Cons.IH [of "acc @ x"] Cons.prems by simp
qed simp

text \<open>
  C3: Top-k pushdown is exact. When each shard answers with the \<open>limit\<close> best of its own
  matches and the shards' slices are disjoint, the merge of those answers is the \<open>limit\<close>
  best of the union of all matches, as if one index had held every document.
\<close>

theorem topk_pushdown:
  assumes ord: "iteration_order ord" and sc: "set (concat matches) \<subseteq> scored"
    and dis: "distinct (map icao24_of (concat matches))"
    and answers: "map resp_hits (responses fo)
      = map (\<lambda>xs. truncate_limit limit (sort_by cmp_hits xs)) matches"
  shows "resp_hits (merge_search_responses ord fo limit q v e)
    = truncate_limit limit (sort_by cmp_hits (concat matches))"
proof -
  let ?answers = "concat (map (\<lambda>xs. truncate_limit limit (sort_by cmp_hits xs)) matches)"
  have "set ?answers \<subseteq> scored" using sc set_topk_concat [of limit matches] by blast
  with distinct_topk_concat [OF dis, of limit] topk_concat [of "[]" matches limit] sc dis
  show ?thesis by (simp add: answers rank_dedup_fresh [OF ord])
qed

section \<open>Coverage\<close>

lemma gather_parts:
  "responses (foldl gather_step fo js)
     = responses fo @ List.map_filter (\<lambda>j. case j of Some (Inr r) \<Rightarrow> Some r | _ \<Rightarrow> None) js"
  "omitted (foldl gather_step fo js)
     = omitted fo @ List.map_filter (\<lambda>j. case j of Some (Inl x) \<Rightarrow> Some x | _ \<Rightarrow> None) js"
  by (induction js arbitrary: fo)
    (auto simp: gather_step_def split: option.split sum.split)

lemma gather_count:
  "None \<notin> set js \<Longrightarrow> length (responses (foldl gather_step fo js)) + length (omitted (foldl gather_step fo js))
    = length (responses fo) + length (omitted fo) + length js"
proof (induction js arbitrary: fo)
  case (Cons j js)
  then obtain y where "j = Some y" by (cases j) auto
  with Cons show ?case by (cases y) (auto simp: gather_step_def)
qed simp

text \<open>
  C29: Coverage is accounted for. When no task panics, every leader asked is either one of
  the responses or one of the omissions, and an omission carries the address that failed
  and whether it timed out or was unreachable.
\<close>

theorem scatter_gather_coverage:
  assumes sched: "iteration_order sched" and np: "\<forall>a \<in> set leaders. net a req \<noteq> Panicked"
  shows "length (responses (scatter_gather net sched leaders req))
      + length (omitted (scatter_gather net sched leaders req)) = length leaders
    \<and> set (responses (scatter_gather net sched leaders req))
      = {r. \<exists>a \<in> set leaders. net a req = Answered r}
    \<and> set (omitted (scatter_gather net sched leaders req))
      = {omitted_shard_of a ''unreachable'' | a. a \<in> set leaders \<and> net a req = Unreachable}
        \<union> {omitted_shard_of a ''timeout'' | a. a \<in> set leaders \<and> net a req = TimedOut}"
proof (intro conjI)
  let ?js = "map (\<lambda>addr. query_leader net addr req) (sched leaders)"
  note set = iteration_order_set [OF sched] and len = iteration_order_length [OF sched]
  have "None \<notin> set ?js"
    using np by (auto simp: set query_leader_def split: rpc_outcome.splits)
  from gather_count [OF this] show "length (responses (scatter_gather net sched leaders req))
      + length (omitted (scatter_gather net sched leaders req)) = length leaders"
    by (simp add: scatter_gather_def len)
  show "set (responses (scatter_gather net sched leaders req))
      = {r. \<exists>a \<in> set leaders. net a req = Answered r}"
    by (force simp: scatter_gather_def gather_parts List.map_filter_def set query_leader_def
        split: rpc_outcome.splits)
  show "set (omitted (scatter_gather net sched leaders req))
      = {omitted_shard_of a ''unreachable'' | a. a \<in> set leaders \<and> net a req = Unreachable}
        \<union> {omitted_shard_of a ''timeout'' | a. a \<in> set leaders \<and> net a req = TimedOut}"
    by (force simp: scatter_gather_def gather_parts List.map_filter_def set query_leader_def
        split: rpc_outcome.splits)
qed

section \<open>Concrete runs\<close>

text \<open>Small shard answers on which the properties above are instantiated.\<close>

definition sample_hit :: "string \<Rightarrow> rat \<Rightarrow> int \<Rightarrow> search_hit" where
  "sample_hit key score t =
     \<lparr>hit_document = Some (default_document\<lparr>icao24 := key, observed_at := t\<rparr>),
      hit_score = Fin False score, hit_prov = None\<rparr>"

definition sample_response :: "search_hit list \<Rightarrow> search_response" where
  "sample_response hits =
     \<lparr>resp_hits = hits, resp_total_matched = of_len hits, resp_shard_id = ''s'',
      resp_shards_queried = 1, resp_shards_answered = 1, resp_manifest = None\<rparr>"

lemma sample_hit_simps [simp]:
  "icao24_of (sample_hit k r t) = k" "hit_time (sample_hit k r t) = t"
  "hit_score (sample_hit k r t) = Fin False r" "hit_prov (sample_hit k r t) = None"
  "sample_hit k r t = sample_hit k' r' t' \<longleftrightarrow> k = k' \<and> r = r' \<and> t = t'"
  "resp_hits (sample_response hs) = hs"
  by (auto simp: sample_hit_def icao24_of_def hit_time_def sample_response_def
      flight_document.defs default_document_def)

abbreviation two_shards :: fanout where
  "two_shards \<equiv> \<lparr>responses = [sample_response [sample_hit ''a'' 9 1, sample_hit ''b'' 5 2],
    sample_response [sample_hit ''c'' 7 3]], omitted = []\<rparr>"

lemmas sample_eval = cmp_hits_def supersedes_def dedup_step_def dedup_by_aircraft_def
  f64_cmp_or_equal_def f64_partial_cmp_def f64_lt_def f64_eq_def ties_identical_def
  truncate_limit_def cmp_lin_def Let_def

lemma sample_ties: "ties_identical (set (all_hits (responses two_shards)))"
  by (simp add: ties_identical_def)


theorem merge_order_independent_witness:
  "resp_hits (merge_search_responses rev two_shards 2 2 0 0)
    = resp_hits (merge_search_responses id
        \<lparr>responses = rev (responses two_shards), omitted = []\<rparr> 2 2 0 0)"
  by (rule merge_order_independent) (use sample_ties in simp_all)

theorem progressive_eq_batch_witness:
  "upd_hits (pm_snapshot (foldl (pm_add rev) (pm_new 2 1 0) (responses two_shards)) True 0)
    = resp_hits (merge_search_responses rev \<lparr>responses = responses two_shards, omitted = []\<rparr> 1 2 0 0)"
  by (rule progressive_eq_batch) simp_all

theorem topk_pushdown_witness:
  "resp_hits (merge_search_responses rev
      \<lparr>responses = [sample_response [sample_hit ''a'' 9 1], sample_response [sample_hit ''c'' 7 3]],
       omitted = []\<rparr> 1 2 0 0)
    = truncate_limit 1 (sort_by cmp_hits
        (concat [[sample_hit ''b'' 5 2, sample_hit ''a'' 9 1], [sample_hit ''c'' 7 3]]))"
  by (rule topk_pushdown) (simp_all add: sample_eval)

definition sample_net :: "string \<Rightarrow> unit \<Rightarrow> search_response rpc_outcome" where
  "sample_net a req = (if a = ''x'' then Answered (sample_response []) else TimedOut)"

theorem scatter_gather_coverage_witness:
  "length (responses (scatter_gather sample_net rev [''x'', ''y''] ()))
    + length (omitted (scatter_gather sample_net rev [''x'', ''y''] ())) = length [''x'', ''y'']"
  by (rule scatter_gather_coverage [THEN conjunct1]) (simp_all add: sample_net_def)

text \<open>
  With the same aircraft on two shards the equality is lost: the running top-1 evicts
  \<open>b\<close> in favour of an observation of \<open>a\<close> that a later shard supersedes with a lower score,
  so \<open>b\<close>, which leads the batch merge, has left the stream for good.
\<close>

theorem progressive_loses_hit:
  "let rs = [sample_response [sample_hit ''a'' 9 100], sample_response [sample_hit ''b'' 5 100],
             sample_response [sample_hit ''a'' 2 200]]
   in upd_hits (pm_snapshot (foldl (pm_add id) (pm_new 3 1 0) rs) True 0) = [sample_hit ''a'' 2 200]
    \<and> resp_hits (merge_search_responses id \<lparr>responses = rs, omitted = []\<rparr> 1 3 0 0)
        = [sample_hit ''b'' 5 100]"
  by (simp add: pm_snapshot_def pm_new_def sample_eval)

end
