(* ===== verification/Agg.thy ===== *)
theory Agg
  imports Doc_Filter TDigest Fanout
begin

text \<open>
  Aggregation: the partial a shard computes in one pass over its documents
  (\<open>crates/shard-node/src/agg.rs\<close>) and the merge of the partials at the coordinator
  (\<open>crates/coordinator/src/agg.rs\<close>). Counts are 64-bit words. How a float is printed in a
  bucket key is the argument \<open>show_f64\<close>; a panic of the percentile sketch is \<open>None\<close>.
\<close>

section \<open>Messages\<close>

datatype agg_kind =
  AggUnspecified | AggCount | AggValueCounts | AggTimeHistogram | AggNumericHistogram | AggGeoGrid | AggPercentiles

record aggregate_request =
  a_query :: string
  a_kind :: agg_kind
  a_field :: string
  a_interval :: f64
  a_percentiles :: "f64 list"
  a_filter :: "filter_msg option"

record aggregate_partial =
  ap_kind :: agg_kind
  ap_count :: u64
  ap_buckets :: "(string, u64) hashmap"
  ap_digest :: "(f64 list \<times> f64 list) option"

section \<open>The shard's partial\<close>

definition text_field :: "flight_document \<Rightarrow> string \<Rightarrow> string option" where
  "text_field doc field =
     (if field = ''callsign'' then Some (callsign doc)
      else if field = ''origin'' then Some (origin doc)
      else if field = ''destination'' then Some (destination doc)
      else if field = ''aircraft_type'' then Some (aircraft_type doc)
      else if field = ''tenant_id'' then Some (tenant_id doc)
      else hm_get (text_fields doc) field)"

definition numeric_field :: "flight_document \<Rightarrow> string \<Rightarrow> f64 option" where
  "numeric_field doc field =
     (if field = ''altitude'' then Some (altitude doc)
      else if field = ''velocity'' then Some (velocity doc)
      else if field = ''heading'' then Some (heading doc)
      else if field = ''vertical_rate'' then Some (vertical_rate doc)
      else if field = ''latitude'' then Some (latitude doc)
      else if field = ''longitude'' then Some (longitude doc)
      else if field = ''observed_at'' then Some (f64_of_int (observed_at doc))
      else hm_get (number_fields doc) field)"

definition bucket_width :: "f64 \<Rightarrow> f64" where
  "bucket_width interval = (if f64_lt fzero interval then interval else fone)"

definition bucket_lower :: "f64 \<Rightarrow> f64 \<Rightarrow> f64" where
  "bucket_lower value w = fmul binary64 (ffloor (fdiv binary64 value w)) w"

definition bucket_key :: "(f64 \<Rightarrow> string) \<Rightarrow> f64 \<Rightarrow> f64 \<Rightarrow> string" where
  "bucket_key show_f64 value interval = show_f64 (bucket_lower value (bucket_width interval))"

definition bump_bucket :: "(string, u64) hashmap \<Rightarrow> string \<times> u64 \<Rightarrow> (string, u64) hashmap" where
  "bump_bucket m kv = hm_insert (fst kv) ((case hm_get m (fst kv) of Some n \<Rightarrow> n | None \<Rightarrow> 0) + snd kv) m"

text \<open>The bucket a document falls into, if the kind of aggregate has buckets.\<close>

definition doc_bucket :: "(f64 \<Rightarrow> string) \<Rightarrow> aggregate_request \<Rightarrow> flight_document \<Rightarrow> string option" where
  "doc_bucket show_f64 req doc =
     (case a_kind req of
        AggValueCounts \<Rightarrow> text_field doc (a_field req)
      | AggTimeHistogram \<Rightarrow> Some (bucket_key show_f64 (f64_of_int (observed_at doc)) (a_interval req))
      | AggNumericHistogram \<Rightarrow> map_option (\<lambda>v. bucket_key show_f64 v (a_interval req)) (numeric_field doc (a_field req))
      | AggGeoGrid \<Rightarrow>
          (let cell = bucket_width (a_interval req)
           in Some (show_f64 (bucket_lower (latitude doc) cell) @ '','' @ show_f64 (bucket_lower (longitude doc) cell)))
      | _ \<Rightarrow> None)"

fun partial_loop ::
  "(f64 \<Rightarrow> f64) \<Rightarrow> (f64 \<Rightarrow> string) \<Rightarrow> aggregate_request \<Rightarrow> (string, u64) hashmap \<Rightarrow> tdigest \<Rightarrow> u64 \<Rightarrow>
    flight_document list \<Rightarrow> ((string, u64) hashmap \<times> tdigest \<times> u64) option" where
  "partial_loop asin1 show_f64 req buckets digest n [] = Some (buckets, digest, n)"
| "partial_loop asin1 show_f64 req buckets digest n (doc # ds) =
     (let buckets' = (case doc_bucket show_f64 req doc of Some k \<Rightarrow> bump_bucket buckets (k, 1) | None \<Rightarrow> buckets);
          sample = (if a_kind req = AggPercentiles then numeric_field doc (a_field req) else None)
      in case sample of
           None \<Rightarrow> partial_loop asin1 show_f64 req buckets' digest (n + 1) ds
         | Some v \<Rightarrow> Option.bind (td_add asin1 digest v)
             (\<lambda>digest'. partial_loop asin1 show_f64 req buckets' digest' (n + 1) ds))"

definition partial ::
  "(f64 \<Rightarrow> f64) \<Rightarrow> (f64 \<Rightarrow> string) \<Rightarrow> flight_document list \<Rightarrow> aggregate_request \<Rightarrow> aggregate_partial option" where
  "partial asin1 show_f64 ds req =
     Option.bind (partial_loop asin1 show_f64 req [] tdigest_new 0 ds) (\<lambda>(buckets, digest, n).
       if a_kind req = AggPercentiles then
         map_option (\<lambda>(_, ms, ws). \<lparr>ap_kind = a_kind req, ap_count = n, ap_buckets = buckets, ap_digest = Some (ms, ws)\<rparr>)
           (to_parts asin1 digest)
       else Some \<lparr>ap_kind = a_kind req, ap_count = n, ap_buckets = buckets, ap_digest = None\<rparr>)"

section \<open>The coordinator's merge\<close>

definition aggregate_step ::
  "aggregate_partial list \<times> omitted_shard list \<Rightarrow> (omitted_shard + aggregate_partial option) option \<Rightarrow>
    aggregate_partial list \<times> omitted_shard list" where
  "aggregate_step acc joined =
     (case joined of
        Some (Inr (Some p)) \<Rightarrow> (fst acc @ [p], snd acc)
      | Some (Inr None) \<Rightarrow> acc
      | Some (Inl om) \<Rightarrow> (fst acc, snd acc @ [om])
      | None \<Rightarrow> acc)"

definition scatter_aggregate ::
  "(string \<Rightarrow> aggregate_request \<Rightarrow> aggregate_partial option rpc_outcome) \<Rightarrow> (string list \<Rightarrow> string list) \<Rightarrow>
    string list \<Rightarrow> aggregate_request \<Rightarrow> aggregate_partial list \<times> omitted_shard list" where
  "scatter_aggregate net sched leaders request =
     foldl aggregate_step ([], []) (map (\<lambda>addr. query_leader net addr request) (sched leaders))"

fun merge_loop ::
  "(f64 \<Rightarrow> f64) \<Rightarrow> u64 \<Rightarrow> (string, u64) hashmap \<Rightarrow> tdigest \<Rightarrow> aggregate_partial list \<Rightarrow>
    (u64 \<times> (string, u64) hashmap \<times> tdigest) option" where
  "merge_loop asin1 n buckets digest [] = Some (n, buckets, digest)"
| "merge_loop asin1 n buckets digest (p # ps) =
     (let n' = n + ap_count p;
          buckets' = foldl bump_bucket buckets (ap_buckets p)
      in case ap_digest p of
           None \<Rightarrow> merge_loop asin1 n' buckets' digest ps
         | Some (ms, ws) \<Rightarrow>
             Option.bind (from_parts ms ws) (\<lambda>shard.
             Option.bind (td_merge asin1 digest shard) (\<lambda>digest'. merge_loop asin1 n' buckets' digest' ps)))"

definition merge_partials ::
  "(f64 \<Rightarrow> f64) \<Rightarrow> agg_kind \<Rightarrow> aggregate_partial list \<Rightarrow> f64 list \<Rightarrow> (aggregate_partial \<times> (f64 \<times> f64) list) option" where
  "merge_partials asin1 kind partials requested =
     Option.bind (merge_loop asin1 0 [] tdigest_new partials) (\<lambda>(n, buckets, digest).
       let percentiles =
             (if kind = AggPercentiles \<and> \<not> td_is_empty digest then
                map (\<lambda>p. (p, quantile digest (fdiv binary64 p (Fin False 100)))) requested
              else [])
       in map_option (\<lambda>(_, ms, ws).
            (\<lparr>ap_kind = kind, ap_count = n, ap_buckets = buckets,
              ap_digest = (if kind = AggPercentiles then Some (ms, ws) else None)\<rparr>, percentiles))
            (to_parts asin1 digest))"

section \<open>Counts and buckets\<close>

text \<open>A bucket map that holds the counts \<open>f\<close>, in 64-bit words.\<close>

definition counts :: "(string, u64) hashmap \<Rightarrow> (string \<Rightarrow> nat) \<Rightarrow> bool" where
  "counts m f \<longleftrightarrow> hm_wf m \<and> (\<forall>k. hm_get m k = (if f k = 0 then None else Some (word_of_nat (f k))))"

lemma counts_bump: "counts m f \<Longrightarrow> 0 < j \<Longrightarrow> counts (bump_bucket m (k, word_of_nat j)) (f(k := f k + j))"
  by (auto simp: counts_def bump_bucket_def hashmap_simps)

lemma counts_merge_list:
  assumes "counts m f" and "hm_wf b" and "\<forall>(k, v) \<in> set b. 0 < g k \<and> v = word_of_nat (g k)"
  shows "counts (foldl bump_bucket m b) (\<lambda>k. f k + (if k \<in> fst ` set b then g k else 0))"
  using assms
proof (induction b arbitrary: m f)
  case (Cons kv b)
  obtain k v where kv: "kv = (k, v)" by fastforce
  have "counts (foldl bump_bucket (bump_bucket m kv) b) (\<lambda>l. (f(k := f k + g k)) l + (if l \<in> fst ` set b then g l else 0))"
    by (rule Cons.IH) (use Cons.prems kv counts_bump [of m f "g k" k] in \<open>auto simp: fun_upd_def\<close>)
  moreover have "(\<lambda>l. (f(k := f k + g k)) l + (if l \<in> fst ` set b then g l else 0))
      = (\<lambda>l. f l + (if l \<in> fst ` set (kv # b) then g l else 0))"
    using Cons.prems(2) kv by (intro ext) auto
  ultimately show ?case by simp
qed simp

text \<open>Merging a bucket map adds its counts.\<close>

lemma counts_merge:
  assumes "counts m f" and "counts b g"
  shows "counts (foldl bump_bucket m b) (\<lambda>k. f k + g k)"
proof -
  have wf: "hm_wf b" and look: "hm_get b k = (if g k = 0 then None else Some (word_of_nat (g k)))" for k
    using assms(2) by (simp_all add: counts_def)
  have "\<forall>(k, v) \<in> set b. 0 < g k \<and> v = word_of_nat (g k)"
  proof clarify
    fix k v assume "(k, v) \<in> set b"
    then have "hm_get b k = Some v" using wf by (simp add: map_of_eq_Some_iff)
    then show "0 < g k \<and> v = word_of_nat (g k)" using look [of k] by (auto split: if_splits)
  qed
  from counts_merge_list [OF assms(1) wf this]
  have "counts (foldl bump_bucket m b) (\<lambda>k. f k + (if k \<in> fst ` set b then g k else 0))" .
  moreover have "k \<in> fst ` set b \<longleftrightarrow> g k \<noteq> 0" for k
    using look [of k] map_of_eq_None_iff [of b k] by (auto split: if_splits)
  then have "(\<lambda>k. f k + (if k \<in> fst ` set b then g k else 0)) = (\<lambda>k. f k + g k)" by auto
  ultimately show ?thesis by simp
qed

lemma counts_unique: "counts m f \<Longrightarrow> counts m' f \<Longrightarrow> hm_get m = hm_get m'"
  by (rule ext) (simp add: counts_def)

abbreviation doc_count :: "(f64 \<Rightarrow> string) \<Rightarrow> aggregate_request \<Rightarrow> flight_document list \<Rightarrow> string \<Rightarrow> nat" where
  "doc_count show_f64 req ds k \<equiv> count_list (map (doc_bucket show_f64 req) ds) (Some k)"

lemma partial_loop_counts:
  assumes "partial_loop asin1 show_f64 req buckets digest n ds = Some (b, t, m)" and "counts buckets f"
  shows "m = n + of_len ds \<and> counts b (\<lambda>k. f k + doc_count show_f64 req ds k)"
  using assms
proof (induction ds arbitrary: buckets digest n f)
  case (Cons d ds)
  define buckets' where "buckets' = (case doc_bucket show_f64 req d of Some k \<Rightarrow> bump_bucket buckets (k, 1) | None \<Rightarrow> buckets)"
  define f' where "f' = (\<lambda>k. f k + doc_count show_f64 req [d] k)"
  have f': "counts buckets' f'"
  proof (cases "doc_bucket show_f64 req d")
    case (Some k)
    have "f' = f(k := f k + 1)" by (rule ext) (simp add: f'_def Some)
    with Some counts_bump [OF Cons.prems(2), of 1 k] show ?thesis by (simp add: buckets'_def)
  qed (use Cons.prems(2) in \<open>simp add: buckets'_def f'_def\<close>)
  obtain digest' where "partial_loop asin1 show_f64 req buckets' digest' (n + 1) ds = Some (b, t, m)"
    using Cons.prems(1) by (auto simp: Let_def buckets'_def bind_eq_Some_conv split: option.splits if_splits)
  from Cons.IH [OF this f'] have "m = n + 1 + of_len ds" "counts b (\<lambda>k. f' k + doc_count show_f64 req ds k)" by auto
  moreover have "(\<lambda>k. f' k + doc_count show_f64 req ds k) = (\<lambda>k. f k + doc_count show_f64 req (d # ds) k)"
    by (rule ext) (simp add: f'_def)
  ultimately show ?case by simp
qed simp

lemma partial_counts:
  assumes "partial asin1 show_f64 ds req = Some p"
  shows "ap_count p = of_len ds" and "counts (ap_buckets p) (doc_count show_f64 req ds)" and "ap_kind p = a_kind req"
    and "ap_digest p = None \<longleftrightarrow> a_kind req \<noteq> AggPercentiles"
proof -
  obtain b t m where l: "partial_loop asin1 show_f64 req [] tdigest_new 0 ds = Some (b, t, m)"
    and p: "ap_count p = m" "ap_buckets p = b" "ap_kind p = a_kind req" "ap_digest p = None \<longleftrightarrow> a_kind req \<noteq> AggPercentiles"
    using assms by (auto simp: partial_def bind_eq_Some_conv split: if_splits)
  from partial_loop_counts [OF l, of "\<lambda>_. 0"] p
  show "ap_count p = of_len ds" "counts (ap_buckets p) (doc_count show_f64 req ds)" "ap_kind p = a_kind req"
    "ap_digest p = None \<longleftrightarrow> a_kind req \<noteq> AggPercentiles"
    by (simp_all add: counts_def)
qed

lemma partial_loop_total:
  "a_kind req \<noteq> AggPercentiles \<Longrightarrow> \<exists>r. partial_loop asin1 show_f64 req buckets digest n ds = Some r"
  by (induction ds arbitrary: buckets n) (simp_all add: Let_def)

lemma partial_total: "a_kind req \<noteq> AggPercentiles \<Longrightarrow> \<exists>p. partial asin1 show_f64 ds req = Some p"
  using partial_loop_total [of req asin1 show_f64 "[]" tdigest_new 0 ds] by (auto simp: partial_def)

lemma merge_loop_counts:
  assumes "merge_loop asin1 n buckets digest ps = Some (m, b, t)" and "counts buckets f"
    and "list_all2 (\<lambda>p ds. partial asin1 show_f64 ds req = Some p) ps xss"
  shows "m = n + of_len (concat xss) \<and> counts b (\<lambda>k. f k + doc_count show_f64 req (concat xss) k)"
  using assms(3,1,2)
proof (induction ps xss arbitrary: n buckets digest f rule: list_all2_induct)
  case (Cons p ps ds xss)
  define buckets' where "buckets' = foldl bump_bucket buckets (ap_buckets p)"
  define f' where "f' = (\<lambda>k. f k + doc_count show_f64 req ds k)"
  obtain digest' where loop: "merge_loop asin1 (n + ap_count p) buckets' digest' ps = Some (m, b, t)"
    using Cons.prems(1) by (auto simp: Let_def buckets'_def bind_eq_Some_conv split: option.splits)
  have "counts buckets' f'"
    unfolding buckets'_def f'_def using counts_merge [OF Cons.prems(2) partial_counts(2) [OF Cons.hyps(1)]] .
  from Cons.IH [OF loop this] have "m = n + ap_count p + of_len (concat xss)"
    "counts b (\<lambda>k. f' k + doc_count show_f64 req (concat xss) k)" by auto
  moreover have "(\<lambda>k. f' k + doc_count show_f64 req (concat xss) k) = (\<lambda>k. f k + doc_count show_f64 req (concat (ds # xss)) k)"
    by (rule ext) (simp add: f'_def)
  ultimately show ?case by (simp add: partial_counts(1) [OF Cons.hyps(1)])
qed simp

lemma merge_loop_total:
  "list_all (\<lambda>p. ap_digest p = None) ps \<Longrightarrow> \<exists>b m. merge_loop asin1 n buckets digest ps = Some (m, b, digest)"
  by (induction ps arbitrary: n buckets) (simp_all add: Let_def)

lemma tdigest_new_parts: "to_parts asin1 tdigest_new = Some (tdigest_new, [], [])"
  by (simp add: to_parts_def compress_def tdigest_new_def with_delta_def)

text \<open>
  C31: Aggregates merge exactly. For counts, value counts, time and numeric histograms and geo
  grids, however the documents are spread over shards, merging the shards' partials gives
  the total and every bucket of one pass over all the documents, with no bucket added or
  lost; 64-bit wrap-around included, and without ever failing.
\<close>

theorem aggregate_merge_exact:
  assumes "a_kind req \<noteq> AggPercentiles"
  shows "\<exists>ps m w. list_all2 (\<lambda>p ds. partial asin1 show_f64 ds req = Some p) ps xss
    \<and> merge_partials asin1 (a_kind req) ps requested = Some (m, [])
    \<and> partial asin1 show_f64 (concat xss) req = Some w
    \<and> ap_count m = ap_count w \<and> hm_get (ap_buckets m) = hm_get (ap_buckets w) \<and> ap_kind m = ap_kind w
    \<and> ap_digest m = ap_digest w"
proof -
  define ps where "ps = map (\<lambda>ds. the (partial asin1 show_f64 ds req)) xss"
  have "partial asin1 show_f64 ds req = Some (the (partial asin1 show_f64 ds req))" for ds
    using partial_total [OF assms, of asin1 show_f64 ds] by auto
  then have ps: "list_all2 (\<lambda>p ds. partial asin1 show_f64 ds req = Some p) ps xss"
    by (simp add: ps_def list_all2_conv_all_nth)
  then have "list_all (\<lambda>p. ap_digest p = None) ps"
    using partial_counts(4) assms by (auto simp: list_all_length list_all2_conv_all_nth)
  then obtain b m where loop: "merge_loop asin1 0 [] tdigest_new ps = Some (m, b, tdigest_new)"
    using merge_loop_total by blast
  have merged: "m = of_len (concat xss)" "counts b (doc_count show_f64 req (concat xss))"
    using merge_loop_counts [OF loop _ ps, of "\<lambda>_. 0"] by (simp_all add: counts_def)
  obtain w where w: "partial asin1 show_f64 (concat xss) req = Some w" using partial_total [OF assms] by blast
  have "merge_partials asin1 (a_kind req) ps requested = Some (\<lparr>ap_kind = a_kind req, ap_count = m, ap_buckets = b, ap_digest = None\<rparr>, [])"
    using assms by (simp add: merge_partials_def loop tdigest_new_parts)
  moreover have "hm_get b = hm_get (ap_buckets w)" by (rule counts_unique [OF merged(2) partial_counts(2) [OF w]])
  moreover have "m = ap_count w" "ap_kind w = a_kind req" "ap_digest w = None"
    using partial_counts(1,3,4) [OF w] merged(1) assms by simp_all
  ultimately show ?thesis using ps w
    by (intro exI [of _ ps] exI [of _ "\<lparr>ap_kind = a_kind req, ap_count = m, ap_buckets = b, ap_digest = None\<rparr>"] exI [of _ w]) simp
qed

section \<open>Percentile weights\<close>

definition samples :: "aggregate_request \<Rightarrow> flight_document list \<Rightarrow> f64 list" where
  "samples req ds = filter is_finite (List.map_filter (\<lambda>d. numeric_field d (a_field req)) ds)"

lemma partial_loop_holds:
  assumes "partial_loop asin1 show_f64 req buckets digest n ds = Some (b, t, m)" and "a_kind req = AggPercentiles"
    and "holds digest N" and "N + length (samples req ds) < 2 ^ 53"
  shows "holds t (N + length (samples req ds))"
  using assms
proof (induction ds arbitrary: buckets digest n N)
  case (Cons d ds)
  show ?case
  proof (cases "numeric_field d (a_field req)")
    case None
    with Cons.prems Cons.IH [of _ digest _ N] show ?thesis by (auto simp: Let_def samples_def)
  next
    case (Some v)
    then obtain digest' buckets' where add: "td_add asin1 digest v = Some digest'"
      and loop: "partial_loop asin1 show_f64 req buckets' digest' (n + 1) ds = Some (b, t, m)"
      using Cons.prems(1,2) by (auto simp: Let_def bind_eq_Some_conv split: option.splits)
    have len: "length (samples req (d # ds)) = (if is_finite v then 1 else 0) + length (samples req ds)"
      using Some by (simp add: samples_def)
    show ?thesis
    proof (cases "is_finite v")
      case True
      then have "holds digest' (N + 1)" using td_add_holds [OF add Cons.prems(3)] Cons.prems(4) len by simp
      from Cons.IH [OF loop Cons.prems(2) this] Cons.prems(4) len True show ?thesis by simp
    next
      case False
      then have "digest' = digest" using add by (simp add: td_add_def)
      with Cons.IH [OF loop Cons.prems(2)] Cons.prems(3,4) len False show ?thesis by simp
    qed
  qed
qed (simp add: samples_def)

lemma to_parts_holds:
  assumes "to_parts asin1 t = Some (t', ms, ws)" and "holds t n" and "n < 2 ^ 53"
  shows "holds t' n \<and> buffer t' = [] \<and> ms = map c_mean (centroids t') \<and> ws = map c_weight (centroids t')"
proof -
  have "compress asin1 t = Some t'" and parts: "ms = map c_mean (centroids t')" "ws = map c_weight (centroids t')"
    using assms(1) by (auto simp: to_parts_def)
  from compress_weights [OF this(1), of n] assms(2,3) parts show ?thesis by (auto simp: holds_def)
qed

lemma partial_digest:
  assumes "partial asin1 show_f64 ds req = Some p" and "a_kind req = AggPercentiles" and "length (samples req ds) < 2 ^ 53"
  shows "\<exists>t. holds t (length (samples req ds)) \<and> buffer t = []
    \<and> ap_digest p = Some (map c_mean (centroids t), map c_weight (centroids t))"
proof -
  obtain b t m t' ms ws where "partial_loop asin1 show_f64 req [] tdigest_new 0 ds = Some (b, t, m)"
    "to_parts asin1 t = Some (t', ms, ws)" "ap_digest p = Some (ms, ws)"
    using assms(1,2) by (auto simp: partial_def bind_eq_Some_conv)
  then show ?thesis
    using partial_loop_holds [OF _ assms(2) tdigest_new_holds] to_parts_holds assms(3) by fastforce
qed

lemma merge_loop_holds:
  assumes "merge_loop asin1 n buckets digest ps = Some (m, b, t)" and "a_kind req = AggPercentiles"
    and "list_all2 (\<lambda>p ds. partial asin1 show_f64 ds req = Some p) ps xss"
    and "holds digest N" and "N + length (samples req (concat xss)) < 2 ^ 53"
  shows "holds t (N + length (samples req (concat xss)))"
  using assms(3,1,4,5)
proof (induction ps xss arbitrary: n buckets digest N rule: list_all2_induct)
  case Nil
  then show ?case by (simp add: samples_def)
next
  case (Cons p ps ds xss)
  have len: "length (samples req (concat (ds # xss))) = length (samples req ds) + length (samples req (concat xss))"
    by (induction ds) (auto simp: samples_def split: option.split)
  obtain u where u: "holds u (length (samples req ds))" "buffer u = []"
    "ap_digest p = Some (map c_mean (centroids u), map c_weight (centroids u))"
    using partial_digest [OF Cons.hyps(1) assms(2)] Cons.prems(3) len by auto
  then obtain shard digest' n' buckets' where "from_parts (map c_mean (centroids u)) (map c_weight (centroids u)) = Some shard"
    and merge: "td_merge asin1 digest shard = Some digest'" and loop: "merge_loop asin1 n' buckets' digest' ps = Some (m, b, t)"
    using Cons.prems(1) by (auto simp: Let_def bind_eq_Some_conv)
  then have "holds shard (length (samples req ds))"
    using from_parts_holds [OF u(1,2)] Cons.prems(3) len by simp
  then have "holds digest' (N + length (samples req ds))"
    using td_merge_holds [OF merge Cons.prems(2)] Cons.prems(3) len by simp
  from Cons.IH [OF loop this] Cons.prems(3) len show ?case by (simp add: add.assoc)
qed

text \<open>
  C32: Percentile sketches lose no sample. For any spread of the documents over shards with
  fewer than \<open>2^53\<close> finite samples, if shards and coordinator answer, the merged count is the
  number of documents (in 64 bits) and the weights of the merged digest sum, without a
  rounding error, to the number of documents whose field is a finite number: weight survives
  buffering, clustering, the wire form and every merge, whatever the scale function.
\<close>

theorem percentile_weight_exact:
  assumes "a_kind req = AggPercentiles" and "list_all2 (\<lambda>p ds. partial asin1 show_f64 ds req = Some p) ps xss"
    and "merge_partials asin1 AggPercentiles ps requested = Some (m, pcs)"
    and "length (samples req (concat xss)) < 2 ^ 53"
  shows "\<exists>ms ws. ap_digest m = Some (ms, ws) \<and> length ms = length ws
    \<and> foldl (fadd binary64) fzero ws = Fin False (of_nat (length (samples req (concat xss))))
    \<and> ap_count m = of_len (concat xss)"
proof -
  obtain n b t t' ms ws where loop: "merge_loop asin1 0 [] tdigest_new ps = Some (n, b, t)" and parts: "to_parts asin1 t = Some (t', ms, ws)"
    and m: "ap_digest m = Some (ms, ws)" "ap_count m = n"
    using assms(3) by (auto simp: merge_partials_def bind_eq_Some_conv Let_def)
  let ?n = "length (samples req (concat xss))"
  have "holds t ?n" using merge_loop_holds [OF loop assms(1,2) tdigest_new_holds] assms(4) by simp
  from to_parts_holds [OF parts this assms(4)] have t': "holds t' ?n" "buffer t' = []"
    and msws: "ms = map c_mean (centroids t')" "ws = map c_weight (centroids t')" by auto
  have "weight_sum (centroids t') = fnat ?n" using t' weight_sum_exact assms(4) by (auto simp: holds_def)
  moreover have "foldl (fadd binary64) fzero ws = weight_sum (centroids t')"
    by (simp add: msws weight_sum_def foldl_map)
  moreover have "n = of_len (concat xss)" using merge_loop_counts [OF loop _ assms(2), of "\<lambda>_. 0"] by (simp add: counts_def)
  ultimately show ?thesis using m msws by (simp add: fnat_def)
qed

section \<open>Concrete runs\<close>

definition sample_request :: "agg_kind \<Rightarrow> string \<Rightarrow> aggregate_request" where
  "sample_request kind field = \<lparr>a_query = [], a_kind = kind, a_field = field, a_interval = fone, a_percentiles = [], a_filter = None\<rparr>"

theorem aggregate_merge_exact_witness:
  "\<exists>ps m. list_all2 (\<lambda>p ds. partial id (\<lambda>_. []) ds (sample_request AggValueCounts ''origin'') = Some p) ps
      [[default_document\<lparr>origin := ''SFO''\<rparr>], [default_document\<lparr>origin := ''SFO''\<rparr>, default_document\<lparr>origin := ''JFK''\<rparr>]]
    \<and> merge_partials id AggValueCounts ps [] = Some (m, [])
    \<and> ap_count m = 3 \<and> hm_get (ap_buckets m) ''SFO'' = Some 2 \<and> hm_get (ap_buckets m) ''JFK'' = Some 1"
proof -
  let ?req = "sample_request AggValueCounts ''origin''"
  let ?xss = "[[default_document\<lparr>origin := ''SFO''\<rparr>], [default_document\<lparr>origin := ''SFO''\<rparr>, default_document\<lparr>origin := ''JFK''\<rparr>]]"
  have "partial id (\<lambda>_. []) (concat ?xss) ?req = Some \<lparr>ap_kind = AggValueCounts, ap_count = 3,
      ap_buckets = [(''SFO'', 2), (''JFK'', 1)], ap_digest = None\<rparr>"
    by (simp add: partial_def sample_request_def Let_def doc_bucket_def text_field_def bump_bucket_def)
  with aggregate_merge_exact [of ?req id "\<lambda>_. []" ?xss "[]"] show ?thesis
    by (simp add: sample_request_def) fastforce
qed

lemma sample_sums: "fround binary64 False 1 = fone" "fround binary64 False 1000 = Fin False 1000"
  using fround_dyadic [of 1 1 0] fround_dyadic [of 1000 1000 0] by simp_all

lemma sample_partial:
  "partial id (\<lambda>_. []) [default_document\<lparr>altitude := fone\<rparr>] (sample_request AggPercentiles ''altitude'') =
    Some \<lparr>ap_kind = AggPercentiles, ap_count = 1, ap_buckets = [], ap_digest = Some ([fone], [fone])\<rparr>"
proof -
  have "f64_of_int 1 = fone" using f64_of_int_exact [of 1] by simp
  then show ?thesis
    by (simp add: partial_def sample_request_def Let_def doc_bucket_def numeric_field_def td_add_def is_finite_def
        tdigest_new_def with_delta_def sample_sums f64_le_def f64_lt_def f64_eq_def to_parts_def compress_def sort_means_def
        weight_sum_def)
qed

lemma sample_merge:
  "merge_partials id AggPercentiles [\<lparr>ap_kind = AggPercentiles, ap_count = 1, ap_buckets = [], ap_digest = Some ([fone], [fone])\<rparr>]
     [Fin False 50] = Some (\<lparr>ap_kind = AggPercentiles, ap_count = 1, ap_buckets = [], ap_digest = Some ([fone], [fone])\<rparr>,
       [(Fin False 50, fone)])"
  by (simp add: merge_partials_def Let_def from_parts_def part_centroids_def sort_means_def f64_lt_def weight_sum_def
      td_merge_def compress_def tdigest_new_def with_delta_def sample_sums td_is_empty_def f64_eq_def quantile_def to_parts_def)

theorem percentile_weight_exact_witness:
  "foldl (fadd binary64) fzero [fone] = Fin False 1 \<and> (1::u64) = of_len [default_document\<lparr>altitude := fone\<rparr>]"
proof -
  let ?req = "sample_request AggPercentiles ''altitude''" and ?xss = "[[default_document\<lparr>altitude := fone\<rparr>]]"
  have kind: "a_kind ?req = AggPercentiles" by (simp add: sample_request_def)
  have n: "length (samples ?req (concat ?xss)) = 1"
    by (simp add: samples_def sample_request_def numeric_field_def is_finite_def)
  have all: "list_all2 (\<lambda>p ds. partial id (\<lambda>_. []) ds ?req = Some p)
      [\<lparr>ap_kind = AggPercentiles, ap_count = 1, ap_buckets = [], ap_digest = Some ([fone], [fone])\<rparr>] ?xss"
    by (simp add: sample_partial)
  have "length (samples ?req (concat ?xss)) < 2 ^ 53" unfolding n by simp
  from percentile_weight_exact [OF kind all sample_merge this] show ?thesis unfolding n by simp
qed

end
