(* ===== verification/Auth.thy ===== *)
theory Auth
  imports Text_Tokens
begin

text \<open>
  Scoped bearer tokens (\<open>crates/coordinator/src/auth.rs\<close>): loading the token file and the
  check in front of the client-facing calls. The environment variable and the outcome of
  reading the file are arguments. The status codes of the calls are here, too.
\<close>

section \<open>Status codes\<close>

datatype status =
  Unauthenticated string | PermissionDenied string | InvalidArgument string | Unavailable string | Internal string
| FailedPrecondition string

section \<open>Scopes and tokens\<close>

datatype scope = Read | Operator

definition rank :: "scope \<Rightarrow> nat" where
  "rank s = (case s of Read \<Rightarrow> 1 | Operator \<Rightarrow> 2)"

definition satisfies :: "scope \<Rightarrow> scope \<Rightarrow> bool" where
  "satisfies have1 needed \<longleftrightarrow> rank have1 \<ge> rank needed"

definition parse_scope :: "string \<Rightarrow> scope option" where
  "parse_scope s = (if s = ''read'' then Some Read else if s = ''operator'' then Some Operator else None)"

record auth =
  tokens :: "(string, scope) hashmap"
  enabled :: bool

definition auth_default :: auth where
  "auth_default = \<lparr>tokens = [], enabled = False\<rparr>"

text \<open>\<open>{:?}\<close> of a string.\<close>

definition debug_char :: "char \<Rightarrow> string" where
  "debug_char c =
     (if c = CHR 0x22 \<or> c = CHR 0x5C then [CHR 0x5C, c]
      else if c = CHR 0x0A then [CHR 0x5C, CHR ''n'']
      else if c = CHR 0x0D then [CHR 0x5C, CHR ''r'']
      else if c = CHR 0x09 then [CHR 0x5C, CHR ''t'']
      else if c = CHR 0x00 then [CHR 0x5C, CHR ''0'']
      else if code c < 32 \<or> code c = 127 then [CHR 0x5C, CHR ''u'', CHR 0x7B] @ hex_digits (code c) @ [CHR 0x7D]
      else [c])"

definition debug_string :: "string \<Rightarrow> string" where
  "debug_string s = [CHR 0x22] @ concat (map debug_char s) @ [CHR 0x22]"

definition split_whitespace :: "string \<Rightarrow> string list" where
  "split_whitespace s = filter (\<lambda>w. w \<noteq> []) (split_pred is_whitespace s)"

fun parse_tokens :: "string list \<Rightarrow> (string, scope) hashmap \<Rightarrow> string + (string, scope) hashmap" where
  "parse_tokens [] toks = Inr toks"
| "parse_tokens (raw # ls) toks =
     (let line = trim raw
      in if line = [] \<or> hd line = CHR 0x23 then parse_tokens ls toks
         else case split_whitespace line of
                tok # sc # _ \<Rightarrow>
                  (case parse_scope sc of
                     None \<Rightarrow> Inl (''unknown scope: '' @ debug_string sc)
                   | Some s \<Rightarrow> parse_tokens ls (hm_insert tok s toks))
              | _ \<Rightarrow> Inl (''bad token line: '' @ debug_string line))"

definition auth_from_env :: "string option \<Rightarrow> (string \<Rightarrow> string + string) \<Rightarrow> string + auth" where
  "auth_from_env path_env read_file =
     (case path_env of
        None \<Rightarrow> Inr auth_default
      | Some path \<Rightarrow>
          (case read_file path of
             Inl e \<Rightarrow> Inl e
           | Inr contents \<Rightarrow>
               (case parse_tokens (split_pred (\<lambda>c. c = CHR 0x0A) contents) [] of
                  Inl e \<Rightarrow> Inl e
                | Inr toks \<Rightarrow> if toks = [] then Inl (path @ '' defines no tokens'') else Inr \<lparr>tokens = toks, enabled = True\<rparr>)))"

definition show_scope :: "scope \<Rightarrow> string" where
  "show_scope s = (case s of Read \<Rightarrow> ''Read'' | Operator \<Rightarrow> ''Operator'')"

definition strip_bearer :: "string \<Rightarrow> string option" where
  "strip_bearer h = (if take 7 h = ''Bearer '' then Some (drop 7 h) else None)"

definition require :: "auth \<Rightarrow> string option \<Rightarrow> scope \<Rightarrow> status + unit" where
  "require a authorization needed =
     (if \<not> enabled a then Inr ()
      else case Option.bind authorization strip_bearer of
             None \<Rightarrow> Inl (Unauthenticated ''missing bearer token'')
           | Some token \<Rightarrow>
               (case hm_get (tokens a) token of
                  None \<Rightarrow> Inl (Unauthenticated ''unknown token'')
                | Some s \<Rightarrow>
                    if satisfies s needed then Inr () else Inl (PermissionDenied (show_scope needed @ '' scope required''))))"

section \<open>Properties\<close>

definition granted :: "auth \<Rightarrow> string option \<Rightarrow> scope \<Rightarrow> bool" where
  "granted a authorization needed \<longleftrightarrow> \<not> enabled a \<or>
     (\<exists>token s. authorization = Some (''Bearer '' @ token) \<and> hm_get (tokens a) token = Some s \<and> (s = Operator \<or> needed = Read))"

lemma satisfies_iff: "satisfies s needed \<longleftrightarrow> s = Operator \<or> needed = Read"
  by (cases s; cases needed) (simp_all add: satisfies_def rank_def)

lemma strip_bearer_Some: "strip_bearer h = Some t \<longleftrightarrow> h = ''Bearer '' @ t"
proof
  assume "strip_bearer h = Some t"
  then have "take 7 h = ''Bearer ''" "drop 7 h = t" by (auto simp: strip_bearer_def split: if_splits)
  then show "h = ''Bearer '' @ t" by (metis append_take_drop_id)
qed (simp add: strip_bearer_def)

text \<open>The token presented, if there is one.\<close>

definition presented :: "string option \<Rightarrow> string option" where
  "presented h = Option.bind h strip_bearer"

lemma presented_iff: "presented h = Some t \<longleftrightarrow> h = Some (''Bearer '' @ t)"
  by (cases h) (simp_all only: presented_def bind.simps strip_bearer_Some option.inject option.distinct)

lemma require_presented:
  "require a h needed =
     (if \<not> enabled a then Inr ()
      else case presented h of
             None \<Rightarrow> Inl (Unauthenticated ''missing bearer token'')
           | Some t \<Rightarrow> (case hm_get (tokens a) t of
               None \<Rightarrow> Inl (Unauthenticated ''unknown token'')
             | Some s \<Rightarrow> if s = Operator \<or> needed = Read then Inr () else Inl (PermissionDenied (show_scope needed @ '' scope required''))))"
  unfolding require_def presented_def satisfies_iff by (rule refl)

lemma granted_presented:
  "granted a h needed \<longleftrightarrow> \<not> enabled a \<or>
     (\<exists>t s. presented h = Some t \<and> hm_get (tokens a) t = Some s \<and> (s = Operator \<or> needed = Read))"
  unfolding granted_def presented_iff by (rule refl)

lemma require_iff: "require a h needed = Inr () \<longleftrightarrow> granted a h needed"
  unfolding require_presented granted_presented by (auto split: option.split)

lemma require_cases: "(\<exists>e. require a authorization needed = Inl e) \<or> require a authorization needed = Inr ()"
  by (cases "require a authorization needed") auto



end
