(* ===== verification/Registry.thy ===== *)
theory Registry
  imports Text_Tokens
begin

text \<open>
  The coordinator's view of the cluster (\<open>crates/coordinator/src/registry.rs\<close>): one leader
  per shard, the followers of each shard, the drain set and the virtual-shard placement
  table. Instants are milliseconds and \<open>saturating_duration_since\<close> is subtraction on
  naturals. Where the code walks a hash map and the result depends on the order of the
  walk, that order is an argument on the keys (\<open>lo\<close> for the leaders, \<open>fo\<close> for the
  followers). A panic is \<open>None\<close>.
\<close>

section \<open>State\<close>

datatype node_role = RoleUnspecified | RoleLeader | RoleFollower

record node_info =
  node_id :: string
  address :: string
  role :: node_role
  last_seen :: millis

record node_snapshot =
  snap_node_id :: string
  snap_address :: string
  snap_role :: node_role
  snap_shard_id :: u32
  since_seen :: millis
  snap_draining :: bool

definition from_info :: "node_info \<Rightarrow> u32 \<Rightarrow> millis \<Rightarrow> node_snapshot" where
  "from_info info shard_id now =
     \<lparr>snap_node_id = node_id info, snap_address = address info, snap_role = role info,
      snap_shard_id = shard_id, since_seen = now - last_seen info, snap_draining = False\<rparr>"

record registry =
  shard_count :: u32
  liveness_timeout :: millis
  leaders :: "(u32, node_info) hashmap"
  followers :: "(u32, node_info list) hashmap"
  draining :: "string set"
  vshards :: "u32 list"
  placement_version :: u64
  authority_replicated :: bool

record register_node_request =
  req_node_id :: string
  req_address :: string
  req_shard_id :: u32
  req_role :: node_role

record register_node_response =
  accepted :: bool
  cluster_size :: u32
  resp_message :: string

section \<open>Construction and placement\<close>

definition DEFAULT_LIVENESS_TIMEOUT :: millis where
  "DEFAULT_LIVENESS_TIMEOUT = 15000"

definition registry_new :: "u32 \<Rightarrow> registry" where
  "registry_new n =
     \<lparr>shard_count = n, liveness_timeout = DEFAULT_LIVENESS_TIMEOUT, leaders = [],
      followers = [], draining = {}, vshards = [], placement_version = 0,
      authority_replicated = False\<rparr>"

definition with_liveness_timeout :: "registry \<Rightarrow> millis \<Rightarrow> registry" where
  "with_liveness_timeout reg timeout = reg\<lparr>liveness_timeout := timeout\<rparr>"

definition with_vshards :: "registry \<Rightarrow> u32 \<Rightarrow> registry option" where
  "with_vshards reg v =
     (if shard_count reg = 0 \<and> v \<noteq> 0 then None
      else Some (reg\<lparr>vshards := map (\<lambda>i. word_of_nat i mod shard_count reg) [0..<unat v]\<rparr>))"

definition with_replicated_authority :: "registry \<Rightarrow> registry" where
  "with_replicated_authority reg = reg\<lparr>authority_replicated := True\<rparr>"

definition show_u32 :: "u32 \<Rightarrow> string" where
  "show_u32 w = show_nat (unat w)"

definition quoted :: "string \<Rightarrow> string" where
  "quoted s = [CHR 0x27] @ s @ [CHR 0x27]"

definition validate_reassign :: "registry \<Rightarrow> u32 \<Rightarrow> u32 \<Rightarrow> string + unit" where
  "validate_reassign reg vshard grp =
     (if vshards reg = [] then Inl ''virtual shards are not enabled''
      else if unat vshard \<ge> length (vshards reg)
        then Inl (''vshard '' @ show_u32 vshard @ '' out of range (V='' @ show_nat (length (vshards reg)) @ '')'')
      else if grp \<ge> shard_count reg
        then Inl (''group '' @ show_u32 grp @ '' out of range (N='' @ show_u32 (shard_count reg) @ '')'')
      else Inr ())"

definition reassign_vshard :: "registry \<Rightarrow> u32 \<Rightarrow> u32 \<Rightarrow> registry \<times> (string + unit)" where
  "reassign_vshard reg vshard grp =
     (if vshards reg = [] then (reg, Inl ''virtual shards are not enabled'')
      else if unat vshard \<ge> length (vshards reg)
        then (reg, Inl (''vshard '' @ show_u32 vshard @ '' out of range (V='' @ show_nat (length (vshards reg)) @ '')''))
      else if grp \<ge> shard_count reg
        then (reg, Inl (''group '' @ show_u32 grp @ '' out of range (N='' @ show_u32 (shard_count reg) @ '')''))
      else (reg\<lparr>vshards := (vshards reg)[unat vshard := grp],
                placement_version := placement_version reg + 1\<rparr>, Inr ()))"

section \<open>Operator intent\<close>

definition apply_drain_marker :: "registry \<Rightarrow> string \<Rightarrow> registry" where
  "apply_drain_marker reg nid = reg\<lparr>draining := insert nid (draining reg)\<rparr>"

definition knows_node :: "registry \<Rightarrow> string \<Rightarrow> bool" where
  "knows_node reg nid \<longleftrightarrow> list_ex (\<lambda>n. node_id n = nid) (hm_values (leaders reg))
     \<or> list_ex (\<lambda>n. node_id n = nid) (concat (hm_values (followers reg)))"

definition mark_draining :: "registry \<Rightarrow> string \<Rightarrow> registry \<times> bool" where
  "mark_draining reg nid =
     (let known = knows_node reg nid
      in (if known then reg\<lparr>draining := insert nid (draining reg)\<rparr> else reg, known))"

definition authority :: "registry \<Rightarrow> u32 list \<times> string list" where
  "authority reg = (vshards reg, sorted_list_of_set (draining reg))"

definition set_authority :: "registry \<Rightarrow> u32 list \<Rightarrow> string list \<Rightarrow> registry" where
  "set_authority reg vs ds =
     reg\<lparr>vshards := vs, draining := set ds, placement_version := placement_version reg + 1\<rparr>"

section \<open>Registration\<close>

definition reject :: "registry \<Rightarrow> string \<Rightarrow> register_node_response" where
  "reject reg message1 = \<lparr>accepted = False, cluster_size = shard_count reg, resp_message = message1\<rparr>"

fun upsert_node :: "node_info \<Rightarrow> node_info list \<Rightarrow> node_info list" where
  "upsert_node info [] = [info]"
| "upsert_node info (n # ns) = (if node_id n = node_id info then info # ns else n # upsert_node info ns)"

definition show_role :: "node_role \<Rightarrow> string" where
  "show_role r = (case r of RoleLeader \<Rightarrow> ''Leader'' | RoleFollower \<Rightarrow> ''Follower''
     | RoleUnspecified \<Rightarrow> ''Unspecified'')"

definition live_incumbent :: "registry \<Rightarrow> register_node_request \<Rightarrow> millis \<Rightarrow> node_info option" where
  "live_incumbent reg req now =
     (if req_role req = RoleLeader then
        case hm_get (leaders reg) (req_shard_id req) of
          Some current \<Rightarrow>
            (if now - last_seen current \<le> liveness_timeout reg \<and> node_id current \<noteq> req_node_id req
             then Some current else None)
        | None \<Rightarrow> None
      else None)"

definition register_at ::
  "registry \<Rightarrow> register_node_request \<Rightarrow> millis \<Rightarrow> registry \<times> register_node_response" where
  "register_at reg req now =
     (if req_shard_id req \<ge> shard_count reg then
        (reg, reject reg (''shard_id '' @ show_u32 (req_shard_id req) @ '' out of range for N='' @ show_u32 (shard_count reg)))
      else case live_incumbent reg req now of
        Some current \<Rightarrow>
          (reg, reject reg (''shard '' @ show_u32 (req_shard_id req) @ '' already has a live leader ''
             @ quoted (node_id current) @ ''; rejecting takeover by '' @ quoted (req_node_id req)))
      | None \<Rightarrow>
          (let info = \<lparr>node_id = req_node_id req, address = req_address req, role = req_role req, last_seen = now\<rparr>;
               ok = \<lparr>accepted = True, cluster_size = shard_count reg,
                     resp_message = ''registered shard '' @ show_u32 (req_shard_id req) @ '' as '' @ show_role (req_role req)\<rparr>
           in case req_role req of
             RoleLeader \<Rightarrow> (reg\<lparr>leaders := hm_insert (req_shard_id req) info (leaders reg)\<rparr>, ok)
           | RoleFollower \<Rightarrow>
               (let existing = (case hm_get (followers reg) (req_shard_id req) of Some ns \<Rightarrow> ns | None \<Rightarrow> [])
                in (reg\<lparr>followers := hm_insert (req_shard_id req) (upsert_node info existing) (followers reg)\<rparr>, ok))
           | RoleUnspecified \<Rightarrow> (reg, reject reg ''role unspecified'')))"

section \<open>Queries\<close>

definition leader_addresses :: "(u32 list \<Rightarrow> u32 list) \<Rightarrow> registry \<Rightarrow> string list" where
  "leader_addresses lo reg =
     map address (List.map_filter (hm_get (leaders reg)) (lo (hm_keys (leaders reg))))"

definition follower_addresses :: "registry \<Rightarrow> u32 \<Rightarrow> string list" where
  "follower_addresses reg shard_id =
     (case hm_get (followers reg) shard_id of Some nodes \<Rightarrow> map address nodes | None \<Rightarrow> [])"

definition leaders_registered :: "registry \<Rightarrow> nat" where
  "leaders_registered reg = length (leaders reg)"

definition all_shards_have_leader :: "registry \<Rightarrow> bool" where
  "all_shards_have_leader reg \<longleftrightarrow> of_len (leaders reg) = shard_count reg"

section \<open>Liveness\<close>

definition leader_shard :: "(u32 list \<Rightarrow> u32 list) \<Rightarrow> registry \<Rightarrow> string \<Rightarrow> u32 option" where
  "leader_shard lo reg nid =
     List.find (\<lambda>s. case hm_get (leaders reg) s of Some n \<Rightarrow> node_id n = nid | None \<Rightarrow> False)
       (lo (hm_keys (leaders reg)))"

definition follower_shard :: "(u32 list \<Rightarrow> u32 list) \<Rightarrow> registry \<Rightarrow> string \<Rightarrow> u32 option" where
  "follower_shard fo reg nid =
     List.find (\<lambda>s. case hm_get (followers reg) s of
                      Some ns \<Rightarrow> list_ex (\<lambda>n. node_id n = nid) ns | None \<Rightarrow> False)
       (fo (hm_keys (followers reg)))"

fun touch_first :: "string \<Rightarrow> millis \<Rightarrow> node_info list \<Rightarrow> node_info list" where
  "touch_first nid now [] = []"
| "touch_first nid now (n # ns) =
     (if node_id n = nid then n\<lparr>last_seen := now\<rparr> # ns else n # touch_first nid now ns)"

definition touch_leader :: "registry \<Rightarrow> u32 \<Rightarrow> millis \<Rightarrow> registry" where
  "touch_leader reg shard now =
     (case hm_get (leaders reg) shard of
        Some n \<Rightarrow> reg\<lparr>leaders := hm_insert shard (n\<lparr>last_seen := now\<rparr>) (leaders reg)\<rparr>
      | None \<Rightarrow> reg)"

definition heartbeat ::
  "(u32 list \<Rightarrow> u32 list) \<Rightarrow> (u32 list \<Rightarrow> u32 list) \<Rightarrow> registry \<Rightarrow> string \<Rightarrow> millis \<Rightarrow>
    registry \<times> node_role option" where
  "heartbeat lo fo reg nid now =
     (case leader_shard lo reg nid of
        Some shard \<Rightarrow> (touch_leader reg shard now, Some RoleLeader)
      | None \<Rightarrow>
          (case follower_shard fo reg nid of
             Some shard \<Rightarrow>
               (reg\<lparr>followers := hm_insert shard
                      (touch_first nid now (the (hm_get (followers reg) shard))) (followers reg)\<rparr>,
                Some RoleFollower)
           | None \<Rightarrow> (reg, None)))"

text \<open>The removal loop over one follower list, with its index.\<close>

function reap_loop ::
  "(node_info \<Rightarrow> bool) \<Rightarrow> nat \<Rightarrow> node_info list \<Rightarrow> node_info list \<Rightarrow> node_info list \<times> node_info list" where
  "reap_loop dead i nodes removed =
     (if i < length nodes then
        if dead (nodes ! i)
        then reap_loop dead i (take i nodes @ drop (Suc i) nodes) (removed @ [nodes ! i])
        else reap_loop dead (Suc i) nodes removed
      else (nodes, removed))"
  by pat_completeness auto
termination by (relation "measure (\<lambda>(_, i, nodes, _). length nodes - i)") auto

declare reap_loop.simps [simp del]

definition reap_followers ::
  "(node_info \<Rightarrow> bool) \<Rightarrow> (u32, node_info list) hashmap \<times> node_info list \<Rightarrow> u32 \<Rightarrow>
    (u32, node_info list) hashmap \<times> node_info list" where
  "reap_followers dead st shard =
     (let (fs, removed) = st in
        case hm_get fs shard of
          Some nodes \<Rightarrow>
            (let (kept, removed') = reap_loop dead 0 nodes removed in (hm_insert shard kept fs, removed'))
        | None \<Rightarrow> (fs, removed))"

definition reap_dead ::
  "(u32 list \<Rightarrow> u32 list) \<Rightarrow> (u32 list \<Rightarrow> u32 list) \<Rightarrow> registry \<Rightarrow> millis \<Rightarrow> millis \<Rightarrow>
    registry \<times> node_info list" where
  "reap_dead lo fo reg now timeout =
     (let dead = (\<lambda>n. now - last_seen n > timeout);
          dead_shards = filter (\<lambda>s. case hm_get (leaders reg) s of Some n \<Rightarrow> dead n | None \<Rightarrow> False)
            (lo (hm_keys (leaders reg)));
          removed_leaders = List.map_filter (hm_get (leaders reg)) dead_shards;
          (fs, removed) = foldl (reap_followers dead) (followers reg, removed_leaders)
            (fo (hm_keys (followers reg)))
      in (reg\<lparr>leaders := foldl (\<lambda>ls s. hm_remove s ls) (leaders reg) dead_shards,
              followers := fs,
              draining := (if authority_replicated reg then draining reg
                           else draining reg - node_id ` set removed)\<rparr>, removed))"

definition report_raft_leader ::
  "(u32 list \<Rightarrow> u32 list) \<Rightarrow> (u32 list \<Rightarrow> u32 list) \<Rightarrow> registry \<Rightarrow> string \<Rightarrow> millis \<Rightarrow>
    registry \<times> u32 option" where
  "report_raft_leader lo fo reg nid now =
     (case leader_shard lo reg nid of
        Some shard \<Rightarrow> (touch_leader reg shard now, None)
      | None \<Rightarrow>
          (case follower_shard fo reg nid of
             None \<Rightarrow> (reg, None)
           | Some shard \<Rightarrow>
               (let nodes = the (hm_get (followers reg) shard);
                    idx = length (takeWhile (\<lambda>n. node_id n \<noteq> nid) nodes);
                    promoted = (nodes ! idx)\<lparr>role := RoleLeader, last_seen := now\<rparr>;
                    rest = take idx nodes @ drop (Suc idx) nodes;
                    rest' = (case hm_get (leaders reg) shard of
                               Some old \<Rightarrow> rest @ [old\<lparr>role := RoleFollower\<rparr>]
                             | None \<Rightarrow> rest)
                in (reg\<lparr>leaders := hm_insert shard promoted (leaders reg),
                        followers := hm_insert shard rest' (followers reg)\<rparr>, Some shard))))"

section \<open>Views and failover\<close>

definition cmp_snapshot :: "node_snapshot \<Rightarrow> node_snapshot \<Rightarrow> ordering" where
  "cmp_snapshot a b =
     ord_then (cmp_lin (snap_shard_id a) (snap_shard_id b))
       (ord_then (cmp_lin (snap_role a \<noteq> RoleLeader) (snap_role b \<noteq> RoleLeader))
         (cmp_lin (snap_node_id a) (snap_node_id b)))"

definition snap_of :: "registry \<Rightarrow> millis \<Rightarrow> u32 \<Rightarrow> node_info \<Rightarrow> node_snapshot" where
  "snap_of reg now shard_id info =
     (from_info info shard_id now)\<lparr>snap_draining := node_id info \<in> draining reg\<rparr>"

definition snapshot ::
  "(u32 list \<Rightarrow> u32 list) \<Rightarrow> (u32 list \<Rightarrow> u32 list) \<Rightarrow> registry \<Rightarrow> millis \<Rightarrow> node_snapshot list" where
  "snapshot lo fo reg now =
     sort_by cmp_snapshot
       (List.map_filter (\<lambda>s. map_option (snap_of reg now s) (hm_get (leaders reg) s))
          (lo (hm_keys (leaders reg)))
        @ concat (map (\<lambda>s. case hm_get (followers reg) s of
                             Some ns \<Rightarrow> map (snap_of reg now s) ns | None \<Rightarrow> [])
            (fo (hm_keys (followers reg)))))"

definition members_of ::
  "(u32 list \<Rightarrow> u32 list) \<Rightarrow> (u32 list \<Rightarrow> u32 list) \<Rightarrow> registry \<Rightarrow> u32 \<Rightarrow> millis \<Rightarrow> node_snapshot list" where
  "members_of lo fo reg shard_id now =
     filter (\<lambda>n. snap_shard_id n = shard_id) (snapshot lo fo reg now)"

definition promote_shard :: "registry \<times> (u32 \<times> string) list \<Rightarrow> u32 \<Rightarrow> registry \<times> (u32 \<times> string) list" where
  "promote_shard st shard =
     (let (reg, promotions) = st in
        if hm_get (leaders reg) shard \<noteq> None then (reg, promotions)
        else case hm_get (followers reg) shard of
          None \<Rightarrow> (reg, promotions)
        | Some f \<Rightarrow>
            if f = [] then (reg, promotions)
            else (let node = (last f)\<lparr>role := RoleLeader\<rparr>
                  in (reg\<lparr>leaders := hm_insert shard node (leaders reg),
                          followers := (if butlast f = [] then hm_remove shard (followers reg)
                                        else hm_insert shard (butlast f) (followers reg))\<rparr>,
                      promotions @ [(shard, node_id node)])))"

definition promote_orphaned_shards ::
  "(u32 list \<Rightarrow> u32 list) \<Rightarrow> registry \<Rightarrow> registry \<times> (u32 \<times> string) list" where
  "promote_orphaned_shards fo reg = foldl promote_shard (reg, []) (fo (hm_keys (followers reg)))"

text \<open>One tick of the reaper task of \<open>main.rs\<close>, under the registry's write lock.\<close>

definition reaper_tick ::
  "(u32 list \<Rightarrow> u32 list) \<Rightarrow> (u32 list \<Rightarrow> u32 list) \<Rightarrow> registry \<Rightarrow> millis \<Rightarrow> millis \<Rightarrow>
    registry \<times> node_info list \<times> (u32 \<times> string) list" where
  "reaper_tick lo fo reg now timeout =
     (let (reg1, removed) = reap_dead lo fo reg now timeout;
          (reg2, promotions) = promote_orphaned_shards fo reg1
      in (reg2, removed, promotions))"

section \<open>Lookups after each operation\<close>

abbreviation leader_of :: "registry \<Rightarrow> u32 \<Rightarrow> node_info option" where
  "leader_of reg s \<equiv> hm_get (leaders reg) s"

abbreviation followers_of :: "registry \<Rightarrow> u32 \<Rightarrow> node_info list option" where
  "followers_of reg s \<equiv> hm_get (followers reg) s"

abbreviation dead_at :: "millis \<Rightarrow> millis \<Rightarrow> node_info \<Rightarrow> bool" where
  "dead_at now timeout n \<equiv> now - last_seen n > timeout"

lemma upsert_node_set: "set (upsert_node info ns) \<subseteq> insert info (set ns)"
  by (induction ns) auto

lemma upsert_node_mem: "info \<in> set (upsert_node info ns)"
  by (induction ns) auto

lemma touch_first_set: "n \<in> set (touch_first nid now ns) \<Longrightarrow>
    n \<in> set ns \<or> (\<exists>m \<in> set ns. node_id m = nid \<and> n = m\<lparr>last_seen := now\<rparr>)"
  by (induction ns) (auto split: if_splits)

lemma touch_first_mem:
  "\<exists>n \<in> set ns. node_id n = nid \<Longrightarrow>
    \<exists>n \<in> set (touch_first nid now ns). node_id n = nid \<and> last_seen n = now"
  by (induction ns) auto

lemma reap_loop_filter:
  "reap_loop dead i nodes removed =
    (take i nodes @ filter (\<lambda>n. \<not> dead n) (drop i nodes), removed @ filter dead (drop i nodes))"
proof (induction dead i nodes removed rule: reap_loop.induct)
  case (1 dead i nodes removed)
  show ?case
  proof (cases "i < length nodes")
    case True
    then have drop: "drop i nodes = nodes ! i # drop (Suc i) nodes"
      and take: "take (Suc i) nodes = take i nodes @ [nodes ! i]"
      by (simp_all add: Cons_nth_drop_Suc take_Suc_conv_app_nth)
    from True 1 show ?thesis
      by (cases "dead (nodes ! i)") (simp_all add: reap_loop.simps [of dead i nodes] drop take)
  qed (simp add: reap_loop.simps)
qed

lemma reap_followers_fold:
  assumes "hm_wf fs" and "distinct ks"
  shows "hm_wf (fst (foldl (reap_followers dead) (fs, removed) ks))"
    and "hm_get (fst (foldl (reap_followers dead) (fs, removed) ks)) s =
      (if s \<in> set ks then map_option (filter (\<lambda>n. \<not> dead n)) (hm_get fs s) else hm_get fs s)"
    and "snd (foldl (reap_followers dead) (fs, removed) ks) =
      removed @ concat (map (\<lambda>s. case hm_get fs s of Some ns \<Rightarrow> filter dead ns | None \<Rightarrow> []) ks)"
proof (atomize (full), use assms in \<open>induction ks arbitrary: fs removed\<close>)
  case (Cons k ks)
  obtain fs' removed' where step: "reap_followers dead (fs, removed) k = (fs', removed')"
    by fastforce
  then have "hm_wf fs'"
    and get: "hm_get fs' = (hm_get fs)(k := map_option (filter (\<lambda>n. \<not> dead n)) (hm_get fs k))"
    and rem: "removed' = removed @ (case hm_get fs k of Some ns \<Rightarrow> filter dead ns | None \<Rightarrow> [])"
    using Cons.prems(1)
    by (auto simp: reap_followers_def reap_loop_filter hashmap_simps fun_eq_iff split: option.splits)
  have "map (\<lambda>s. case hm_get fs' s of Some ns \<Rightarrow> filter dead ns | None \<Rightarrow> []) ks
      = map (\<lambda>s. case hm_get fs s of Some ns \<Rightarrow> filter dead ns | None \<Rightarrow> []) ks"
    using Cons.prems(2) by (intro map_cong) (auto simp: get)
  with Cons.IH [OF \<open>hm_wf fs'\<close>, of removed'] Cons.prems(2) show ?case
    by (simp add: step rem) (simp add: get)
qed simp

lemma remove_fold:
  "hm_get (foldl (\<lambda>ls s. hm_remove s ls) ls ks) s = (if s \<in> set ks then None else hm_get ls s)"
  "hm_wf ls \<Longrightarrow> hm_wf (foldl (\<lambda>ls s. hm_remove s ls) ls ks)"
  by (induction ks arbitrary: ls) (auto simp: hashmap_simps)

lemma order_keys:
  assumes "iteration_order f" and "hm_wf m"
  shows "distinct (f (hm_keys m))" and "s \<in> set (f (hm_keys m)) \<longleftrightarrow> hm_get m s \<noteq> None"
  using assms iteration_order_mset [OF assms(1), of "hm_keys m"]
  by (metis mset_eq_imp_distinct_iff)
    (metis assms(1) image_set iteration_order_set map_of_eq_None_iff)

lemma reap_dead_lookup:
  assumes lo: "iteration_order lo" and fo: "iteration_order fo"
    and wf: "hm_wf (leaders reg)" "hm_wf (followers reg)"
  shows "leader_of (fst (reap_dead lo fo reg now timeout)) s =
      (case leader_of reg s of Some n \<Rightarrow> if dead_at now timeout n then None else Some n | None \<Rightarrow> None)"
    and "followers_of (fst (reap_dead lo fo reg now timeout)) s =
      map_option (filter (\<lambda>n. \<not> dead_at now timeout n)) (followers_of reg s)"
    and "hm_wf (leaders (fst (reap_dead lo fo reg now timeout)))"
    and "hm_wf (followers (fst (reap_dead lo fo reg now timeout)))"
  using wf order_keys [OF lo wf(1)] order_keys [OF fo wf(2)]
    reap_followers_fold [OF wf(2) order_keys(1) [OF fo wf(2)]]
  by (auto simp: reap_dead_def Let_def split_beta remove_fold split: option.splits)

lemma reap_dead_rest [simp]:
  "shard_count (fst (reap_dead lo fo reg now t)) = shard_count reg"
  "vshards (fst (reap_dead lo fo reg now t)) = vshards reg"
  "liveness_timeout (fst (reap_dead lo fo reg now t)) = liveness_timeout reg"
  by (simp_all add: reap_dead_def Let_def split_beta)

definition orphan :: "registry \<Rightarrow> u32 \<Rightarrow> node_info list option" where
  "orphan reg s = (if leader_of reg s = None \<and> followers_of reg s \<noteq> Some [] then followers_of reg s else None)"

definition failover_leader :: "registry \<Rightarrow> u32 \<Rightarrow> node_info option" where
  "failover_leader reg s =
     (case orphan reg s of Some f \<Rightarrow> Some ((last f)\<lparr>role := RoleLeader\<rparr>) | None \<Rightarrow> leader_of reg s)"

definition failover_followers :: "registry \<Rightarrow> u32 \<Rightarrow> node_info list option" where
  "failover_followers reg s =
     (case orphan reg s of
        Some f \<Rightarrow> if butlast f = [] then None else Some (butlast f)
      | None \<Rightarrow> followers_of reg s)"

lemma promote_shard_step:
  assumes "hm_wf (leaders reg)" and "hm_wf (followers reg)"
  shows "hm_wf (leaders (fst (promote_shard (reg, ps) k)))"
    and "hm_wf (followers (fst (promote_shard (reg, ps) k)))"
    and "leader_of (fst (promote_shard (reg, ps) k)) s = (if s = k then failover_leader reg s else leader_of reg s)"
    and "followers_of (fst (promote_shard (reg, ps) k)) s = (if s = k then failover_followers reg s else followers_of reg s)"
    and "shard_count (fst (promote_shard (reg, ps) k)) = shard_count reg"
    and "draining (fst (promote_shard (reg, ps) k)) = draining reg"
    and "vshards (fst (promote_shard (reg, ps) k)) = vshards reg"
    and "liveness_timeout (fst (promote_shard (reg, ps) k)) = liveness_timeout reg"
  using assms
  by (auto simp: promote_shard_def Let_def failover_leader_def failover_followers_def orphan_def
      hashmap_simps split: option.splits)

lemma promote_fold:
  assumes "hm_wf (leaders reg)" and "hm_wf (followers reg)" and "distinct ks"
  defines "reg' \<equiv> \<lambda>ps. fst (foldl promote_shard (reg, ps) ks)"
  shows "hm_wf (leaders (reg' ps)) \<and> hm_wf (followers (reg' ps))
    \<and> leader_of (reg' ps) s = (if s \<in> set ks then failover_leader reg s else leader_of reg s)
    \<and> followers_of (reg' ps) s = (if s \<in> set ks then failover_followers reg s else followers_of reg s)
    \<and> shard_count (reg' ps) = shard_count reg \<and> draining (reg' ps) = draining reg
    \<and> vshards (reg' ps) = vshards reg \<and> liveness_timeout (reg' ps) = liveness_timeout reg"
  unfolding reg'_def using assms(1-3)
proof (induction ks arbitrary: reg ps)
  case (Cons k ks)
  obtain reg1 ps1 where step: "promote_shard (reg, ps) k = (reg1, ps1)" by fastforce
  note facts = promote_shard_step [OF Cons.prems(1,2), of ps k, unfolded step fst_conv]
  have same: "leader_of reg1 s = leader_of reg s" "followers_of reg1 s = followers_of reg s" if "s \<noteq> k"
    using facts(3,4) that by auto
  then have "failover_leader reg1 s = failover_leader reg s"
    "failover_followers reg1 s = failover_followers reg s" if "s \<noteq> k"
    using that by (simp_all add: failover_leader_def failover_followers_def orphan_def split: option.split)
  then show ?case
    using Cons.IH [OF facts(1,2), of ps1] Cons.prems(3) facts(3-8) by (auto simp: step)
qed simp

lemma promote_lookup:
  assumes fo: "iteration_order fo" and wf: "hm_wf (leaders reg)" "hm_wf (followers reg)"
  shows "leader_of (fst (promote_orphaned_shards fo reg)) s = failover_leader reg s"
    and "followers_of (fst (promote_orphaned_shards fo reg)) s = failover_followers reg s"
    and "hm_wf (leaders (fst (promote_orphaned_shards fo reg)))"
    and "hm_wf (followers (fst (promote_orphaned_shards fo reg)))"
    and "shard_count (fst (promote_orphaned_shards fo reg)) = shard_count reg"
    and "draining (fst (promote_orphaned_shards fo reg)) = draining reg"
    and "vshards (fst (promote_orphaned_shards fo reg)) = vshards reg"
    and "liveness_timeout (fst (promote_orphaned_shards fo reg)) = liveness_timeout reg"
  using promote_fold [OF wf order_keys(1) [OF fo wf(2)], of "[]" s] order_keys(2) [OF fo wf(2), of s]
  by (auto simp: promote_orphaned_shards_def failover_leader_def failover_followers_def orphan_def
      split: if_splits)

lemma heartbeat_lookup:
  "leader_of (fst (heartbeat lo fo reg nid now)) s =
    (if leader_shard lo reg nid = Some s
     then map_option (\<lambda>n. n\<lparr>last_seen := now\<rparr>) (leader_of reg s) else leader_of reg s)"
  "followers_of (fst (heartbeat lo fo reg nid now)) s =
    (if leader_shard lo reg nid = None \<and> follower_shard fo reg nid = Some s
     then Some (touch_first nid now (the (followers_of reg s))) else followers_of reg s)"
  by (auto simp: heartbeat_def touch_leader_def hashmap_simps split: option.splits)

lemma leader_shard_Some:
  assumes "iteration_order lo" and "leader_shard lo reg nid = Some s"
  shows "\<exists>n. leader_of reg s = Some n \<and> node_id n = nid"
  using assms by (auto simp: leader_shard_def find_Some_iff split: option.splits)

lemma follower_shard_Some:
  assumes "iteration_order fo" and "follower_shard fo reg nid = Some s"
  shows "\<exists>ns. followers_of reg s = Some ns \<and> (\<exists>n \<in> set ns. node_id n = nid)"
  using assms by (auto simp: follower_shard_def find_Some_iff list_ex_iff split: option.splits)

section \<open>Invariant\<close>

text \<open>
  Shards stay within \<open>0..N\<close>, a routed leader carries the leader role and a follower entry
  the follower role, and every virtual shard belongs to an existing group.
\<close>

definition registry_inv :: "registry \<Rightarrow> bool" where
  "registry_inv reg \<longleftrightarrow> hm_wf (leaders reg) \<and> hm_wf (followers reg) \<and> finite (draining reg)
     \<and> (\<forall>s n. leader_of reg s = Some n \<longrightarrow> s < shard_count reg \<and> role n = RoleLeader)
     \<and> (\<forall>s ns. followers_of reg s = Some ns \<longrightarrow> s < shard_count reg \<and> (\<forall>n \<in> set ns. role n = RoleFollower))
     \<and> (\<forall>g \<in> set (vshards reg). g < shard_count reg)"

lemma inv_wf: "registry_inv reg \<Longrightarrow> hm_wf (leaders reg) \<and> hm_wf (followers reg)"
  by (simp add: registry_inv_def)

lemma registry_new_inv: "registry_inv (registry_new n)"
  by (simp add: registry_inv_def registry_new_def)

lemma with_vshards_inv:
  assumes "with_vshards (registry_new n) v = Some reg"
  shows "registry_inv reg"
proof -
  have "n \<noteq> 0" if "[0..<unat v] \<noteq> []"
    using assms that by (auto simp: with_vshards_def registry_new_def split: if_splits)
  then have "\<forall>i \<in> set [0..<unat v]. (word_of_nat i :: u32) mod n < n"
    by (auto simp: word_mod_less_divisor word_neq_0_conv)
  with assms show ?thesis
    by (auto simp: with_vshards_def registry_new_def registry_inv_def split: if_splits)
qed

lemma register_at_inv: "registry_inv reg \<Longrightarrow> registry_inv (fst (register_at reg req now))"
  using upsert_node_set
  by (fastforce simp: register_at_def registry_inv_def Let_def hashmap_simps not_le
      split: option.splits node_role.splits if_splits)

lemma heartbeat_inv:
  assumes "iteration_order lo" "iteration_order fo" and inv: "registry_inv reg"
  shows "registry_inv (fst (heartbeat lo fo reg nid now))"
proof -
  have "hm_wf (leaders (fst (heartbeat lo fo reg nid now)))"
    "hm_wf (followers (fst (heartbeat lo fo reg nid now)))"
    "shard_count (fst (heartbeat lo fo reg nid now)) = shard_count reg"
    "draining (fst (heartbeat lo fo reg nid now)) = draining reg"
    "vshards (fst (heartbeat lo fo reg nid now)) = vshards reg"
    using inv_wf [OF inv]
    by (auto simp: heartbeat_def touch_leader_def hashmap_simps split: option.split)
  with inv follower_shard_Some [OF assms(2), of reg nid] show ?thesis
    unfolding registry_inv_def heartbeat_lookup
    by (auto dest!: touch_first_set split: if_splits)
qed

lemma reap_dead_inv:
  assumes "iteration_order lo" "iteration_order fo" and inv: "registry_inv reg"
  shows "registry_inv (fst (reap_dead lo fo reg now timeout))"
proof -
  note lookup = reap_dead_lookup [OF assms(1,2)]
  have "finite (draining (fst (reap_dead lo fo reg now timeout)))"
    using inv by (simp add: reap_dead_def registry_inv_def Let_def split_beta)
  with inv show ?thesis
    by (auto simp: registry_inv_def lookup split: option.splits if_splits)
qed

lemma report_raft_leader_inv:
  assumes "iteration_order lo" "iteration_order fo" and inv: "registry_inv reg"
  shows "registry_inv (fst (report_raft_leader lo fo reg nid now))"
proof (cases "leader_shard lo reg nid")
  case (Some s)
  with inv show ?thesis
    by (auto simp: report_raft_leader_def touch_leader_def registry_inv_def hashmap_simps
        split: option.split)
next
  case None
  show ?thesis
  proof (cases "follower_shard fo reg nid")
    case (Some s)
    obtain ns where "followers_of reg s = Some ns"
      using follower_shard_Some [OF assms(2) Some] by blast
    with None Some inv show ?thesis
      by (auto simp: report_raft_leader_def registry_inv_def Let_def hashmap_simps
          dest: in_set_takeD in_set_dropD split: option.split)
  qed (use None inv in \<open>simp add: report_raft_leader_def\<close>)
qed

lemma promote_inv:
  assumes "iteration_order fo" and inv: "registry_inv reg"
  shows "registry_inv (fst (promote_orphaned_shards fo reg))"
  using promote_lookup [OF assms(1)] inv
  by (auto simp: registry_inv_def failover_leader_def failover_followers_def orphan_def
      dest: in_set_butlastD split: option.splits if_splits)

lemma reassign_inv: "registry_inv reg \<Longrightarrow> registry_inv (fst (reassign_vshard reg v g))"
  by (auto simp: registry_inv_def reassign_vshard_def not_le dest!: set_update_subset_insert [THEN subsetD])

section \<open>Every reachable registry satisfies the invariant\<close>

text \<open>
  The operations the coordinator runs on its registry, in any order. A restored placement
  table comes from the authority of a registry of the same size.
\<close>

inductive registry_step :: "registry \<Rightarrow> registry \<Rightarrow> bool" where
  step_register: "registry_step reg (fst (register_at reg req now))"
| step_heartbeat: "iteration_order lo \<Longrightarrow> iteration_order fo \<Longrightarrow>
    registry_step reg (fst (heartbeat lo fo reg nid now))"
| step_report: "iteration_order lo \<Longrightarrow> iteration_order fo \<Longrightarrow>
    registry_step reg (fst (report_raft_leader lo fo reg nid now))"
| step_reap: "iteration_order lo \<Longrightarrow> iteration_order fo \<Longrightarrow>
    registry_step reg (fst (reap_dead lo fo reg now timeout))"
| step_promote: "iteration_order fo \<Longrightarrow> registry_step reg (fst (promote_orphaned_shards fo reg))"
| step_drain: "registry_step reg (fst (mark_draining reg nid))"
| step_marker: "registry_step reg (apply_drain_marker reg nid)"
| step_reassign: "registry_step reg (fst (reassign_vshard reg v g))"
| step_restore: "registry_inv other \<Longrightarrow> shard_count other = shard_count reg \<Longrightarrow>
    authority other = (vs, ds) \<Longrightarrow> registry_step reg (set_authority reg vs ds)"

inductive registry_reachable :: "registry \<Rightarrow> bool" where
  reach_plain: "registry_reachable (with_liveness_timeout (registry_new n) t)"
| reach_vshards: "with_vshards (registry_new n) v = Some reg \<Longrightarrow> registry_reachable reg"
| reach_replicated: "registry_reachable reg \<Longrightarrow> registry_reachable (with_replicated_authority reg)"
| reach_step: "registry_reachable reg \<Longrightarrow> registry_step reg reg' \<Longrightarrow> registry_reachable reg'"

inductive_cases registry_stepE: "registry_step reg reg'"

lemma registry_step_inv: "registry_step reg reg' \<Longrightarrow> registry_inv reg \<Longrightarrow> registry_inv reg'"
proof (induction rule: registry_step.induct)
  case (step_restore other reg vs ds)
  then show ?case by (auto simp: registry_inv_def set_authority_def authority_def)
next
  case (step_drain reg nid)
  then show ?case by (simp add: mark_draining_def registry_inv_def Let_def)
next
  case (step_marker reg nid)
  then show ?case by (simp add: apply_drain_marker_def registry_inv_def)
qed (auto intro: register_at_inv heartbeat_inv report_raft_leader_inv reap_dead_inv promote_inv reassign_inv)



section \<open>Leadership\<close>

text \<open>
  C16: The registration guard. While the leader of a shard has been seen within the liveness
  window, whatever registers, the shard keeps being led by that node; a refused registration
  leaves the registry exactly as it was, and a node that registers as leader of a shard in
  range is accepted when no different live leader holds it.
\<close>

theorem register_keeps_live_leader:
  "(\<forall>s cur. leader_of reg s = Some cur \<longrightarrow> now - last_seen cur \<le> liveness_timeout reg \<longrightarrow>
      (\<exists>n. leader_of (fst (register_at reg req now)) s = Some n \<and> node_id n = node_id cur))
   \<and> (\<not> accepted (snd (register_at reg req now)) \<longrightarrow> fst (register_at reg req now) = reg)
   \<and> (req_role req = RoleLeader \<longrightarrow> req_shard_id req < shard_count reg \<longrightarrow>
      accepted (snd (register_at reg req now)) = (live_incumbent reg req now = None)
      \<and> (live_incumbent reg req now = None \<longrightarrow>
         leader_of (fst (register_at reg req now)) (req_shard_id req)
           = Some \<lparr>node_id = req_node_id req, address = req_address req, role = RoleLeader, last_seen = now\<rparr>))"
proof (intro conjI allI impI)
  fix s cur assume "leader_of reg s = Some cur" "now - last_seen cur \<le> liveness_timeout reg"
  then show "\<exists>n. leader_of (fst (register_at reg req now)) s = Some n \<and> node_id n = node_id cur"
    by (auto simp: register_at_def live_incumbent_def Let_def hashmap_simps
        split: option.split node_role.split)
next
  assume "\<not> accepted (snd (register_at reg req now))"
  then show "fst (register_at reg req now) = reg"
    by (auto simp: register_at_def Let_def split: option.splits node_role.splits if_splits)
qed (auto simp: register_at_def reject_def Let_def hashmap_simps not_le [symmetric] split: option.splits)

abbreviation sample_node :: "string \<Rightarrow> node_role \<Rightarrow> millis \<Rightarrow> node_info" where
  "sample_node nid r t \<equiv> \<lparr>node_id = nid, address = ''host'', role = r, last_seen = t\<rparr>"

abbreviation sample_registry :: registry where
  "sample_registry \<equiv> (registry_new 2)\<lparr>leaders := [(0, sample_node ''a'' RoleLeader 100)],
     followers := [(0, [sample_node ''b'' RoleFollower 20000]), (1, [sample_node ''c'' RoleFollower 20000])]\<rparr>"

theorem register_keeps_live_leader_witness:
  "\<exists>n. leader_of (fst (register_at sample_registry
      \<lparr>req_node_id = ''z'', req_address = ''h'', req_shard_id = 0, req_role = RoleLeader\<rparr> 200)) 0 = Some n
    \<and> node_id n = ''a''"
  using register_keeps_live_leader [THEN conjunct1, rule_format, of sample_registry 0
      "sample_node ''a'' RoleLeader 100" 200]
  by (simp add: registry_new_def DEFAULT_LIVENESS_TIMEOUT_def)

definition live_followers :: "registry \<Rightarrow> millis \<Rightarrow> millis \<Rightarrow> u32 \<Rightarrow> node_info list" where
  "live_followers reg now timeout s =
     filter (\<lambda>n. \<not> dead_at now timeout n) (the_list (followers_of reg s))"

definition members_at :: "registry \<Rightarrow> u32 \<Rightarrow> node_info list" where
  "members_at reg s = (case leader_of reg s of Some n \<Rightarrow> [n] | None \<Rightarrow> []) @ the_list (followers_of reg s)"

lemma knows_node_members:
  assumes "hm_wf (leaders reg)" and "hm_wf (followers reg)"
  shows "knows_node reg nid \<longleftrightarrow> (\<exists>s. \<exists>n \<in> set (members_at reg s). node_id n = nid)"
proof -
  have "(\<exists>n \<in> set (hm_values (leaders reg)). node_id n = nid)
      \<longleftrightarrow> (\<exists>s n. leader_of reg s = Some n \<and> node_id n = nid)"
    unfolding map_of_eq_Some_iff [OF assms(1)] by force
  moreover have "(\<exists>n \<in> set (concat (hm_values (followers reg))). node_id n = nid)
      \<longleftrightarrow> (\<exists>s ns. followers_of reg s = Some ns \<and> (\<exists>n \<in> set ns. node_id n = nid))"
    unfolding map_of_eq_Some_iff [OF assms(2)] by force
  moreover have "(\<exists>n \<in> set (members_at reg s). node_id n = nid)
      \<longleftrightarrow> (\<exists>n. leader_of reg s = Some n \<and> node_id n = nid)
        \<or> (\<exists>ns. followers_of reg s = Some ns \<and> (\<exists>n \<in> set ns. node_id n = nid))" for s
    by (cases "leader_of reg s"; cases "followers_of reg s") (auto simp: members_at_def)
  ultimately show ?thesis unfolding knows_node_def list_ex_iff by blast
qed

text \<open>
  C17: One tick of the reaper is exact failover. A leader seen within the timeout stays; a
  shard whose leader died is led by the last of its followers still alive; a shard without a
  live member has no leader; and the members left, up to the promoted role, are exactly the
  members that were alive.
\<close>

theorem reaper_tick_failover:
  assumes "iteration_order lo" "iteration_order fo" and inv: "registry_inv reg"
  shows "leader_of (fst (reaper_tick lo fo reg now timeout)) s =
      (case leader_of reg s of
         Some n \<Rightarrow> if \<not> dead_at now timeout n then Some n
           else if live_followers reg now timeout s = [] then None
           else Some ((last (live_followers reg now timeout s))\<lparr>role := RoleLeader\<rparr>)
       | None \<Rightarrow> if live_followers reg now timeout s = [] then None
           else Some ((last (live_followers reg now timeout s))\<lparr>role := RoleLeader\<rparr>))
    \<and> mset (map node_id (members_at (fst (reaper_tick lo fo reg now timeout)) s))
      = mset (map node_id (filter (\<lambda>n. \<not> dead_at now timeout n) (members_at reg s)))"
proof -
  note wf = inv_wf [OF inv]
  let ?dead = "dead_at now timeout" and ?fs = "followers_of reg s"
  let ?r1 = "fst (reap_dead lo fo reg now timeout)"
  note reap = reap_dead_lookup [OF assms(1,2) wf [THEN conjunct1] wf [THEN conjunct2], of now timeout]
  have tick: "fst (reaper_tick lo fo reg now timeout) = fst (promote_orphaned_shards fo ?r1)"
    by (simp add: reaper_tick_def split_beta)
  note promo = promote_lookup(1,2) [OF assms(2) reap(3,4), of s]
  have live: "live_followers reg now timeout s = the_list (map_option (filter (\<lambda>n. \<not> ?dead n)) ?fs)"
    by (cases ?fs) (simp_all add: live_followers_def)
  have last: "mset (node_id (last xs) # map node_id (butlast xs)) = mset (map node_id xs)" if "xs \<noteq> []"
    for xs :: "node_info list"
    using that by (cases xs rule: rev_cases) simp_all
  show ?thesis
  proof (cases "\<exists>n. leader_of reg s = Some n \<and> \<not> ?dead n")
    case True
    then show ?thesis
      by (cases ?fs) (auto simp: tick members_at_def promo failover_leader_def failover_followers_def
          orphan_def reap)
  next
    case False
    then have l1: "leader_of ?r1 s = None" by (auto simp: reap split: option.split)
    from False have l0: "filter (\<lambda>n. \<not> ?dead n) (case leader_of reg s of Some n \<Rightarrow> [n] | None \<Rightarrow> []) = []"
      by (auto split: option.split)
    show ?thesis
    proof (cases "live_followers reg now timeout s = []")
      case True
      with False l1 l0 show ?thesis
        by (cases ?fs) (auto simp: tick members_at_def promo failover_leader_def
            failover_followers_def orphan_def reap(2) live split: option.split)
    next
      case nonempty: False
      then have "orphan ?r1 s = Some (live_followers reg now timeout s)"
        using l1 by (cases ?fs) (auto simp: orphan_def reap(2) live)
      moreover have "filter (\<lambda>n. \<not> ?dead n) (members_at reg s) = live_followers reg now timeout s"
        using l0 by (simp add: members_at_def live_followers_def)
      ultimately show ?thesis
        using False nonempty last [OF nonempty]
        by (auto simp: tick members_at_def promo failover_leader_def failover_followers_def
            split: option.split)
    qed
  qed
qed

theorem reaper_tick_failover_witness:
  "leader_of (fst (reaper_tick rev rev sample_registry 30000 15000)) 0
    = Some (sample_node ''b'' RoleLeader 20000)"
proof -
  have "registry_inv sample_registry"
    by (auto simp: registry_inv_def registry_new_def split: if_splits)
  then show ?thesis
    using reaper_tick_failover [of rev rev sample_registry 30000 15000 0]
    by (simp add: registry_new_def live_followers_def)
qed

text \<open>
  C37: A heartbeat keeps a node in the cluster: a node answered with a role is known, and no
  reap within the timeout of that heartbeat drops it.
\<close>

theorem heartbeat_survives_reap:
  assumes ord: "iteration_order lo" "iteration_order fo" "iteration_order lo'" "iteration_order fo'"
    and inv: "registry_inv reg" and hb: "heartbeat lo fo reg nid now = (reg', Some r)"
    and soon: "later - now \<le> timeout"
  shows "knows_node (fst (reap_dead lo' fo' reg' later timeout)) nid"
proof -
  have inv': "registry_inv reg'" using heartbeat_inv [OF ord(1,2) inv, of nid now] hb by simp
  note wf = inv_wf [OF inv']
  note reap = reap_dead_lookup [OF ord(3,4) wf [THEN conjunct1] wf [THEN conjunct2], of later timeout]
  have "\<exists>s. \<exists>n \<in> set (members_at reg' s). node_id n = nid \<and> last_seen n = now"
  proof (cases "leader_shard lo reg nid")
    case (Some s)
    then obtain n where "leader_of reg s = Some n" "node_id n = nid"
      using leader_shard_Some [OF ord(1)] by blast
    then show ?thesis
      using heartbeat_lookup(1) [of lo fo reg nid now s] hb Some
      by (intro exI [of _ s]) (simp add: members_at_def)
  next
    case None
    then obtain s where s: "follower_shard fo reg nid = Some s"
      using hb by (auto simp: heartbeat_def split: option.splits)
    then obtain ns where "followers_of reg s = Some ns" "\<exists>n \<in> set ns. node_id n = nid"
      using follower_shard_Some [OF ord(2)] by blast
    then show ?thesis
      using heartbeat_lookup(2) [of lo fo reg nid now s] hb None s touch_first_mem [of ns nid now]
      by (intro exI [of _ s]) (auto simp: members_at_def)
  qed
  then obtain s n where n: "n \<in> set (members_at reg' s)" "node_id n = nid" "last_seen n = now" by blast
  then have "n \<in> set (members_at (fst (reap_dead lo' fo' reg' later timeout)) s)"
    using soon by (auto simp: members_at_def reap(1,2) the_list_def split: option.splits)
  with n(2) show ?thesis by (auto simp: knows_node_members [OF reap(3,4)])
qed

theorem heartbeat_survives_reap_witness:
  "knows_node (fst (reap_dead rev rev (fst (heartbeat rev rev sample_registry ''a'' 40000)) 50000 15000)) ''a''"
proof (rule heartbeat_survives_reap [of rev rev rev rev sample_registry])
  show "registry_inv sample_registry"
    by (auto simp: registry_inv_def registry_new_def split: if_splits)
  show "heartbeat rev rev sample_registry ''a'' 40000 =
    (fst (heartbeat rev rev sample_registry ''a'' 40000), Some RoleLeader)"
    by (simp add: heartbeat_def leader_shard_def registry_new_def)
qed simp_all

text \<open>
  A leader report from a raft group routes the shard to the reporter, keeps the previous
  leader as a follower, and neither loses nor invents a member; every other shard is
  untouched.
\<close>

theorem report_raft_leader_swaps:
  assumes ord: "iteration_order lo" "iteration_order fo"
    and rep: "report_raft_leader lo fo reg nid now = (reg', Some s)"
  shows "(\<exists>n. leader_of reg' s = Some n \<and> node_id n = nid \<and> role n = RoleLeader \<and> last_seen n = now)
    \<and> (\<forall>old. leader_of reg s = Some old \<longrightarrow> old\<lparr>role := RoleFollower\<rparr> \<in> set (the_list (followers_of reg' s)))
    \<and> mset (map node_id (members_at reg' s)) = mset (map node_id (members_at reg s))
    \<and> (\<forall>t. t \<noteq> s \<longrightarrow> members_at reg' t = members_at reg t)"
proof -
  have none: "leader_shard lo reg nid = None" and s: "follower_shard fo reg nid = Some s"
    using rep by (auto simp: report_raft_leader_def Let_def split: option.splits)
  obtain ns where ns: "followers_of reg s = Some ns" "\<exists>n \<in> set ns. node_id n = nid"
    using follower_shard_Some [OF ord(2) s] by blast
  then obtain as b cs where split: "ns = as @ b # cs" "node_id b = nid" "\<forall>a \<in> set as. node_id a \<noteq> nid"
    using split_list_first_prop [of ns "\<lambda>n. node_id n = nid"] by blast
  then have idx: "length (takeWhile (\<lambda>n. node_id n \<noteq> nid) ns) = length as" by simp
  define rest where "rest = (as @ cs) @
    (case leader_of reg s of Some old \<Rightarrow> [old\<lparr>role := RoleFollower\<rparr>] | None \<Rightarrow> [])"
  have reg': "reg' = reg\<lparr>leaders := hm_insert s (b\<lparr>role := RoleLeader, last_seen := now\<rparr>) (leaders reg),
      followers := hm_insert s rest (followers reg)\<rparr>"
    using rep none s ns idx split(1)
    by (auto simp: report_raft_leader_def rest_def split: option.splits)
  show ?thesis
    using split ns(1)
    by (auto simp: reg' members_at_def hashmap_simps rest_def split: option.split)
qed

theorem report_raft_leader_swaps_witness:
  "\<exists>n. leader_of (fst (report_raft_leader rev rev sample_registry ''b'' 50)) 0 = Some n \<and> node_id n = ''b''"
proof -
  have "report_raft_leader rev rev sample_registry ''b'' 50
      = (fst (report_raft_leader rev rev sample_registry ''b'' 50), Some 0)"
    by (simp add: report_raft_leader_def leader_shard_def follower_shard_def registry_new_def Let_def)
  from report_raft_leader_swaps [OF _ _ this] show ?thesis by auto
qed

section \<open>Staffing, views and the drain set\<close>

lemma card_below: "card {s :: u32. s < n} = unat n"
proof -
  have "bij_betw unat {s :: u32. s < n} {..<unat n}"
    by (rule bij_betw_byWitness [where f' = word_of_nat])
      (auto simp: word_less_nat_alt unsigned_of_nat take_bit_nat_eq_self
        intro: le_less_trans [OF take_bit_nat_less_eq_self]
        dest: order.strict_trans [OF _ unsigned_less [of n]])
  then show ?thesis by (simp add: bij_betw_same_card)
qed

text \<open>
  The staffing test, which compares a count, is exact: in a registry that satisfies the
  invariant it holds just when every shard of \<open>0..N\<close> has a leader.
\<close>

theorem all_shards_have_leader_iff:
  assumes inv: "registry_inv reg"
  shows "all_shards_have_leader reg \<longleftrightarrow> (\<forall>s < shard_count reg. leader_of reg s \<noteq> None)"
proof -
  let ?N = "shard_count reg" and ?D = "fst ` set (leaders reg)"
  have sub: "?D \<subseteq> {s. s < ?N}"
    using inv by (auto simp: registry_inv_def map_of_eq_Some_iff)
  have len: "length (leaders reg) = card ?D"
    using inv_wf [OF inv] distinct_card [of "hm_keys (leaders reg)"] by simp
  then have le: "length (leaders reg) \<le> unat ?N"
    using card_mono [OF _ sub] by (simp add: card_below)
  then have "length (leaders reg) < 2 ^ LENGTH(32)"
    using unsigned_less [of ?N] by (rule le_less_trans)
  then have "unat (word_of_nat (length (leaders reg)) :: u32) = length (leaders reg)"
    by (simp add: unsigned_of_nat take_bit_nat_eq_self)
  then have "all_shards_have_leader reg \<longleftrightarrow> length (leaders reg) = unat ?N"
    unfolding all_shards_have_leader_def by (metis word_unat_eq_iff)
  also have "\<dots> \<longleftrightarrow> ?D = {s. s < ?N}"
    using card_subset_eq [OF _ sub] by (auto simp: len card_below)
  also have "\<dots> \<longleftrightarrow> (\<forall>s < ?N. leader_of reg s \<noteq> None)"
    using sub by (auto simp: map_of_eq_None_iff)
  finally show ?thesis .
qed

theorem all_shards_have_leader_iff_witness:
  "\<not> all_shards_have_leader sample_registry \<and> leader_of sample_registry 1 = None"
proof -
  have "registry_inv sample_registry"
    by (auto simp: registry_inv_def registry_new_def split: if_splits)
  from all_shards_have_leader_iff [OF this] show ?thesis
    by (auto simp: registry_new_def intro!: exI [of _ 1])
qed

interpretation snapview: comparator cmp_snapshot UNIV
  by unfold_locales (auto simp: cmp_snapshot_def cmp_lin_flip ord_then_not_Greater not_less
      split: if_splits)

lemma filter_snap_concat:
  assumes "distinct ks"
  shows "filter (\<lambda>n. snap_shard_id n = s) (concat (map (\<lambda>k. map (snap_of reg now k) (f k)) ks))
    = (if s \<in> set ks then map (snap_of reg now s) (f s) else [])"
  using assms
  by (induction ks) (auto simp: filter_map o_def snap_of_def from_info_def filter_empty_conv)

lemma snapshot_concat:
  "List.map_filter (\<lambda>s. map_option (snap_of reg now s) (m s)) ks
    = concat (map (\<lambda>k. map (snap_of reg now k) (case m k of Some n \<Rightarrow> [n] | None \<Rightarrow> [])) ks)"
  by (induction ks) (auto split: option.split)

lemma mset_concat_map: "mset (concat (map f xs)) = \<Sum>\<^sub># (image_mset (\<lambda>x. mset (f x)) (mset xs))"
  by (induction xs) simp_all

lemma mset_concat_order:
  "iteration_order g \<Longrightarrow> mset (concat (map f (g xs))) = mset (concat (map f xs))"
  by (simp only: mset_concat_map iteration_order_mset)

lemma snapshot_eq:
  "snapshot lo fo reg now = sort_by cmp_snapshot
     (concat (map (\<lambda>k. map (snap_of reg now k) (case leader_of reg k of Some n \<Rightarrow> [n] | None \<Rightarrow> []))
        (lo (hm_keys (leaders reg))))
      @ concat (map (\<lambda>k. map (snap_of reg now k) (the_list (followers_of reg k)))
        (fo (hm_keys (followers reg)))))"
proof -
  have "(case followers_of reg k of Some ns \<Rightarrow> map (snap_of reg now k) ns | None \<Rightarrow> [])
      = map (snap_of reg now k) (the_list (followers_of reg k))" for k
    by (cases "followers_of reg k") auto
  then show ?thesis unfolding snapshot_def snapshot_concat by presburger
qed

text \<open>
  The members listed for a shard are exactly the members registered for it, each once.
\<close>

theorem members_of_exact:
  assumes ord: "iteration_order lo" "iteration_order fo" and inv: "registry_inv reg"
  shows "mset (members_of lo fo reg s now) = mset (map (snap_of reg now s) (members_at reg s))"
proof -
  let ?P = "\<lambda>n. snap_shard_id n = s"
  note lk = order_keys [OF ord(1) inv_wf [OF inv, THEN conjunct1]]
    and fk = order_keys [OF ord(2) inv_wf [OF inv, THEN conjunct2]]
  have "mset (members_of lo fo reg s now) = filter_mset ?P (mset (snapshot lo fo reg now))"
    by (simp add: members_of_def)
  also have "\<dots> = mset (map (snap_of reg now s) (members_at reg s))"
    unfolding snapshot_eq mset_sort_by mset_filter [symmetric] filter_append
      filter_snap_concat [OF lk(1)] filter_snap_concat [OF fk(1)] lk(2) fk(2)
    by (cases "leader_of reg s"; cases "followers_of reg s") (simp_all add: members_at_def)
  finally show ?thesis .
qed

theorem members_of_exact_witness:
  "mset (members_of rev rev sample_registry 1 20005)
    = {#snap_of sample_registry 20005 1 (sample_node ''c'' RoleFollower 20000)#}"
proof -
  have "registry_inv sample_registry"
    by (auto simp: registry_inv_def registry_new_def split: if_splits)
  from members_of_exact [OF _ _ this, of rev rev 1 20005] show ?thesis
    by (simp add: members_at_def registry_new_def)
qed

text \<open>
  A snapshot is ordered by shard, leader first, then node id; when no two entries share
  shard, role and id, it does not depend on the order the hash maps are walked in.
\<close>

lemma snapshot_sorted: "cmp_sorted cmp_snapshot (snapshot lo fo reg now)"
  unfolding snapshot_def by (rule snapview.sort_sorted) simp

lemma snapshot_order_independent:
  assumes ord: "iteration_order lo" "iteration_order fo" "iteration_order lo'" "iteration_order fo'"
    and key: "distinct (map (\<lambda>n. (snap_shard_id n, snap_role n \<noteq> RoleLeader, snap_node_id n)) (snapshot lo fo reg now))"
  shows "snapshot lo fo reg now = snapshot lo' fo' reg now"
proof (rule snapview.sorted_unique [OF _ _ _ snapshot_sorted snapshot_sorted])
  show "mset (snapshot lo fo reg now) = mset (snapshot lo' fo' reg now)"
    unfolding snapshot_eq mset_sort_by mset_append mset_concat_order [OF ord(1)]
      mset_concat_order [OF ord(2)] mset_concat_order [OF ord(3)] mset_concat_order [OF ord(4)]
    by (rule refl)
  fix a b assume ab: "a \<in> set (snapshot lo fo reg now)" "b \<in> set (snapshot lo fo reg now)"
    and "cmp_snapshot a b = Equal"
  then have "(snap_shard_id a, snap_role a \<noteq> RoleLeader, snap_node_id a)
      = (snap_shard_id b, snap_role b \<noteq> RoleLeader, snap_node_id b)"
    by (auto simp: cmp_snapshot_def)
  with ab key show "a = b" unfolding distinct_map by (metis (no_types, lifting) inj_onD)
qed simp

text \<open>
  A drain marker can be forgotten while its node is still registered: a node that
  registered as follower and then as leader has two entries, the heartbeat refreshes the
  leader entry only, and reaping the stale follower entry drops the marker.
\<close>


theorem drain_marker_lost:
  "let req = (\<lambda>r. \<lparr>req_node_id = ''a'', req_address = ''h'', req_shard_id = 0, req_role = r\<rparr>);
       r1 = fst (register_at (registry_new 1) (req RoleFollower) 0);
       r2 = fst (mark_draining r1 ''a'');
       r3 = fst (register_at r2 (req RoleLeader) 1000);
       r4 = fst (heartbeat id id r3 ''a'' 20000);
       r5 = fst (reap_dead id id r4 20000 15000)
   in ''a'' \<in> draining r4 \<and> knows_node r5 ''a'' \<and> draining r5 = {}"
proof -
  let ?req = "\<lambda>r. \<lparr>req_node_id = ''a'', req_address = ''h'', req_shard_id = 0, req_role = r\<rparr>"
  let ?f = "\<lparr>node_id = ''a'', address = ''h'', role = RoleFollower, last_seen = 0\<rparr>"
  let ?l = "\<lambda>t. \<lparr>node_id = ''a'', address = ''h'', role = RoleLeader, last_seen = t\<rparr>"
  let ?r1 = "(registry_new 1)\<lparr>followers := [(0, [?f])]\<rparr>"
  have r1: "fst (register_at (registry_new 1) (?req RoleFollower) 0) = ?r1"
    by (simp add: register_at_def live_incumbent_def registry_new_def)
  let ?r2 = "?r1\<lparr>draining := {''a''}\<rparr>"
  have r2: "fst (mark_draining ?r1 ''a'') = ?r2"
    by (simp add: mark_draining_def knows_node_def registry_new_def)
  let ?r3 = "\<lambda>t. ?r2\<lparr>leaders := [(0, ?l t)]\<rparr>"
  have r3: "fst (register_at ?r2 (?req RoleLeader) 1000) = ?r3 1000"
    by (simp add: register_at_def live_incumbent_def registry_new_def)
  have r4: "fst (heartbeat id id (?r3 1000) ''a'' 20000) = ?r3 20000"
    by (simp add: heartbeat_def leader_shard_def touch_leader_def registry_new_def)
  have r5: "fst (reap_dead id id (?r3 20000) 20000 15000)
      = (?r3 20000)\<lparr>followers := [(0, [])], draining := {}\<rparr>"
    by (simp add: reap_dead_def reap_followers_def reap_loop_filter registry_new_def)
  show ?thesis
    unfolding Let_def r1 r2 r3 r4 r5 by (simp add: knows_node_def)
qed

end
