(* ===== verification/Raft_Log.thy ===== *)
theory Raft_Log
  imports Text_Tokens
begin

text \<open>
  The raft log as the consensus library sees it (\<open>crates/consensus/src/storage.rs\<close>, the log
  store, and \<open>lib.rs\<close>): log ids, entries with opaque payloads, and the in-memory store. The
  contract both log stores promise (the in-memory one and the write-ahead log) is the locale
  \<open>raft_log_storage\<close>. A \<open>BTreeMap\<close> is a finite map, walked in key order.
\<close>

section \<open>Data\<close>

record log_id =
  li_term :: nat
  li_node :: nat
  li_index :: nat

record raft_vote =
  vote_term :: nat
  vote_node :: nat
  vote_committed :: bool

record membership =
  joint_config :: "nat list list"
  node_addrs :: "(nat \<times> string) list"

datatype entry_payload = Blank | Normal "u8 list" | Membership membership

record entry =
  entry_id :: log_id
  entry_payload :: entry_payload

abbreviation entry_index :: "entry \<Rightarrow> nat" where
  "entry_index e \<equiv> li_index (entry_id e)"

record log_state =
  last_purged_log_id :: "log_id option"
  last_log_id :: "log_id option"

type_synonym log_map = "(nat, entry) fmap"

definition range_entries :: "log_map \<Rightarrow> nat \<Rightarrow> nat \<Rightarrow> entry list" where
  "range_entries m lo hi =
     map (\<lambda>k. the (fmlookup m k)) (sorted_list_of_fset (ffilter (\<lambda>k. lo \<le> k \<and> k < hi) (fmdom m)))"

definition last_entry :: "log_map \<Rightarrow> entry option" where
  "last_entry m =
     (let ks = sorted_list_of_fset (fmdom m) in if ks = [] then None else fmlookup m (last ks))"

section \<open>The in-memory log store\<close>

record log_inner =
  log :: log_map
  last_purged :: "log_id option"
  committed :: "log_id option"
  vote :: "raft_vote option"

definition log_default :: log_inner where
  "log_default = \<lparr>log = fmempty, last_purged = None, committed = None, vote = None\<rparr>"

definition mem_try_get_log_entries :: "log_inner \<Rightarrow> nat \<Rightarrow> nat \<Rightarrow> entry list" where
  "mem_try_get_log_entries inner lo hi = range_entries (log inner) lo hi"

definition mem_get_log_state :: "log_inner \<Rightarrow> log_state" where
  "mem_get_log_state inner =
     \<lparr>last_purged_log_id = last_purged inner,
      last_log_id = (case last_entry (log inner) of Some e \<Rightarrow> Some (entry_id e) | None \<Rightarrow> last_purged inner)\<rparr>"

definition mem_save_vote :: "log_inner \<Rightarrow> raft_vote \<Rightarrow> log_inner" where
  "mem_save_vote inner v = inner\<lparr>vote := Some v\<rparr>"

definition mem_save_committed :: "log_inner \<Rightarrow> log_id option \<Rightarrow> log_inner" where
  "mem_save_committed inner c = inner\<lparr>committed := c\<rparr>"

definition mem_append :: "log_inner \<Rightarrow> entry list \<Rightarrow> log_inner" where
  "mem_append inner entries =
     inner\<lparr>log := foldl (\<lambda>m e. fmupd (entry_index e) e m) (log inner) entries\<rparr>"

definition mem_truncate :: "log_inner \<Rightarrow> log_id \<Rightarrow> log_inner" where
  "mem_truncate inner lid = inner\<lparr>log := fmfilter (\<lambda>k. \<not> li_index lid \<le> k) (log inner)\<rparr>"

definition mem_purge :: "log_inner \<Rightarrow> log_id \<Rightarrow> log_inner" where
  "mem_purge inner lid =
     inner\<lparr>last_purged := Some lid, log := fmfilter (\<lambda>k. \<not> k \<le> li_index lid) (log inner)\<rparr>"

section \<open>What a raft log store promises\<close>

text \<open>
  The client of a log store is the consensus library: it appends runs of consecutive entries,
  cuts a conflicting suffix, drops a compacted prefix, and reads ranges and the end of the
  log. \<open>entry_at\<close> is the abstract log, \<open>ok\<close> the store's own invariant; a mutation that
  cannot be completed is \<open>None\<close>.
\<close>

locale raft_log_storage =
  fixes ok :: "'s \<Rightarrow> bool"
    and entry_at :: "'s \<Rightarrow> nat \<Rightarrow> entry option"
    and purged :: "'s \<Rightarrow> log_id option"
    and get_state :: "'s \<Rightarrow> log_state"
    and append :: "'s \<Rightarrow> entry list \<Rightarrow> 's option"
    and truncate :: "'s \<Rightarrow> log_id \<Rightarrow> 's option"
    and purge :: "'s \<Rightarrow> log_id \<Rightarrow> 's option"
  assumes finite_log: "ok s \<Longrightarrow> finite (dom (entry_at s))"
    and indexed: "ok s \<Longrightarrow> entry_at s i = Some e \<Longrightarrow> entry_index e = i"
    and state_purged: "ok s \<Longrightarrow> last_purged_log_id (get_state s) = purged s"
    and state_last: "ok s \<Longrightarrow> last_log_id (get_state s) =
      (if dom (entry_at s) = {} then purged s else map_option entry_id (entry_at s (Max (dom (entry_at s)))))"
    and append_ok: "ok s \<Longrightarrow> append s es = Some s' \<Longrightarrow> ok s'"
    and append_at: "ok s \<Longrightarrow> append s es = Some s' \<Longrightarrow>
      entry_at s' = (entry_at s) ++ map_of (rev (map (\<lambda>e. (entry_index e, e)) es))"
    and append_purged: "ok s \<Longrightarrow> append s es = Some s' \<Longrightarrow> purged s' = purged s"
    and truncate_ok: "ok s \<Longrightarrow> truncate s l = Some s' \<Longrightarrow> ok s'"
    and truncate_at: "ok s \<Longrightarrow> truncate s l = Some s' \<Longrightarrow> entry_at s' = entry_at s |` {..<li_index l}"
    and truncate_purged: "ok s \<Longrightarrow> truncate s l = Some s' \<Longrightarrow> purged s' = purged s"
    and purge_ok: "ok s \<Longrightarrow> purge s l = Some s' \<Longrightarrow> ok s'"
    and purge_at: "ok s \<Longrightarrow> purge s l = Some s' \<Longrightarrow> entry_at s' = entry_at s |` {li_index l<..}"
    and purge_purged: "ok s \<Longrightarrow> purge s l = Some s' \<Longrightarrow> purged s' = Some l"
begin

text \<open>After an append of consecutive entries past the end, the log ends with the last of them.\<close>

lemma append_last:
  assumes s: "ok s" and app: "append s es = Some s'" and ne: "es \<noteq> []"
    and above: "\<forall>i \<in> dom (entry_at s). i < entry_index (last es)"
    and run: "sorted_wrt (\<lambda>a b. entry_index a < entry_index b) es"
  shows "last_log_id (get_state s') = Some (entry_id (last es))"
proof -
  let ?m = "map_of (rev (map (\<lambda>e. (entry_index e, e)) es))"
  have s': "ok s'" by (rule append_ok [OF s app])
  obtain ys y where es: "es = ys @ [y]" using ne by (cases es rule: rev_cases) auto
  have at: "entry_at s' = entry_at s ++ ?m" by (rule append_at [OF s app])
  have "dom ?m = entry_index ` set es" by (force simp: dom_map_of_conv_image_fst)
  then have d: "dom (entry_at s') = dom (entry_at s) \<union> entry_index ` set es" by (simp add: at Un_commute)
  have "i \<le> entry_index y" if "i \<in> dom (entry_at s')" for i
  proof -
    have "i \<in> dom (entry_at s) \<or> i \<in> entry_index ` set es" using that d by blast
    then show ?thesis
    proof
      assume "i \<in> dom (entry_at s)"
      then show ?thesis using above es less_imp_le by (metis last_snoc)
    next
      assume "i \<in> entry_index ` set es"
      then show ?thesis using run es by (auto simp: sorted_wrt_append less_imp_le)
    qed
  qed
  moreover have "entry_index y \<in> dom (entry_at s')" by (simp add: d es)
  ultimately have "Max (dom (entry_at s')) = entry_index y"
    using finite_log [OF s'] by (intro Max_eqI) auto
  moreover have "entry_at s' (entry_index y) = Some y" by (simp add: at es)
  ultimately show ?thesis using state_last [OF s'] d es by auto
qed

text \<open>Purging everything leaves the purge point as the end of the log.\<close>

lemma purge_all_last:
  assumes s: "ok s" and pur: "purge s l = Some s'" and all: "\<forall>i \<in> dom (entry_at s). i \<le> li_index l"
  shows "last_log_id (get_state s') = Some l" and "last_purged_log_id (get_state s') = Some l"
proof -
  have "entry_at s' i = None" for i
    using all by (cases "i \<in> dom (entry_at s)") (auto simp: purge_at [OF s pur] restrict_map_def dom_def)
  then have "dom (entry_at s') = {}" by (simp add: dom_def)
  then show "last_log_id (get_state s') = Some l"
    by (simp add: state_last [OF purge_ok [OF s pur]] purge_purged [OF s pur])
  show "last_purged_log_id (get_state s') = Some l"
    by (simp add: state_purged [OF purge_ok [OF s pur]] purge_purged [OF s pur])
qed

text \<open>Conflict resolution: cutting a suffix and appending its replacement.\<close>

lemma replace_suffix:
  assumes s: "ok s" and tr: "truncate s l = Some s1" and app: "append s1 es = Some s2"
    and run: "map entry_index es = [li_index l..<li_index l + length es]"
  shows "entry_at s2 i = (if i < li_index l then entry_at s i
    else if i < li_index l + length es then Some (es ! (i - li_index l)) else None)"
proof -
  let ?k = "li_index l"
  let ?ps = "map (\<lambda>e. (entry_index e, e)) es"
  have idx: "entry_index (es ! j) = ?k + j" if "j < length es" for j
    using arg_cong [OF run, of "\<lambda>xs. xs ! j"] that by simp
  have keys: "distinct (map fst (rev ?ps))"
    using run by (simp add: o_def rev_map [symmetric])
  have mem: "(i, e) \<in> set (rev ?ps) \<longleftrightarrow> ?k \<le> i \<and> i < ?k + length es \<and> e = es ! (i - ?k)" for i e
    using idx [of "i - ?k"] nth_mem [of "i - ?k" es]
    by (auto simp: in_set_conv_nth [of _ es] idx image_iff)
  have "map_of (rev ?ps) i = (if ?k \<le> i \<and> i < ?k + length es then Some (es ! (i - ?k)) else None)"
    using mem [of i] keys by (auto simp: map_of_eq_Some_iff map_of_eq_None_iff image_iff)
  then show ?thesis
    using append_at [OF truncate_ok [OF s tr] app] truncate_at [OF s tr]
    by (auto simp: map_add_def restrict_map_def)
qed

end

section \<open>The in-memory store keeps the contract\<close>

abbreviation mem_ok :: "log_inner \<Rightarrow> bool" where
  "mem_ok inner \<equiv> \<forall>i e. fmlookup (log inner) i = Some e \<longrightarrow> entry_index e = i"

lemma last_sorted_list_of_set:
  assumes "finite A" and "A \<noteq> {}"
  shows "last (sorted_list_of_set A) = Max A"
proof -
  let ?xs = "sorted_list_of_set A"
  have ne: "?xs \<noteq> []" and set: "set ?xs = A" using assms by auto
  then obtain ys y where xs: "?xs = ys @ [y]" by (cases ?xs rule: rev_cases) auto
  have "sorted (ys @ [y])" using sorted_sorted_list_of_set [of A] by (simp add: xs)
  then have "\<forall>x \<in> set (ys @ [y]). x \<le> y" by (auto simp: sorted_append)
  then have "\<forall>a \<in> A. a \<le> y" and "y \<in> A" using set xs by auto
  then have "Max A = y" using assms(1) by (intro Max_eqI) auto
  then show ?thesis by (simp add: xs)
qed

lemma last_entry_Max:
  "last_entry m = (if dom (fmlookup m) = {} then None else fmlookup m (Max (dom (fmlookup m))))"
proof -
  have "sorted_list_of_fset (fmdom m) = sorted_list_of_set (dom (fmlookup m))"
    by (simp add: sorted_list_of_fset.rep_eq fmdom.rep_eq)
  then show ?thesis by (simp add: last_entry_def last_sorted_list_of_set)
qed

lemma foldl_fmupd:
  "fmlookup (foldl (\<lambda>m e. fmupd (entry_index e) e m) m es)
    = fmlookup m ++ map_of (rev (map (\<lambda>e. (entry_index e, e)) es))"
  by (induction es arbitrary: m) (auto simp: map_add_def fun_eq_iff split: option.split)


interpretation mem: raft_log_storage mem_ok "\<lambda>s. fmlookup (log s)" last_purged mem_get_log_state
  "\<lambda>s es. Some (mem_append s es)" "\<lambda>s l. Some (mem_truncate s l)" "\<lambda>s l. Some (mem_purge s l)"
proof unfold_locales
  fix s s' :: log_inner and es assume ok: "mem_ok s" and "Some (mem_append s es) = Some s'"
  then have s': "s' = mem_append s es" by simp
  then show "fmlookup (log s') = fmlookup (log s) ++ map_of (rev (map (\<lambda>e. (entry_index e, e)) es))"
    by (simp add: mem_append_def foldl_fmupd)
  then show "mem_ok s'" using ok by (auto simp: map_add_Some_iff dest!: map_of_SomeD)
  show "last_purged s' = last_purged s" by (simp add: s' mem_append_def)
next
  fix s :: log_inner
  show "last_log_id (mem_get_log_state s) =
    (if dom (fmlookup (log s)) = {} then last_purged s
     else map_option entry_id (fmlookup (log s) (Max (dom (fmlookup (log s))))))"
  proof (cases "dom (fmlookup (log s)) = {}")
    case False
    then have "Max (dom (fmlookup (log s))) \<in> dom (fmlookup (log s))" by (intro Max_in) auto
    then obtain e where "fmlookup (log s) (Max (dom (fmlookup (log s)))) = Some e" by (metis domD)
    with False show ?thesis by (simp add: mem_get_log_state_def last_entry_Max)
  qed (simp add: mem_get_log_state_def last_entry_Max)
qed (auto simp: mem_truncate_def mem_purge_def mem_get_log_state_def restrict_map_def fun_eq_iff
    split: if_splits)

end
