(* ===== verification/Wal.thy ===== *)
theory Wal
  imports Raft_Log
begin

text \<open>
  The write-ahead log (\<open>crates/consensus/src/wal.rs\<close>): record framing, recovery of the
  longest clean prefix, append with segment rotation, marker-based truncation and purge, the
  vote file, and the log store over it.

  The directory is a map from file names to bytes. The record codec (bincode) and the
  checksum (crc32) are parameters: \<open>enc\<close>, \<open>dec\<close>, \<open>crc\<close>; \<open>codec_ok\<close> says that the given
  records decode to themselves. An I/O error at open is \<open>None\<close>; writes and syncs succeed, and a
  crash is a directory in which the tail of the last segment is missing.
\<close>

section \<open>Records and the folded state\<close>

definition SEGMENT_MAX_BYTES :: nat where
  "SEGMENT_MAX_BYTES = 8 * 1024 * 1024"

definition FRAME_HEADER :: nat where
  "FRAME_HEADER = 8"

datatype wal_record =
  Entry entry
| TruncateFrom nat
| Purge log_id
| Committed "log_id option"
| Checkpoint "log_id option" "log_id option"

record wal_state =
  ws_entries :: log_map
  ws_last_purged :: "log_id option"
  ws_committed :: "log_id option"

definition wal_state_default :: wal_state where
  "wal_state_default = \<lparr>ws_entries = fmempty, ws_last_purged = None, ws_committed = None\<rparr>"

fun wal_state_apply :: "wal_state \<Rightarrow> wal_record \<Rightarrow> wal_state" where
  "wal_state_apply st (Entry e) = st\<lparr>ws_entries := fmupd (entry_index e) e (ws_entries st)\<rparr>"
| "wal_state_apply st (TruncateFrom i) = st\<lparr>ws_entries := fmfilter (\<lambda>k. \<not> i \<le> k) (ws_entries st)\<rparr>"
| "wal_state_apply st (Purge l) =
     st\<lparr>ws_last_purged := Some l, ws_entries := fmfilter (\<lambda>k. \<not> k \<le> li_index l) (ws_entries st)\<rparr>"
| "wal_state_apply st (Committed c) = st\<lparr>ws_committed := c\<rparr>"
| "wal_state_apply st (Checkpoint lp c) =
     st\<lparr>ws_last_purged := (if ws_last_purged st = None then lp else ws_last_purged st),
        ws_committed := (if ws_committed st = None then c else ws_committed st)\<rparr>"

definition bump_max :: "nat option \<Rightarrow> wal_record \<Rightarrow> nat option" where
  "bump_max m r = (case r of
     Entry e \<Rightarrow> Some (case m of None \<Rightarrow> entry_index e | Some k \<Rightarrow> max k (entry_index e)) | _ \<Rightarrow> m)"

section \<open>Framing\<close>

unbundle bit_operations_syntax

definition from_le_bytes :: "u8 list \<Rightarrow> u32" where
  "from_le_bytes bs =
     ucast (bs ! 0) OR push_bit 8 (ucast (bs ! 1)) OR push_bit 16 (ucast (bs ! 2)) OR push_bit 24 (ucast (bs ! 3))"

definition frame :: "(u8 list \<Rightarrow> u32) \<Rightarrow> u8 list \<Rightarrow> u8 list" where
  "frame crc payload = to_le_bytes (of_len payload) @ to_le_bytes (crc payload) @ payload"

text \<open>
  The scan of one segment from \<open>offset\<close>: the decoded records and, when the scan ended on a
  torn header, a torn payload, a checksum mismatch or an undecodable record, the offset of
  the first bad frame.
\<close>

function scan_frames ::
  "(u8 list \<Rightarrow> wal_record option) \<Rightarrow> (u8 list \<Rightarrow> u32) \<Rightarrow> u8 list \<Rightarrow> nat \<Rightarrow> wal_record list \<times> nat option" where
  "scan_frames dec crc bytes offset =
     (if offset + FRAME_HEADER > length bytes
      then ([], if offset \<noteq> length bytes then Some offset else None)
      else
        (let len = unat (from_le_bytes (take 4 (drop offset bytes)));
             sum = from_le_bytes (take 4 (drop (offset + 4) bytes));
             start = offset + FRAME_HEADER
         in if start + len > length bytes then ([], Some offset)
            else
              (let payload = take len (drop start bytes)
               in if crc payload \<noteq> sum then ([], Some offset)
                  else (case dec payload of
                          None \<Rightarrow> ([], Some offset)
                        | Some record \<Rightarrow>
                            (let (records, corrupt) = scan_frames dec crc bytes (start + len)
                             in (record # records, corrupt))))))"
  by pat_completeness auto
termination
  by (relation "measure (\<lambda>(_, _, bytes, offset). length bytes - offset)") (auto simp: FRAME_HEADER_def)

declare scan_frames.simps [simp del]

section \<open>The log on disk\<close>

type_synonym wal_dir = "(string, u8 list) hashmap"

record wal =
  w_dir :: wal_dir
  seg_seq :: nat
  seg_bytes :: nat
  seg_max_index :: "nat option"
  w_closed :: "(nat \<times> string \<times> nat option) list"
  w_state :: wal_state

definition segment_path :: "nat \<Rightarrow> string" where
  "segment_path seq = ''seg-'' @ pad_left 16 (show_nat seq) @ ''.wal''"

definition strip_prefix :: "string \<Rightarrow> string \<Rightarrow> string option" where
  "strip_prefix p s = (if take (length p) s = p then Some (drop (length p) s) else None)"

definition strip_suffix :: "string \<Rightarrow> string \<Rightarrow> string option" where
  "strip_suffix p s = map_option rev (strip_prefix (rev p) (rev s))"

definition segment_seq :: "string \<Rightarrow> nat option" where
  "segment_seq name =
     Option.bind (strip_prefix ''seg-'' name)
       (\<lambda>s. Option.bind (strip_suffix ''.wal'' s) (parse_unsigned 64))"

fun open_scan ::
  "(u8 list \<Rightarrow> wal_record option) \<Rightarrow> (u8 list \<Rightarrow> u32) \<Rightarrow> wal_dir \<Rightarrow> nat list \<Rightarrow> wal_state \<Rightarrow>
    (nat \<times> string \<times> nat option) list \<Rightarrow>
    (wal_state \<times> (nat \<times> string \<times> nat option) list \<times> (nat \<times> nat) option) option" where
  "open_scan dec crc dir [] st cls = Some (st, cls, None)"
| "open_scan dec crc dir (seq # seqs) st cls =
     (case hm_get dir (segment_path seq) of
        None \<Rightarrow> None
      | Some bytes \<Rightarrow>
          (let (records, corrupt) = scan_frames dec crc bytes 0;
               st' = foldl wal_state_apply st records;
               cls' = cls @ [(seq, segment_path seq, foldl bump_max None records)]
           in case corrupt of
                Some off \<Rightarrow> Some (st', cls', Some (seq, off))
              | None \<Rightarrow> open_scan dec crc dir seqs st' cls'))"

definition truncate_corrupt :: "wal_dir \<Rightarrow> nat list \<Rightarrow> (nat \<times> nat) option \<Rightarrow> wal_dir" where
  "truncate_corrupt dir seqs corrupt_at =
     (case corrupt_at of
        None \<Rightarrow> dir
      | Some (bad_seq, good_offset) \<Rightarrow>
          foldl (\<lambda>d s. hm_remove (segment_path s) d)
            (hm_insert (segment_path bad_seq) (take good_offset (the (hm_get dir (segment_path bad_seq)))) dir)
            (filter (\<lambda>s. s > bad_seq) seqs))"

definition wal_open ::
  "(u8 list \<Rightarrow> wal_record option) \<Rightarrow> (u8 list \<Rightarrow> u32) \<Rightarrow> wal_dir \<Rightarrow> wal option" where
  "wal_open dec crc dir =
     (let seqs = sort (List.map_filter segment_seq (hm_keys dir))
      in case open_scan dec crc dir seqs wal_state_default [] of
           None \<Rightarrow> None
         | Some (st, cls, corrupt_at) \<Rightarrow>
             (let dir1 = truncate_corrupt dir seqs corrupt_at;
                  cls1 = (case corrupt_at of None \<Rightarrow> cls
                             | Some (bad_seq, _) \<Rightarrow> filter (\<lambda>(s, _, _). s \<le> bad_seq) cls);
                  active_seq = (if seqs = [] then None
                                else case corrupt_at of
                                  None \<Rightarrow> Some (last seqs)
                                | Some (bad_seq, _) \<Rightarrow> if last seqs \<le> bad_seq then Some (last seqs) else None);
                  seq = (case active_seq of Some s \<Rightarrow> s | None \<Rightarrow> 0);
                  dir2 = (case hm_get dir1 (segment_path seq) of
                            Some _ \<Rightarrow> dir1 | None \<Rightarrow> hm_insert (segment_path seq) [] dir1)
              in Some \<lparr>w_dir = dir2, seg_seq = seq,
                   seg_bytes = length (the (hm_get dir2 (segment_path seq))),
                   seg_max_index = Option.bind (List.find (\<lambda>(s, _, _). s = seq) cls1) (\<lambda>(_, _, m). m),
                   w_closed = filter (\<lambda>(s, _, _). s \<noteq> seq) cls1, w_state = st\<rparr>))"

section \<open>Appending\<close>

definition write_record ::
  "(wal_record \<Rightarrow> u8 list) \<Rightarrow> (u8 list \<Rightarrow> u32) \<Rightarrow> wal_record \<Rightarrow> wal \<Rightarrow> wal" where
  "write_record enc crc record w =
     (let framed = frame crc (enc record)
      in w\<lparr>w_dir := hm_insert (segment_path (seg_seq w))
              (the_list (hm_get (w_dir w) (segment_path (seg_seq w))) @ framed) (w_dir w),
           seg_bytes := seg_bytes w + length framed,
           seg_max_index := bump_max (seg_max_index w) record\<rparr>)"

definition next_segment :: "wal \<Rightarrow> wal" where
  "next_segment w =
     (let seq = seg_seq w + 1;
          path = segment_path seq
      in w\<lparr>w_closed := w_closed w @ [(seg_seq w, segment_path (seg_seq w), seg_max_index w)],
           w_dir := (case hm_get (w_dir w) path of Some _ \<Rightarrow> w_dir w | None \<Rightarrow> hm_insert path [] (w_dir w)),
           seg_seq := seq, seg_bytes := 0, seg_max_index := None\<rparr>)"

text \<open>
  \<open>append\<close>, with \<open>rotate\<close> inlined: the checkpoint that heads the next segment is itself
  appended, so a checkpoint that alone fills a segment would rotate forever.
\<close>

partial_function (option) wal_append ::
  "(wal_record \<Rightarrow> u8 list) \<Rightarrow> (u8 list \<Rightarrow> u32) \<Rightarrow> wal_record \<Rightarrow> wal \<Rightarrow> wal option" where
  [code]: "wal_append enc crc record w =
     (let w1 = write_record enc crc record w
      in if seg_bytes w1 \<ge> SEGMENT_MAX_BYTES
         then wal_append enc crc (Checkpoint (ws_last_purged (w_state w1)) (ws_committed (w_state w1))) (next_segment w1)
         else Some w1)"

definition fold_record :: "wal \<Rightarrow> wal_record \<Rightarrow> wal" where
  "fold_record w record = w\<lparr>w_state := wal_state_apply (w_state w) record\<rparr>"

definition log_record ::
  "(wal_record \<Rightarrow> u8 list) \<Rightarrow> (u8 list \<Rightarrow> u32) \<Rightarrow> wal_record \<Rightarrow> wal \<Rightarrow> wal option" where
  "log_record enc crc record w = map_option (\<lambda>w1. fold_record w1 record) (wal_append enc crc record w)"

fun append_entries ::
  "(wal_record \<Rightarrow> u8 list) \<Rightarrow> (u8 list \<Rightarrow> u32) \<Rightarrow> wal \<Rightarrow> entry list \<Rightarrow> wal option" where
  "append_entries enc crc w [] = Some w"
| "append_entries enc crc w (e # es) =
     Option.bind (log_record enc crc (Entry e) w) (\<lambda>w1. append_entries enc crc w1 es)"

definition truncate_from ::
  "(wal_record \<Rightarrow> u8 list) \<Rightarrow> (u8 list \<Rightarrow> u32) \<Rightarrow> wal \<Rightarrow> nat \<Rightarrow> wal option" where
  "truncate_from enc crc w index1 = log_record enc crc (TruncateFrom index1) w"

definition removable :: "log_id \<Rightarrow> nat option \<Rightarrow> bool" where
  "removable lid max_index = (case max_index of None \<Rightarrow> True | Some m \<Rightarrow> m \<le> li_index lid)"

definition wal_purge ::
  "(wal_record \<Rightarrow> u8 list) \<Rightarrow> (u8 list \<Rightarrow> u32) \<Rightarrow> wal \<Rightarrow> log_id \<Rightarrow> wal option" where
  "wal_purge enc crc w lid =
     map_option
       (\<lambda>w1. w1\<lparr>w_dir := foldl (\<lambda>d (_, path, m). if removable lid m then hm_remove path d else d) (w_dir w1) (w_closed w1),
                w_closed := filter (\<lambda>(_, _, m). \<not> removable lid m) (w_closed w1)\<rparr>)
       (log_record enc crc (Purge lid) w)"

definition wal_save_committed ::
  "(wal_record \<Rightarrow> u8 list) \<Rightarrow> (u8 list \<Rightarrow> u32) \<Rightarrow> wal \<Rightarrow> log_id option \<Rightarrow> wal option" where
  "wal_save_committed enc crc w c = log_record enc crc (Committed c) w"

section \<open>The vote file\<close>

text \<open>
  The file operations of a vote write, as the directories a crash can leave behind: before
  it starts, with an empty temporary file, with a partly written one, and after the rename.
\<close>

definition vote_path :: string where "vote_path = ''vote.bin''"
definition vote_tmp :: string where "vote_tmp = ''vote.tmp''"

definition save_vote_dirs :: "(raft_vote \<Rightarrow> u8 list) \<Rightarrow> wal_dir \<Rightarrow> raft_vote \<Rightarrow> wal_dir list" where
  "save_vote_dirs encv dir v =
     dir # map (\<lambda>k. hm_insert vote_tmp (take k (encv v)) dir) [0..<Suc (length (encv v))]
     @ [hm_remove vote_tmp (hm_insert vote_path (encv v) dir)]"

definition save_vote :: "(raft_vote \<Rightarrow> u8 list) \<Rightarrow> wal_dir \<Rightarrow> raft_vote \<Rightarrow> wal_dir" where
  "save_vote encv dir v = last (save_vote_dirs encv dir v)"

definition read_vote :: "(u8 list \<Rightarrow> raft_vote option) \<Rightarrow> wal_dir \<Rightarrow> raft_vote option" where
  "read_vote decv dir = Option.bind (hm_get dir vote_path) decv"

section \<open>The log store over the log\<close>

record wal_log_store =
  wls_wal :: wal
  wls_dir :: wal_dir
  wls_vote :: "raft_vote option"

definition wls_open ::
  "(u8 list \<Rightarrow> wal_record option) \<Rightarrow> (u8 list \<Rightarrow> raft_vote option) \<Rightarrow> (u8 list \<Rightarrow> u32) \<Rightarrow>
    wal_dir \<Rightarrow> wal_dir \<Rightarrow> wal_log_store option" where
  "wls_open dec decv crc wal_files_dir data_dir =
     map_option (\<lambda>w. \<lparr>wls_wal = w, wls_dir = data_dir, wls_vote = read_vote decv data_dir\<rparr>)
       (wal_open dec crc wal_files_dir)"

definition wls_try_get_log_entries :: "wal_log_store \<Rightarrow> nat \<Rightarrow> nat \<Rightarrow> entry list" where
  "wls_try_get_log_entries s lo hi = range_entries (ws_entries (w_state (wls_wal s))) lo hi"

definition wls_get_log_state :: "wal_log_store \<Rightarrow> log_state" where
  "wls_get_log_state s =
     (let st = w_state (wls_wal s)
      in \<lparr>last_purged_log_id = ws_last_purged st,
          last_log_id = (case last_entry (ws_entries st) of
             Some e \<Rightarrow> Some (entry_id e) | None \<Rightarrow> ws_last_purged st)\<rparr>)"

definition wls_save_vote :: "(raft_vote \<Rightarrow> u8 list) \<Rightarrow> wal_log_store \<Rightarrow> raft_vote \<Rightarrow> wal_log_store" where
  "wls_save_vote encv s v = s\<lparr>wls_dir := save_vote encv (wls_dir s) v, wls_vote := Some v\<rparr>"

abbreviation with_wal :: "wal_log_store \<Rightarrow> wal option \<Rightarrow> wal_log_store option" where
  "with_wal s wo \<equiv> map_option (\<lambda>w. s\<lparr>wls_wal := w\<rparr>) wo"

definition wls_save_committed ::
  "(wal_record \<Rightarrow> u8 list) \<Rightarrow> (u8 list \<Rightarrow> u32) \<Rightarrow> wal_log_store \<Rightarrow> log_id option \<Rightarrow> wal_log_store option" where
  "wls_save_committed enc crc s c = with_wal s (wal_save_committed enc crc (wls_wal s) c)"

definition wls_append ::
  "(wal_record \<Rightarrow> u8 list) \<Rightarrow> (u8 list \<Rightarrow> u32) \<Rightarrow> wal_log_store \<Rightarrow> entry list \<Rightarrow> wal_log_store option" where
  "wls_append enc crc s es = with_wal s (append_entries enc crc (wls_wal s) es)"

definition wls_truncate ::
  "(wal_record \<Rightarrow> u8 list) \<Rightarrow> (u8 list \<Rightarrow> u32) \<Rightarrow> wal_log_store \<Rightarrow> log_id \<Rightarrow> wal_log_store option" where
  "wls_truncate enc crc s l = with_wal s (truncate_from enc crc (wls_wal s) (li_index l))"

definition wls_purge ::
  "(wal_record \<Rightarrow> u8 list) \<Rightarrow> (u8 list \<Rightarrow> u32) \<Rightarrow> wal_log_store \<Rightarrow> log_id \<Rightarrow> wal_log_store option" where
  "wls_purge enc crc s l = with_wal s (wal_purge enc crc (wls_wal s) l)"

section \<open>Frames are read back\<close>

lemma from_to_le_bytes [simp]: "from_le_bytes (to_le_bytes w) = w"
proof (rule bit_word_eqI)
  fix n assume "n < LENGTH(32)"
  then consider "n < 8" | "8 \<le> n" "n < 16" | "16 \<le> n" "n < 24" | "24 \<le> n" "n < 32" by fastforce
  then show "bit (from_le_bytes (to_le_bytes w)) n \<longleftrightarrow> bit w n"
    by cases (auto simp: from_le_bytes_def to_le_bytes_def bit_simps)
qed

lemma length_to_le_bytes [simp]: "length (to_le_bytes w) = 4"
  by (simp add: to_le_bytes_def)

lemma length_frame: "length (frame crc p) = FRAME_HEADER + length p"
  by (simp add: frame_def FRAME_HEADER_def)

definition codec_ok ::
  "(wal_record \<Rightarrow> u8 list) \<Rightarrow> (u8 list \<Rightarrow> wal_record option) \<Rightarrow> wal_record list \<Rightarrow> bool" where
  "codec_ok enc dec rs \<longleftrightarrow> (\<forall>r \<in> set rs. dec (enc r) = Some r)"

definition framable :: "(wal_record \<Rightarrow> u8 list) \<Rightarrow> wal_record list \<Rightarrow> bool" where
  "framable enc rs \<longleftrightarrow> (\<forall>r \<in> set rs. length (enc r) < 2 ^ 32)"

definition frames :: "(wal_record \<Rightarrow> u8 list) \<Rightarrow> (u8 list \<Rightarrow> u32) \<Rightarrow> wal_record list \<Rightarrow> u8 list" where
  "frames enc crc rs = concat (map (\<lambda>r. frame crc (enc r)) rs)"

lemma frames_simps [simp]:
  "frames enc crc [] = []"
  "frames enc crc (r # rs) = frame crc (enc r) @ frames enc crc rs"
  "frames enc crc (rs @ rs') = frames enc crc rs @ frames enc crc rs'"
  by (simp_all add: frames_def)

lemma scan_frame:
  assumes "dec (enc r) = Some r" and len: "length (enc r) < 2 ^ 32"
  shows "scan_frames dec crc (pre @ frame crc (enc r) @ post) (length pre)
    = (let (rs, c) = scan_frames dec crc (pre @ frame crc (enc r) @ post)
         (length (pre @ frame crc (enc r))) in (r # rs, c))"
proof -
  let ?bytes = "pre @ frame crc (enc r) @ post"
  have "unat (word_of_nat (length (enc r)) :: u32) = length (enc r)"
    using len by (simp add: unsigned_of_nat take_bit_nat_eq_self)
  moreover have "take 4 (drop (length pre) ?bytes) = to_le_bytes (of_len (enc r))"
    "take 4 (drop (length pre + 4) ?bytes) = to_le_bytes (crc (enc r))"
    "take (length (enc r)) (drop (length pre + 8) ?bytes) = enc r"
    by (simp_all add: frame_def)
  moreover have "length pre + FRAME_HEADER + length (enc r) = length (pre @ frame crc (enc r))"
    by (simp add: length_frame)
  moreover note assms(1)
  moreover have "\<not> length ?bytes < length pre + FRAME_HEADER"
    "\<not> length ?bytes < length pre + FRAME_HEADER + length (enc r)"
    by (simp_all add: length_frame)
  ultimately show ?thesis
    unfolding scan_frames.simps [of dec crc ?bytes "length pre"]
    by (simp add: Let_def FRAME_HEADER_def add.assoc)
qed

text \<open>The scan of a stream of whole frames followed by any bytes goes through the frames.\<close>

lemma scan_frames_prefix:
  assumes "codec_ok enc dec rs" and "framable enc rs"
  shows "scan_frames dec crc (pre @ frames enc crc rs @ post) (length pre)
    = (let (rs', c) = scan_frames dec crc (pre @ frames enc crc rs @ post) (length (pre @ frames enc crc rs))
       in (rs @ rs', c))"
  using assms
proof (induction rs arbitrary: pre)
  case (Cons r rs)
  then have "dec (enc r) = Some r" "length (enc r) < 2 ^ 32" "codec_ok enc dec rs" "framable enc rs"
    by (simp_all add: framable_def codec_ok_def)
  with Cons.IH [of "pre @ frame crc (enc r)"] scan_frame [of dec enc r crc pre "frames enc crc rs @ post"]
  show ?case by (simp add: split_beta Let_def)
qed simp

lemma scan_end: "scan_frames dec crc bytes (length bytes) = ([], None)"
  by (simp add: scan_frames.simps FRAME_HEADER_def)

lemma scan_frames_whole:
  "codec_ok enc dec rs \<Longrightarrow> framable enc rs \<Longrightarrow> scan_frames dec crc (frames enc crc rs) 0 = (rs, None)"
  using scan_frames_prefix [of enc dec rs crc "[]" "[]"] by (simp add: scan_end)

text \<open>A frame cut short is never read: the scan stops at its first byte.\<close>

lemma scan_torn:
  assumes "length (enc r) < 2 ^ 32" and "0 < k" and "k < length (frame crc (enc r))"
  shows "scan_frames dec crc (pre @ take k (frame crc (enc r))) (length pre) = ([], Some (length pre))"
proof (cases "k < FRAME_HEADER")
  case True
  then show ?thesis
    using assms(2,3) by (subst scan_frames.simps) (simp add: length_frame)
next
  case False
  have "unat (word_of_nat (length (enc r)) :: u32) = length (enc r)"
    using assms(1) by (simp add: unsigned_of_nat take_bit_nat_eq_self)
  moreover have "take 4 (drop (length pre) (pre @ take k (frame crc (enc r)))) = to_le_bytes (of_len (enc r))"
    using False by (simp add: frame_def FRAME_HEADER_def)
  ultimately show ?thesis
    using False assms(3) by (subst scan_frames.simps) (simp add: length_frame Let_def)
qed

section \<open>Segment names\<close>

lemma digits_value_zeros: "digits_value (replicate k (CHR ''0'') @ ds) = digits_value ds"
  by (induction k) (simp_all add: digits_value_def)

lemma parse_pad_left: "n < 2 ^ 64 \<Longrightarrow> parse_unsigned 64 (pad_left w (show_nat n)) = Some n"
proof -
  assume lt: "n < 2 ^ 64"
  let ?ds = "pad_left w (show_nat n)"
  have "list_all is_digit ?ds" "?ds \<noteq> []" "digits_value ?ds = n"
    using show_nat_digits [of n]
    by (auto simp: pad_left_def digits_value_zeros list_all_iff is_digit_def)
  moreover from this have "hd ?ds \<noteq> CHR ''+''" by (cases ?ds) (auto simp: is_digit_def)
  ultimately show ?thesis using lt by (simp add: parse_unsigned_def)
qed

lemma segment_seq_path: "seq < 2 ^ 64 \<Longrightarrow> segment_seq (segment_path seq) = Some seq"
proof -
  assume lt: "seq < 2 ^ 64"
  let ?ds = "pad_left 16 (show_nat seq)"
  have "strip_prefix ''seg-'' (segment_path seq) = Some (?ds @ ''.wal'')"
    by (simp add: segment_path_def strip_prefix_def)
  moreover have "strip_suffix ''.wal'' (?ds @ ''.wal'') = Some ?ds"
    by (simp add: strip_suffix_def strip_prefix_def)
  moreover have "parse_unsigned 64 ?ds = Some seq" by (rule parse_pad_left [OF lt])
  ultimately show ?thesis by (simp add: segment_seq_def)
qed

lemma segment_path_inj:
  "s < 2 ^ 64 \<Longrightarrow> t < 2 ^ 64 \<Longrightarrow> segment_path s = segment_path t \<longleftrightarrow> s = t"
  by (metis option.inject segment_seq_path)

section \<open>What a directory holds\<close>

text \<open>
  A log in memory and the record streams of its segments, in order: the directory holds
  exactly the frames of the streams under the segments' names, the last stream is the active
  segment, the bookkeeping of the others is in \<open>closed\<close>, and the folded state is the replay
  of all of them.
\<close>

definition replay :: "wal_record list \<Rightarrow> wal_state" where
  "replay rs = foldl wal_state_apply wal_state_default rs"

definition wal_files ::
  "(wal_record \<Rightarrow> u8 list) \<Rightarrow> (u8 list \<Rightarrow> u32) \<Rightarrow> wal \<Rightarrow> (nat \<times> wal_record list) list \<Rightarrow> bool" where
  "wal_files enc crc w segs \<longleftrightarrow>
     segs \<noteq> [] \<and> sorted_wrt (<) (map fst segs) \<and> (\<forall>s \<in> fst ` set segs. s < 2 ^ 64)
     \<and> hm_wf (w_dir w)
     \<and> (\<forall>(s, rs) \<in> set segs. hm_get (w_dir w) (segment_path s) = Some (frames enc crc rs) \<and> framable enc rs)
     \<and> (\<forall>n \<in> fst ` set (w_dir w). \<forall>s. segment_seq n = Some s \<longrightarrow> n = segment_path s \<and> s \<in> fst ` set segs)
     \<and> seg_seq w = fst (last segs) \<and> seg_bytes w = length (frames enc crc (snd (last segs)))
     \<and> seg_max_index w = foldl bump_max None (snd (last segs))
     \<and> w_closed w = map (\<lambda>(s, rs). (s, segment_path s, foldl bump_max None rs)) (butlast segs)"

definition wal_repr ::
  "(wal_record \<Rightarrow> u8 list) \<Rightarrow> (u8 list \<Rightarrow> u32) \<Rightarrow> wal \<Rightarrow> (nat \<times> wal_record list) list \<Rightarrow> bool" where
  "wal_repr enc crc w segs \<longleftrightarrow> wal_files enc crc w segs \<and> w_state w = replay (concat (map snd segs))"

lemma dir_seqs:
  assumes "sorted_wrt (<) (map fst segs)" and "\<forall>s \<in> fst ` set segs. s < 2 ^ 64" and "hm_wf dir"
    and "\<forall>s \<in> fst ` set segs. hm_get dir (segment_path s) \<noteq> None"
    and "\<forall>n \<in> fst ` set dir. \<forall>s. segment_seq n = Some s \<longrightarrow> n = segment_path s \<and> s \<in> fst ` set segs"
  shows "sort (List.map_filter segment_seq (hm_keys dir)) = map fst segs"
proof -
  let ?xs = "List.map_filter segment_seq (hm_keys dir)"
  have "set ?xs = fst ` set segs"
  proof
    show "fst ` set segs \<subseteq> set ?xs"
    proof
      fix s assume s: "s \<in> fst ` set segs"
      then have "segment_path s \<in> set (hm_keys dir)" using assms(4) by (metis image_set map_of_eq_None_iff)
      moreover have "segment_seq (segment_path s) = Some s" using s assms(2) segment_seq_path by blast
      ultimately show "s \<in> set ?xs" unfolding List.map_filter_def by force
    qed
  qed (use assms(5) in \<open>auto simp: List.map_filter_def\<close>)
  moreover have "distinct ?xs"
  proof -
    have "inj_on segment_seq {n \<in> set (hm_keys dir). segment_seq n \<noteq> None}"
    proof (rule inj_onI)
      fix a b assume "a \<in> {n \<in> set (hm_keys dir). segment_seq n \<noteq> None}"
        "b \<in> {n \<in> set (hm_keys dir). segment_seq n \<noteq> None}" and eq: "segment_seq a = segment_seq b"
      then obtain s where "segment_seq a = Some s" "a \<in> fst ` set dir" "b \<in> fst ` set dir" by auto
      with eq assms(5) show "a = b" by metis
    qed
    then have "distinct (map segment_seq (filter (\<lambda>n. segment_seq n \<noteq> None) (hm_keys dir)))"
      using assms(3) by (subst distinct_map) (auto simp: inj_on_def)
    moreover have "map segment_seq (filter (\<lambda>n. segment_seq n \<noteq> None) ks) = map Some (List.map_filter segment_seq ks)" for ks
      by (induction ks) auto
    ultimately show ?thesis by (metis distinct_map)
  qed
  moreover have "sorted (map fst segs)" "distinct (map fst segs)"
    using assms(1) by (simp_all add: strict_sorted_iff)
  ultimately show ?thesis
    by (intro sorted_distinct_set_unique) simp_all
qed

abbreviation closed_entry :: "nat \<times> wal_record list \<Rightarrow> nat \<times> string \<times> nat option" where
  "closed_entry \<equiv> \<lambda>(s, rs). (s, segment_path s, foldl bump_max None rs)"

lemma open_scan_clean:
  assumes "codec_ok enc dec (concat (map snd segs))"
    and "\<forall>(s, rs) \<in> set segs. hm_get dir (segment_path s) = Some (frames enc crc rs) \<and> framable enc rs"
  shows "open_scan dec crc dir (map fst segs @ rest) st cls
    = open_scan dec crc dir rest (foldl wal_state_apply st (concat (map snd segs))) (cls @ map closed_entry segs)"
  using assms
proof (induction segs arbitrary: st cls)
  case (Cons seg segs)
  obtain s rs where seg: "seg = (s, rs)" by fastforce
  with Cons.prems have "codec_ok enc dec rs" "codec_ok enc dec (concat (map snd segs))"
    by (auto simp: codec_ok_def)
  with Cons seg show ?case by (simp add: scan_frames_whole)
qed simp

lemma find_last_seg:
  assumes "distinct (map fst (segs @ [(s, rs)]))"
  shows "List.find (\<lambda>(t, _, _). t = s) (map closed_entry (segs @ [(s, rs)])) = Some (closed_entry (s, rs))"
    and "filter (\<lambda>(t, _, _). t \<noteq> s) (map closed_entry (segs @ [(s, rs)])) = map closed_entry segs"
  using assms by (induction segs) (auto simp: filter_id_conv)

lemma wal_open_repr:
  assumes codec: "codec_ok enc dec (concat (map snd segs))" and repr: "wal_repr enc crc w segs"
  shows "wal_open dec crc (w_dir w) = Some w"
proof -
  note r = repr [unfolded wal_repr_def wal_files_def]
  from r obtain init s rs where segs: "segs = init @ [(s, rs)]"
    by (metis append_butlast_last_id prod.collapse)
  have files: "\<forall>(s, rs) \<in> set segs. hm_get (w_dir w) (segment_path s) = Some (frames enc crc rs) \<and> framable enc rs"
    using r by blast
  have seqs: "sort (List.map_filter segment_seq (hm_keys (w_dir w))) = map fst segs"
    using r files by (intro dir_seqs) auto
  have scan: "open_scan dec crc (w_dir w) (map fst segs) wal_state_default []
      = Some (w_state w, map closed_entry segs, None)"
    using open_scan_clean [OF codec files, of "[]"] r by (simp add: replay_def)
  have "distinct (map fst (init @ [(s, rs)]))" using r segs by (simp add: strict_sorted_iff)
  note last = find_last_seg [OF this]
  have "hm_get (w_dir w) (segment_path s) = Some (frames enc crc rs)" using files segs by auto
  then show ?thesis
    using r unfolding wal_open_def Let_def seqs scan
    by (simp add: truncate_corrupt_def segs last [simplified])
qed

section \<open>Appending keeps the representation\<close>

lemma write_record_files:
  assumes files: "wal_files enc crc w (init @ [(s, rs)])" and "length (enc r) < 2 ^ 32"
  shows "wal_files enc crc (write_record enc crc r w) (init @ [(s, rs @ [r])])"
proof -
  note f = files [unfolded wal_files_def]
  have seq: "seg_seq w = s" and here: "hm_get (w_dir w) (segment_path s) = Some (frames enc crc rs)"
    using f by auto
  have other: "segment_path t \<noteq> segment_path s" if "(t, ts) \<in> set init" for t ts
    using f that segment_path_inj [of t s] by (auto simp: sorted_wrt_append)
  have key: "segment_path s \<in> fst ` set (w_dir w)" using here map_of_SomeD by force
  then have keys: "fst ` set (w_dir (write_record enc crc r w)) = fst ` set (w_dir w)"
    by (auto simp: write_record_def Let_def hashmap_simps seq)
  show ?thesis
    unfolding wal_files_def keys using f here other assms(2)
    by (auto simp: write_record_def Let_def hashmap_simps seq framable_def length_frame)
qed

lemma next_segment_files:
  assumes files: "wal_files enc crc w segs" and room: "seg_seq w + 1 < 2 ^ 64"
  shows "wal_files enc crc (next_segment w) (segs @ [(seg_seq w + 1, [])])"
proof -
  note f = files [unfolded wal_files_def]
  let ?p = "segment_path (seg_seq w + 1)"
  obtain init s rs where segs: "segs = init @ [(s, rs)]" and s: "seg_seq w = s"
    using f by (metis append_butlast_last_id prod.collapse)
  have seqs: "\<forall>t \<in> fst ` set segs. t < seg_seq w + 1"
    using f segs s by (auto simp: sorted_wrt_append less_Suc_eq)
  have fresh: "hm_get (w_dir w) ?p = None"
  proof (rule ccontr)
    assume "hm_get (w_dir w) ?p \<noteq> None"
    then have "?p \<in> fst ` set (w_dir w)" by (simp add: map_of_eq_None_iff)
    then have "seg_seq w + 1 \<in> fst ` set segs" using f segment_seq_path [OF room] by blast
    with seqs show False by blast
  qed
  have other: "segment_path t \<noteq> ?p" if "t \<in> fst ` set segs" for t
  proof -
    have "t < seg_seq w + 1" "t < 2 ^ 64" using that seqs f by blast+
    then show ?thesis using segment_path_inj [OF _ room] by simp
  qed
  have dir: "w_dir (next_segment w) = hm_insert ?p [] (w_dir w)"
    using fresh by (simp add: next_segment_def Let_def)
  have own: "n = segment_path t \<and> t \<in> fst ` set (segs @ [(seg_seq w + 1, [])])"
    if "n \<in> fst ` set (w_dir (next_segment w))" "segment_seq n = Some t" for n t
    using that f segment_seq_path [OF room] by (auto simp: dir hashmap_simps)
  have content: "hm_get (w_dir (next_segment w)) (segment_path t) = Some (frames enc crc ts) \<and> framable enc ts"
    if "(t, ts) \<in> set (segs @ [(seg_seq w + 1, [])])" for t ts
  proof (cases "t = seg_seq w + 1")
    case True
    then have "ts = []" using that seqs by fastforce
    with True show ?thesis by (simp add: dir hashmap_simps framable_def)
  next
    case False
    then have "(t, ts) \<in> set segs" using that by auto
    moreover from this have "segment_path t \<noteq> ?p" by (intro other) force
    moreover have "\<forall>(t, ts) \<in> set segs. hm_get (w_dir w) (segment_path t) = Some (frames enc crc ts) \<and> framable enc ts"
      using f by blast
    ultimately show ?thesis unfolding dir hm_get_insert by auto
  qed
  have "sorted_wrt (<) (map fst (segs @ [(seg_seq w + 1, [])]))"
    using f seqs by (simp add: sorted_wrt_append)
  moreover have "hm_wf (w_dir (next_segment w))" using f by (simp add: dir hashmap_simps)
  moreover have "w_closed (next_segment w)
      = map (\<lambda>(s, rs). (s, segment_path s, foldl bump_max None rs)) (butlast (segs @ [(seg_seq w + 1, [])]))"
    unfolding butlast_snoc using f by (simp add: next_segment_def Let_def segs)
  moreover have "\<forall>t \<in> fst ` set (segs @ [(seg_seq w + 1, [])]). t < 2 ^ 64" using f room by auto
  moreover from content have "\<forall>(t, ts) \<in> set (segs @ [(seg_seq w + 1, [])]).
      hm_get (w_dir (next_segment w)) (segment_path t) = Some (frames enc crc ts) \<and> framable enc ts" by blast
  moreover from own have "\<forall>n \<in> fst ` set (w_dir (next_segment w)). \<forall>t. segment_seq n = Some t \<longrightarrow>
      n = segment_path t \<and> t \<in> fst ` set (segs @ [(seg_seq w + 1, [])])" by blast
  ultimately show ?thesis
    unfolding wal_files_def by (intro conjI) (assumption | simp (no_asm) add: next_segment_def Let_def)+
qed

definition small_checkpoints :: "(wal_record \<Rightarrow> u8 list) \<Rightarrow> bool" where
  "small_checkpoints enc \<longleftrightarrow> (\<forall>lp c. FRAME_HEADER + length (enc (Checkpoint lp c)) < SEGMENT_MAX_BYTES)"

definition fills_segment :: "(wal_record \<Rightarrow> u8 list) \<Rightarrow> wal \<Rightarrow> wal_record \<Rightarrow> bool" where
  "fills_segment enc w r \<longleftrightarrow> seg_bytes w + FRAME_HEADER + length (enc r) \<ge> SEGMENT_MAX_BYTES"

definition pointer_checkpoint :: "wal \<Rightarrow> wal_record" where
  "pointer_checkpoint w = Checkpoint (ws_last_purged (w_state w)) (ws_committed (w_state w))"

lemma write_record_fields [simp]:
  "w_state (write_record enc crc r w) = w_state w" "seg_seq (write_record enc crc r w) = seg_seq w"
  "seg_bytes (write_record enc crc r w) = seg_bytes w + FRAME_HEADER + length (enc r)"
  by (simp_all add: write_record_def Let_def length_frame)

lemma next_segment_fields [simp]:
  "w_state (next_segment w) = w_state w" "seg_seq (next_segment w) = seg_seq w + 1"
  "seg_bytes (next_segment w) = 0"
  by (simp_all add: next_segment_def Let_def)

text \<open>An append returns after at most one rotation.\<close>

lemma wal_append_eq:
  assumes "small_checkpoints enc"
  shows "wal_append enc crc r w = Some
    (if fills_segment enc w r
     then write_record enc crc (pointer_checkpoint w) (next_segment (write_record enc crc r w))
     else write_record enc crc r w)"
proof (cases "fills_segment enc w r")
  case False
  then show ?thesis by (subst wal_append.simps) (simp add: fills_segment_def Let_def)
next
  case True
  have "\<not> SEGMENT_MAX_BYTES \<le> FRAME_HEADER + length (enc (pointer_checkpoint w))"
    using assms by (simp add: small_checkpoints_def pointer_checkpoint_def not_le)
  then have "wal_append enc crc (pointer_checkpoint w) (next_segment (write_record enc crc r w))
      = Some (write_record enc crc (pointer_checkpoint w) (next_segment (write_record enc crc r w)))"
    by (subst wal_append.simps) (simp add: Let_def)
  with True show ?thesis
    by (subst wal_append.simps) (simp add: fills_segment_def pointer_checkpoint_def Let_def)
qed

lemma wal_files_fold_record [simp]: "wal_files enc crc (fold_record w r) segs = wal_files enc crc w segs"
  by (simp add: wal_files_def fold_record_def)

lemma replay_snoc: "replay (rs @ [r]) = wal_state_apply (replay rs) r"
  by (simp add: replay_def)

text \<open>
  A checkpoint restates pointers the stream already fixes, unless the record before it set
  the committed pointer back to none.
\<close>

lemma checkpoint_restates:
  "r \<noteq> Committed None \<Longrightarrow>
    wal_state_apply (wal_state_apply st r) (Checkpoint (ws_last_purged st) (ws_committed st)) = wal_state_apply st r"
  by (cases r) (auto simp: wal_state.defs)

lemma log_record_repr:
  assumes repr: "wal_repr enc crc w (init @ [(s, rs)])" and small: "small_checkpoints enc"
    and r: "length (enc r) < 2 ^ 32" "r \<noteq> Committed None" and room: "s + 1 < 2 ^ 64"
  obtains w' where "log_record enc crc r w = Some w'"
    and "w_state w' = wal_state_apply (w_state w) r"
    and "wal_repr enc crc w'
      (init @ [(s, rs @ [r])] @ (if fills_segment enc w r then [(s + 1, [pointer_checkpoint w])] else []))"
proof -
  have files: "wal_files enc crc w (init @ [(s, rs)])" and st: "w_state w = replay (concat (map snd init) @ rs)"
    and seq: "seg_seq w = s" using repr by (auto simp: wal_repr_def wal_files_def)
  let ?w1 = "write_record enc crc r w"
  have f1: "wal_files enc crc ?w1 (init @ [(s, rs @ [r])])"
    by (rule write_record_files [OF files r(1)])
  have "length (enc (pointer_checkpoint w)) < 2 ^ 32"
  proof -
    have "FRAME_HEADER + length (enc (pointer_checkpoint w)) < SEGMENT_MAX_BYTES"
      using small by (simp add: small_checkpoints_def pointer_checkpoint_def)
    then show ?thesis by (simp add: SEGMENT_MAX_BYTES_def)
  qed
  then have f2: "wal_files enc crc (write_record enc crc (pointer_checkpoint w) (next_segment ?w1))
      ((init @ [(s, rs @ [r])]) @ [(s + 1, [pointer_checkpoint w])])"
    using write_record_files [of enc crc "next_segment ?w1" "init @ [(s, rs @ [r])]" "s + 1" "[]" "pointer_checkpoint w"]
      next_segment_files [OF f1] room seq by simp
  define w' where "w' = fold_record (if fills_segment enc w r
      then write_record enc crc (pointer_checkpoint w) (next_segment ?w1) else ?w1) r"
  show thesis
  proof (rule that [of w'])
    show "log_record enc crc r w = Some w'"
      by (simp add: log_record_def wal_append_eq [OF small] w'_def)
    show "w_state w' = wal_state_apply (w_state w) r"
      by (simp add: w'_def fold_record_def)
    show "wal_repr enc crc w' (init @ [(s, rs @ [r])] @ (if fills_segment enc w r then [(s + 1, [pointer_checkpoint w])] else []))"
    proof (cases "fills_segment enc w r")
      case True
      have "replay (concat (map snd init) @ (rs @ [r]) @ [pointer_checkpoint w]) = wal_state_apply (w_state w) r"
        using checkpoint_restates [OF r(2), of "w_state w"]
        by (simp add: replay_snoc st pointer_checkpoint_def flip: append_assoc)
      then show ?thesis
        unfolding wal_repr_def using True f2 \<open>w_state w' = _\<close> by (simp add: w'_def)
    next
      case False
      then show ?thesis
        unfolding wal_repr_def using f1 \<open>w_state w' = _\<close>
        by (simp add: w'_def replay_snoc st flip: append_assoc)
    qed
  qed
qed

section \<open>A torn tail\<close>

lemma take_frames:
  obtains rs' rest j where "rs = rs' @ rest" and "take k (frames enc crc rs)
      = frames enc crc rs' @ (case rest of [] \<Rightarrow> [] | r # _ \<Rightarrow> take j (frame crc (enc r)))"
    and "rest \<noteq> [] \<Longrightarrow> j < length (frame crc (enc (hd rest)))"
    and "rest \<noteq> [] \<Longrightarrow> k = length (frames enc crc rs') + j"
proof (induction rs arbitrary: k thesis)
  case Nil
  then show ?case by (metis append_Nil frames_simps(1) list.case(1) take_Nil)
next
  case (Cons r rs)
  show ?case
  proof (cases "k < length (frame crc (enc r))")
    case True
    then show ?thesis by (intro Cons.prems [of "[]" "r # rs" k]) auto
  next
    case False
    obtain rs' rest j where "rs = rs' @ rest" and "take (k - length (frame crc (enc r))) (frames enc crc rs)
        = frames enc crc rs' @ (case rest of [] \<Rightarrow> [] | r # _ \<Rightarrow> take j (frame crc (enc r)))"
      and "rest \<noteq> [] \<Longrightarrow> j < length (frame crc (enc (hd rest)))"
      and "rest \<noteq> [] \<Longrightarrow> k - length (frame crc (enc r)) = length (frames enc crc rs') + j"
      using Cons.IH by blast
    with False show ?thesis by (intro Cons.prems [of "r # rs'" rest j]) auto
  qed
qed

lemma scan_cut:
  assumes "codec_ok enc dec rs" and "framable enc rs"
  obtains rs' rest where "rs = rs' @ rest" and "length (frames enc crc rs') \<le> length (take k (frames enc crc rs))"
    and "rest \<noteq> [] \<Longrightarrow> k < length (frames enc crc (rs' @ [hd rest]))"
    and "take (length (frames enc crc rs')) (take k (frames enc crc rs)) = frames enc crc rs'"
    and "scan_frames dec crc (take k (frames enc crc rs)) 0 = (rs',
      if take k (frames enc crc rs) = frames enc crc rs' then None else Some (length (frames enc crc rs')))"
proof -
  obtain rs' rest j where split: "rs = rs' @ rest" and cut: "take k (frames enc crc rs)
      = frames enc crc rs' @ (case rest of [] \<Rightarrow> [] | r # _ \<Rightarrow> take j (frame crc (enc r)))"
    and j: "rest \<noteq> [] \<Longrightarrow> j < length (frame crc (enc (hd rest)))"
    and k: "rest \<noteq> [] \<Longrightarrow> k = length (frames enc crc rs') + j"
    by (rule take_frames [of rs k enc crc]) blast
  let ?tail = "case rest of [] \<Rightarrow> [] | r # _ \<Rightarrow> take j (frame crc (enc r))"
  have codec: "codec_ok enc dec rs'" "framable enc rs'"
    using assms split by (auto simp: codec_ok_def framable_def)
  have tail: "scan_frames dec crc (frames enc crc rs' @ ?tail) (length (frames enc crc rs'))
      = ([], if ?tail = [] then None else Some (length (frames enc crc rs')))"
  proof (cases "?tail = []")
    case True
    then show ?thesis by (simp add: scan_end)
  next
    case False
    then obtain r rest' where rest: "rest = r # rest'" and "0 < j" by (cases rest) (auto intro: gr0I)
    moreover have "length (enc r) < 2 ^ 32" using assms(2) split rest by (simp add: framable_def)
    ultimately show ?thesis using False j scan_torn [of enc r j crc dec] by simp
  qed
  show thesis
  proof (rule that [OF split])
    show "scan_frames dec crc (take k (frames enc crc rs)) 0 = (rs',
        if take k (frames enc crc rs) = frames enc crc rs' then None else Some (length (frames enc crc rs')))"
      using scan_frames_prefix [OF codec, of crc "[]" ?tail] tail by (simp add: cut)
    show "k < length (frames enc crc (rs' @ [hd rest]))" if "rest \<noteq> []"
      using that j k by simp
  qed (simp_all add: cut)
qed

lemma wal_files_cut:
  assumes files: "wal_files enc crc w (init @ [(s, rs)])" and "rs = rs' @ rest"
    and wf: "hm_wf dir" and get: "hm_get dir = (hm_get (w_dir w))(segment_path s \<mapsto> frames enc crc rs')"
  shows "wal_files enc crc \<lparr>w_dir = dir, seg_seq = s, seg_bytes = length (frames enc crc rs'),
    seg_max_index = foldl bump_max None rs', w_closed = map closed_entry init, w_state = st\<rparr> (init @ [(s, rs')])"
proof -
  note f = files [unfolded wal_files_def]
  have other: "segment_path t \<noteq> segment_path s" if "(t, ts) \<in> set init" for t ts
    using f that segment_path_inj [of t s] by (auto simp: sorted_wrt_append)
  have "hm_get (w_dir w) (segment_path s) \<noteq> None" using f by auto
  then have "dom (hm_get dir) = dom (hm_get (w_dir w))" by (auto simp: get split: if_splits)
  then have keys: "fst ` set dir = fst ` set (w_dir w)" by (simp add: dom_map_of_conv_image_fst)
  have "framable enc rs'" using f assms(2) by (auto simp: framable_def)
  with f other wf get show ?thesis
    unfolding wal_files_def by (auto simp: keys)
qed

lemma open_scan_active:
  assumes "codec_ok enc dec (concat (map snd (init @ [(s, rs)])))"
    and "\<forall>(t, ts) \<in> set init. hm_get dir (segment_path t) = Some (frames enc crc ts) \<and> framable enc ts"
    and "hm_get dir (segment_path s) = Some bytes"
    and "scan_frames dec crc bytes 0 = (rs', corrupt)"
  shows "open_scan dec crc dir (map fst init @ [s]) wal_state_default []
    = Some (replay (concat (map snd init) @ rs'), map closed_entry (init @ [(s, rs')]),
        map_option (Pair s) corrupt)"
proof -
  have "codec_ok enc dec (concat (map snd init))" using assms(1) by (auto simp: codec_ok_def)
  from open_scan_clean [OF this assms(2)] show ?thesis
    using assms(3,4) by (cases corrupt) (simp_all add: replay_def)
qed

text \<open>Cutting the last segment keeps the names and the other segments.\<close>
lemma torn_dir:
  assumes files: "wal_files enc crc w (init @ [(s, rs)])"
    and dir: "dir = hm_insert (segment_path s) bytes (w_dir w)"
  shows "hm_wf dir" and "hm_get dir = (hm_get (w_dir w))(segment_path s \<mapsto> bytes)"
    and "sort (List.map_filter segment_seq (hm_keys dir)) = map fst init @ [s]"
    and "\<forall>(t, ts) \<in> set init. hm_get dir (segment_path t) = Some (frames enc crc ts) \<and> framable enc ts"
proof -
  note f = files [unfolded wal_files_def]
  show wf: "hm_wf dir" using f by (simp add: dir hashmap_simps)
  show get: "hm_get dir = (hm_get (w_dir w))(segment_path s \<mapsto> bytes)"
    unfolding dir by (rule hm_get_insert)
  have other: "segment_path t \<noteq> segment_path s" if "(t, ts) \<in> set init" for t ts
    using f that segment_path_inj [of t s] by (auto simp: sorted_wrt_append)
  have "hm_get (w_dir w) (segment_path s) = Some (frames enc crc rs)" using f by simp
  then have "segment_path s \<in> fst ` set (w_dir w)" by (metis map_of_eq_None_iff option.distinct(1))
  then have keys: "fst ` set dir = fst ` set (w_dir w)" by (auto simp: dir hashmap_simps)
  have "sort (List.map_filter segment_seq (hm_keys dir)) = map fst (init @ [(s, rs)])"
    by (rule dir_seqs) (use f wf get keys in \<open>auto split: if_splits\<close>)
  then show "sort (List.map_filter segment_seq (hm_keys dir)) = map fst init @ [s]" by simp
  show "\<forall>(t, ts) \<in> set init. hm_get dir (segment_path t) = Some (frames enc crc ts) \<and> framable enc ts"
    using f other by (auto simp: get)
qed

text \<open>
  C12: A crash that loses the tail of the last segment costs only whole records of that tail.
  Recovery succeeds for every cut, the state is the replay of the records that end before
  the cut, the cut segment is repaired on disk, and the recovered log satisfies the
  representation again, so it can be appended to.
\<close>

theorem wal_open_torn_tail:
  assumes codec: "codec_ok enc dec (concat (map snd (init @ [(s, rs)])))"
    and repr: "wal_repr enc crc w (init @ [(s, rs)])"
    and dir: "dir = hm_insert (segment_path s) (take k (frames enc crc rs)) (w_dir w)"
  shows "\<exists>w' rs' rest. wal_open dec crc dir = Some w' \<and> rs = rs' @ rest
    \<and> wal_repr enc crc w' (init @ [(s, rs')])
    \<and> length (frames enc crc rs') \<le> k
    \<and> (rest = [] \<or> k < length (frames enc crc (rs' @ [hd rest])))"
proof -
  have files: "wal_files enc crc w (init @ [(s, rs)])" using repr by (simp add: wal_repr_def)
  note f = files [unfolded wal_files_def]
  have "codec_ok enc dec rs" "framable enc rs" using codec f by (auto simp: codec_ok_def)
  then obtain rs' rest where split: "rs = rs' @ rest"
    and len: "length (frames enc crc rs') \<le> length (take k (frames enc crc rs))"
    and most: "rest \<noteq> [] \<Longrightarrow> k < length (frames enc crc (rs' @ [hd rest]))"
    and pre: "take (length (frames enc crc rs')) (take k (frames enc crc rs)) = frames enc crc rs'"
    and scan: "scan_frames dec crc (take k (frames enc crc rs)) 0 = (rs',
      if take k (frames enc crc rs) = frames enc crc rs' then None else Some (length (frames enc crc rs')))"
    by (rule scan_cut [of enc dec rs crc k]) blast
  let ?p = "segment_path s"
  let ?bad = "if take k (frames enc crc rs) = frames enc crc rs' then None else Some (s, length (frames enc crc rs'))"
  note torn = torn_dir [OF files dir]
  have here: "hm_get dir ?p = Some (take k (frames enc crc rs))" by (simp add: torn(2))
  have below: "\<forall>t \<in> set (map fst init). t < s" "distinct (map fst (init @ [(s, rs')]))"
    using f by (auto simp: sorted_wrt_append strict_sorted_iff)
  note last = find_last_seg [OF below(2)]
  have scanned: "open_scan dec crc dir (map fst init @ [s]) wal_state_default []
      = Some (replay (concat (map snd init) @ rs'), map closed_entry (init @ [(s, rs')]), ?bad)"
    using open_scan_active [OF codec torn(4) here scan] by simp
  let ?dir = "truncate_corrupt dir (map fst init @ [s]) ?bad"
  have "filter (\<lambda>t. s < t) (map fst init @ [s]) = []" using below(1) by (auto simp: filter_empty_conv)
  then have dir': "hm_wf ?dir" "hm_get ?dir = (hm_get (w_dir w))(?p \<mapsto> frames enc crc rs')"
    using torn(1,2) pre by (auto simp: truncate_corrupt_def hashmap_simps)
  have kept: "filter (\<lambda>(t, _, _). t \<le> s) (map closed_entry (init @ [(s, rs')])) = map closed_entry (init @ [(s, rs')])"
    using below(1) by (auto simp: filter_id_conv less_imp_le)
  let ?w = "\<lparr>w_dir = ?dir, seg_seq = s, seg_bytes = length (frames enc crc rs'),
    seg_max_index = foldl bump_max None rs', w_closed = map closed_entry init,
    w_state = replay (concat (map snd init) @ rs')\<rparr>"
  have "wal_open dec crc dir = Some ?w"
    unfolding wal_open_def Let_def torn(3) scanned using last kept dir'(2) by auto
  moreover have "wal_repr enc crc ?w (init @ [(s, rs')])"
    using wal_files_cut [OF files split dir'] by (simp add: wal_repr_def)
  ultimately show ?thesis using split len most by fastforce
qed

section \<open>Purging\<close>

text \<open>Two states that differ only in entries at or below an index.\<close>

definition agree_above :: "nat \<Rightarrow> wal_state \<Rightarrow> wal_state \<Rightarrow> bool" where
  "agree_above p st st' \<longleftrightarrow> ws_last_purged st = ws_last_purged st' \<and> ws_committed st = ws_committed st'
     \<and> (\<forall>k > p. fmlookup (ws_entries st) k = fmlookup (ws_entries st') k)"

lemma agree_apply: "agree_above p st st' \<Longrightarrow> agree_above p (wal_state_apply st r) (wal_state_apply st' r)"
  by (cases r) (auto simp: agree_above_def)

lemma agree_fold:
  "agree_above p st st' \<Longrightarrow> agree_above p (foldl wal_state_apply st rs) (foldl wal_state_apply st' rs)"
  by (induction rs arbitrary: st st') (auto intro: agree_apply)

lemma agree_purge:
  assumes "agree_above (li_index l) st st'"
  shows "wal_state_apply st (Purge l) = wal_state_apply st' (Purge l)"
proof -
  have "fmfilter (\<lambda>k. \<not> k \<le> li_index l) (ws_entries st) = fmfilter (\<lambda>k. \<not> k \<le> li_index l) (ws_entries st')"
    using assms by (intro fmap_ext) (auto simp: agree_above_def)
  with assms show ?thesis by (intro wal_state.equality) (simp_all add: agree_above_def)
qed

lemma bump_max_bound:
  assumes "removable l (foldl bump_max m rs)"
  shows "removable l m \<and> (\<forall>e. Entry e \<in> set rs \<longrightarrow> entry_index e \<le> li_index l)"
  using assms
proof (induction rs arbitrary: m)
  case (Cons r rs)
  then have "removable l (bump_max m r)" and "\<forall>e. Entry e \<in> set rs \<longrightarrow> entry_index e \<le> li_index l"
    by auto
  then show ?case
    by (cases r) (auto simp: bump_max_def removable_def split: option.splits)
qed simp

lemma fold_entries_bound:
  assumes "\<forall>e. Entry e \<in> set rs \<longrightarrow> entry_index e \<le> p"
    and "\<forall>k > p. fmlookup (ws_entries st) k = None"
  shows "\<forall>k > p. fmlookup (ws_entries (foldl wal_state_apply st rs)) k = None"
  using assms
proof (induction rs arbitrary: st)
  case (Cons r rs)
  have "\<forall>k > p. fmlookup (ws_entries (wal_state_apply st r)) k = None"
    using Cons.prems by (cases r) auto
  with Cons show ?case by simp
qed simp

text \<open>Every segment after the first opens with the pointers the earlier segments fix.\<close>

definition checkpointed :: "(nat \<times> wal_record list) list \<Rightarrow> bool" where
  "checkpointed segs \<longleftrightarrow> (\<forall>before s rs behind. segs = before @ (s, rs) # behind \<longrightarrow> before \<noteq> [] \<longrightarrow>
     (\<exists>rs'. rs = Checkpoint (ws_last_purged (replay (concat (map snd before))))
                     (ws_committed (replay (concat (map snd before)))) # rs'))"

lemma drop_prefix_agree:
  assumes chk: "checkpointed (dels @ kept)" and "kept \<noteq> []"
    and low: "\<forall>e. Entry e \<in> set (concat (map snd dels)) \<longrightarrow> entry_index e \<le> p"
  shows "agree_above p (replay (concat (map snd (dels @ kept)))) (replay (concat (map snd kept)))"
proof (cases "dels = []")
  case False
  obtain s rs behind where kept: "kept = (s, rs) # behind" using assms(2) by (cases kept) auto
  let ?A = "replay (concat (map snd dels))"
  obtain rs' where rs: "rs = Checkpoint (ws_last_purged ?A) (ws_committed ?A) # rs'"
    using chk False unfolding checkpointed_def kept by blast
  have "\<forall>k > p. fmlookup (ws_entries ?A) k = None"
    using fold_entries_bound [OF low] by (simp add: replay_def wal_state_default_def)
  then have "agree_above p (wal_state_apply ?A (hd rs)) (wal_state_apply wal_state_default (hd rs))"
    by (auto simp: agree_above_def wal_state_default_def rs)
  from agree_fold [OF this, of "rs' @ concat (map snd behind)"] show ?thesis
    by (simp add: kept rs replay_def)
qed (simp add: agree_above_def)

lemma checkpointed_drop:
  assumes chk: "checkpointed (dels @ kept)"
    and low: "\<forall>e. Entry e \<in> set (concat (map snd dels)) \<longrightarrow> entry_index e \<le> p"
  shows "checkpointed kept"
  unfolding checkpointed_def
proof (intro allI impI)
  fix before s rs behind assume kept: "kept = before @ (s, rs) # behind" and ne: "before \<noteq> []"
  have "checkpointed (dels @ before)"
    using chk unfolding checkpointed_def kept by (metis append.assoc append_Cons)
  from drop_prefix_agree [OF this ne low]
  have "ws_last_purged (replay (concat (map snd (dels @ before)))) = ws_last_purged (replay (concat (map snd before)))"
    "ws_committed (replay (concat (map snd (dels @ before)))) = ws_committed (replay (concat (map snd before)))"
    by (simp_all add: agree_above_def)
  then show "\<exists>rs'. rs = Checkpoint (ws_last_purged (replay (concat (map snd before))))
      (ws_committed (replay (concat (map snd before)))) # rs'"
    using chk ne unfolding checkpointed_def kept by (metis append.assoc append_is_Nil_conv)
qed

lemma remove_paths:
  "hm_get (foldl (\<lambda>d (_, path, m). if removable l m then hm_remove path d else d) dir cls) n
    = (if \<exists>(s, path, m) \<in> set cls. removable l m \<and> path = n then None else hm_get dir n)"
  "hm_wf dir \<Longrightarrow> hm_wf (foldl (\<lambda>d (_, path, m). if removable l m then hm_remove path d else d) dir cls)"
  by (induction cls arbitrary: dir) (auto simp: hm_get_remove hm_wf_remove split: if_splits)

lemma wal_files_gc:
  assumes files: "wal_files enc crc w (dels @ kept @ [(s, rs)])"
    and dels: "\<forall>(t, ts) \<in> set dels. removable l (foldl bump_max None ts)"
    and kept: "\<forall>(t, ts) \<in> set kept. \<not> removable l (foldl bump_max None ts)"
  defines "w' \<equiv> w\<lparr>w_dir := foldl (\<lambda>d (_, path, m). if removable l m then hm_remove path d else d) (w_dir w) (w_closed w),
    w_closed := filter (\<lambda>(_, _, m). \<not> removable l m) (w_closed w)\<rparr>"
  shows "wal_files enc crc w' (kept @ [(s, rs)])"
proof -
  note f = files [unfolded wal_files_def]
  have "\<forall>u \<in> fst ` set (dels @ kept @ [(s, rs)]). u < 2 ^ 64" using f by blast
  then have bound: "t < 2 ^ 64" if "(t, ts) \<in> set (dels @ kept @ [(s, rs)])" for t ts
    using that by (metis fst_conv image_eqI)
  have closed: "w_closed w = map closed_entry (dels @ kept)" using f by (simp add: butlast_append)
  have gone: "(\<exists>(t, path, m) \<in> set (w_closed w). removable l m \<and> path = n)
      \<longleftrightarrow> (\<exists>(t, ts) \<in> set dels. segment_path t = n)" for n
    unfolding closed using dels kept by fastforce
  have apart: "segment_path t \<noteq> segment_path u" if "(t, ts) \<in> set dels" "(u, us) \<in> set (kept @ [(s, rs)])" for t ts u us
  proof -
    have "\<forall>x \<in> set (map fst dels). \<forall>y \<in> set (map fst (kept @ [(s, rs)])). x < y"
      using f by (simp add: sorted_wrt_append)
    then have "t < u" using that by (metis fst_conv image_eqI set_map)
    with that segment_path_inj [of t u] bound show ?thesis by (metis Un_iff less_irrefl set_append)
  qed
  have get: "hm_get (w_dir w') n = (if \<exists>(t, ts) \<in> set dels. segment_path t = n then None else hm_get (w_dir w) n)" for n
    unfolding w'_def by (simp add: remove_paths(1) gone)
  have content: "hm_get (w_dir w') (segment_path u) = Some (frames enc crc us) \<and> framable enc us"
    if "(u, us) \<in> set (kept @ [(s, rs)])" for u us
  proof -
    have "\<forall>(u, us) \<in> set (dels @ kept @ [(s, rs)]).
        hm_get (w_dir w) (segment_path u) = Some (frames enc crc us) \<and> framable enc us"
      using f by blast
    then have "hm_get (w_dir w) (segment_path u) = Some (frames enc crc us) \<and> framable enc us"
      using that by force
    with apart [OF _ that] show ?thesis by (auto simp: get)
  qed
  have own: "n = segment_path u \<and> u \<in> fst ` set (kept @ [(s, rs)])"
    if n: "n \<in> fst ` set (w_dir w')" "segment_seq n = Some u" for n u
  proof -
    have some: "hm_get (w_dir w') n \<noteq> None" using n(1) by (simp add: map_of_eq_None_iff)
    then have "hm_get (w_dir w) n \<noteq> None" by (auto simp: get split: if_splits)
    then have "n \<in> fst ` set (w_dir w)" by (simp add: map_of_eq_None_iff)
    then have "n = segment_path u" "u \<in> fst ` set (dels @ kept @ [(s, rs)])" using f n(2) by blast+
    with some show ?thesis by (auto simp: get split: if_splits)
  qed
  have "filter (\<lambda>(_, _, m). \<not> removable l m) (map closed_entry dels) = []"
    "filter (\<lambda>(_, _, m). \<not> removable l m) (map closed_entry kept) = map closed_entry kept"
    using dels kept by (fastforce simp: filter_empty_conv, fastforce simp: filter_id_conv)
  then have "w_closed w' = map closed_entry kept" unfolding w'_def by (simp add: closed)
  moreover have "hm_wf (w_dir w')" using f by (simp add: w'_def remove_paths(2))
  moreover from own have "\<forall>n \<in> fst ` set (w_dir w'). \<forall>u. segment_seq n = Some u \<longrightarrow>
      n = segment_path u \<and> u \<in> fst ` set (kept @ [(s, rs)])" by blast
  moreover from content have "\<forall>(u, us) \<in> set (kept @ [(s, rs)]).
      hm_get (w_dir w') (segment_path u) = Some (frames enc crc us) \<and> framable enc us" by blast
  moreover have "sorted_wrt (<) (map fst (kept @ [(s, rs)]))" "\<forall>u \<in> fst ` set (kept @ [(s, rs)]). u < 2 ^ 64"
    using f by (simp_all add: sorted_wrt_append)
  moreover have "seg_seq w' = s" "seg_bytes w' = length (frames enc crc rs)" "seg_max_index w' = foldl bump_max None rs"
    using f by (simp_all add: w'_def)
  ultimately show ?thesis unfolding wal_files_def by (simp only: last_snoc butlast_snoc fst_conv snd_conv) simp
qed

lemma checkpointed_extend:
  assumes "checkpointed (init @ [(s, rs)])" and "rs \<noteq> [] \<or> init = []"
  shows "checkpointed (init @ [(s, rs @ more1)])"
  unfolding checkpointed_def
proof (intro allI impI)
  fix before t ts behind
  assume eq: "init @ [(s, rs @ more1)] = before @ (t, ts) # behind" and ne: "before \<noteq> []"
  show "\<exists>rs'. ts = Checkpoint (ws_last_purged (replay (concat (map snd before))))
      (ws_committed (replay (concat (map snd before)))) # rs'"
  proof (cases behind rule: rev_cases)
    case Nil
    then have "before = init" "(t, ts) = (s, rs @ more1)" using eq by auto
    moreover obtain rs' where "rs = Checkpoint (ws_last_purged (replay (concat (map snd init))))
        (ws_committed (replay (concat (map snd init)))) # rs'"
      using assms(1) ne \<open>before = init\<close> unfolding checkpointed_def by blast
    ultimately show ?thesis by simp
  next
    case (snoc behind' x)
    then have "init = before @ (t, ts) # behind'" using eq
      by (metis append.assoc append_Cons butlast_snoc)
    then have "init @ [(s, rs)] = before @ (t, ts) # (behind' @ [(s, rs)])" by simp
    then show ?thesis using assms(1) ne unfolding checkpointed_def by blast
  qed
qed


section \<open>Appends are durable\<close>

lemma append_entries_repr:
  assumes "wal_repr enc crc w segs" and "small_checkpoints enc"
    and "\<forall>e \<in> set es. length (enc (Entry e)) < 2 ^ 32" and "seg_seq w + length es < 2 ^ 64"
  shows "\<exists>w' segs'. append_entries enc crc w es = Some w' \<and> wal_repr enc crc w' segs'
    \<and> w_state w' = foldl wal_state_apply (w_state w) (map Entry es)"
  using assms
proof (induction es arbitrary: w segs)
  case (Cons e es)
  obtain init s rs where segs: "segs = init @ [(s, rs)]"
    using Cons.prems(1) by (metis append_butlast_last_id prod.collapse wal_repr_def wal_files_def)
  then have s: "seg_seq w = s" using Cons.prems(1) by (simp add: wal_repr_def wal_files_def)
  obtain w1 where w1: "log_record enc crc (Entry e) w = Some w1"
    and st: "w_state w1 = wal_state_apply (w_state w) (Entry e)"
    and repr: "wal_repr enc crc w1 (init @ [(s, rs @ [Entry e])]
      @ (if fills_segment enc w (Entry e) then [(s + 1, [pointer_checkpoint w])] else []))"
    using log_record_repr [of enc crc w init s rs "Entry e"] Cons.prems segs s by auto
  then have "seg_seq w1 \<le> s + 1" by (auto simp: wal_repr_def wal_files_def split: if_splits)
  with Cons.IH [OF repr] Cons.prems s st w1 show ?case by auto
qed auto

text \<open>
  C13: Appending entries is durable: it returns, its effect on the log is that of inserting
  the entries one by one, and the directory it leaves, rotations included, reopens to
  exactly the log in memory.
\<close>

theorem append_entries_durable:
  assumes "wal_repr enc crc w segs" and "small_checkpoints enc"
    and "\<forall>e \<in> set es. length (enc (Entry e)) < 2 ^ 32" and "seg_seq w + length es < 2 ^ 64"
  shows "\<exists>w' segs'. append_entries enc crc w es = Some w' \<and> wal_repr enc crc w' segs'
    \<and> w_state w' = foldl wal_state_apply (w_state w) (map Entry es)
    \<and> (\<forall>dec. codec_ok enc dec (concat (map snd segs')) \<longrightarrow> wal_open dec crc (w_dir w') = Some w')"
  using append_entries_repr [OF assms] wal_open_repr by blast

section \<open>The vote file is replaced atomically\<close>

text \<open>
  C38: Whatever directory a crash during a vote write leaves behind, the vote read back is
  the previous vote or the new one, never a torn one; once the write returns it is the new
  one.
\<close>

theorem save_vote_atomic:
  assumes "decv (encv v) = Some v"
  shows "(\<forall>d \<in> set (save_vote_dirs encv dir v). read_vote decv d = read_vote decv dir \<or> read_vote decv d = Some v)
    \<and> read_vote decv (save_vote encv dir v) = Some v"
  using assms
  by (auto simp: save_vote_dirs_def save_vote_def read_vote_def hm_get_insert hm_get_remove
      vote_path_def vote_tmp_def)

section \<open>The durable store refines the in-memory one\<close>

lemma wal_append_state: "wal_append enc crc r w = Some w' \<Longrightarrow> w_state w' = w_state w"
proof (rule wal_append.raw_induct [of "\<lambda>_ _ _ w w'. w_state w' = w_state w"])
  fix app enc crc r and w w' :: wal
  assume "\<And>enc crc r w w'. app enc crc r w = Some w' \<Longrightarrow> w_state w' = w_state w"
    and "(let w1 = write_record enc crc r w
      in if SEGMENT_MAX_BYTES \<le> seg_bytes w1
         then app enc crc (Checkpoint (ws_last_purged (w_state w1)) (ws_committed (w_state w1))) (next_segment w1)
         else Some w1) = Some w'"
  then show "w_state w' = w_state w" by (fastforce simp: Let_def split: if_splits)
qed

lemma log_record_state: "log_record enc crc r w = Some w' \<Longrightarrow> w_state w' = wal_state_apply (w_state w) r"
  by (auto simp: log_record_def fold_record_def dest: wal_append_state)

lemma append_entries_state:
  "append_entries enc crc w es = Some w' \<Longrightarrow> w_state w' = foldl wal_state_apply (w_state w) (map Entry es)"
  by (induction es arbitrary: w) (auto simp: bind_eq_Some_conv dest: log_record_state)

definition wls_abs :: "wal_log_store \<Rightarrow> log_inner" where
  "wls_abs s = \<lparr>log = ws_entries (w_state (wls_wal s)), last_purged = ws_last_purged (w_state (wls_wal s)),
     committed = ws_committed (w_state (wls_wal s)), vote = wls_vote s\<rparr>"

lemma fold_entries_state:
  "foldl wal_state_apply st (map Entry es) = st\<lparr>ws_entries := foldl (\<lambda>m e. fmupd (entry_index e) e m) (ws_entries st) es\<rparr>"
  by (induction es arbitrary: st) auto

lemma wls_abs_ops:
  "wls_append enc crc s es = Some s' \<Longrightarrow> wls_abs s' = mem_append (wls_abs s) es"
  "wls_truncate enc crc s l = Some s' \<Longrightarrow> wls_abs s' = mem_truncate (wls_abs s) l"
  "wls_purge enc crc s l = Some s' \<Longrightarrow> wls_abs s' = mem_purge (wls_abs s) l"
  "wls_save_committed enc crc s c = Some s' \<Longrightarrow> wls_abs s' = mem_save_committed (wls_abs s) c"
  "wls_abs (wls_save_vote encv s v) = mem_save_vote (wls_abs s) v"
  "wls_get_log_state s = mem_get_log_state (wls_abs s)"
  "wls_try_get_log_entries s lo hi = mem_try_get_log_entries (wls_abs s) lo hi"
  by (auto simp: wls_append_def wls_truncate_def wls_purge_def wls_save_committed_def wls_save_vote_def
      wls_get_log_state_def wls_try_get_log_entries_def mem_append_def mem_truncate_def mem_purge_def
      mem_save_committed_def mem_save_vote_def mem_get_log_state_def mem_try_get_log_entries_def
      wls_abs_def wal_purge_def truncate_from_def wal_save_committed_def Let_def fold_entries_state
      split: option.split cong del: fmfilter_cong dest!: append_entries_state log_record_state)

interpretation wls: raft_log_storage "\<lambda>s. mem_ok (wls_abs s)" "\<lambda>s. fmlookup (log (wls_abs s))"
  "\<lambda>s. last_purged (wls_abs s)" wls_get_log_state "wls_append enc crc" "wls_truncate enc crc" "wls_purge enc crc"
  for enc crc
proof unfold_locales
  fix s s' :: wal_log_store and es l
  assume ok: "mem_ok (wls_abs s)"
  show "wls_append enc crc s es = Some s' \<Longrightarrow> mem_ok (wls_abs s')"
    using mem.append_ok [OF ok refl] by (simp only: wls_abs_ops)
  show "wls_truncate enc crc s l = Some s' \<Longrightarrow> mem_ok (wls_abs s')"
    using mem.truncate_ok [OF ok refl] by (simp only: wls_abs_ops)
  show "wls_purge enc crc s l = Some s' \<Longrightarrow> mem_ok (wls_abs s')"
    using mem.purge_ok [OF ok refl] by (simp only: wls_abs_ops)
  show "wls_append enc crc s es = Some s' \<Longrightarrow> last_purged (wls_abs s') = last_purged (wls_abs s)"
    using mem.append_purged [OF ok refl] by (simp only: wls_abs_ops)
  show "wls_append enc crc s es = Some s' \<Longrightarrow> fmlookup (log (wls_abs s'))
      = fmlookup (log (wls_abs s)) ++ map_of (rev (map (\<lambda>e. (entry_index e, e)) es))"
    using mem.append_at [OF ok refl] by (simp only: wls_abs_ops)
  show "wls_truncate enc crc s l = Some s' \<Longrightarrow> fmlookup (log (wls_abs s')) = fmlookup (log (wls_abs s)) |` {..<li_index l}"
    using mem.truncate_at [OF ok refl] by (simp only: wls_abs_ops)
  show "wls_truncate enc crc s l = Some s' \<Longrightarrow> last_purged (wls_abs s') = last_purged (wls_abs s)"
    using mem.truncate_purged [OF ok refl] by (simp only: wls_abs_ops)
  show "wls_purge enc crc s l = Some s' \<Longrightarrow> fmlookup (log (wls_abs s')) = fmlookup (log (wls_abs s)) |` {li_index l<..}"
    using mem.purge_at [OF ok refl] by (simp only: wls_abs_ops)
  show "wls_purge enc crc s l = Some s' \<Longrightarrow> last_purged (wls_abs s') = Some l"
    using mem.purge_purged [OF ok refl] by (simp only: wls_abs_ops)
  show "last_purged_log_id (wls_get_log_state s) = last_purged (wls_abs s)"
    using mem.state_purged [OF ok] by (simp only: wls_abs_ops)
  show "last_log_id (wls_get_log_state s) =
    (if dom (fmlookup (log (wls_abs s))) = {} then last_purged (wls_abs s)
     else map_option entry_id (fmlookup (log (wls_abs s)) (Max (dom (fmlookup (log (wls_abs s)))))))"
    using mem.state_last [OF ok] by (simp only: wls_abs_ops)
qed simp_all


text \<open>
  Conflict resolution on the durable store: cutting the suffix from an index and
  appending a run of entries from that index leaves the old log below it and the run above.
\<close>

theorem wal_replace_suffix:
  assumes "mem_ok (wls_abs s)" and "wls_truncate enc crc s l = Some s1"
    and "wls_append enc crc s1 es = Some s2"
    and "map entry_index es = [li_index l..<li_index l + length es]"
  shows "fmlookup (log (wls_abs s2)) i = (if i < li_index l then fmlookup (log (wls_abs s)) i
    else if i < li_index l + length es then Some (es ! (i - li_index l)) else None)"
  using assms by (rule wls.replace_suffix)

end
