(* ===== verification/S3_Tier.thy ===== *)
theory S3_Tier
  imports Wal
begin

text \<open>
  The object-store tier of snapshots (\<open>crates/consensus/src/s3.rs\<close>). The object store is a
  parameter: its objects by key, whether it takes an upload, and its answers to a listing and
  to a fetch. What its documentation promises of them is the predicate \<open>pages_of_1000\<close>: a
  listing is one page of at most a thousand keys, in ascending order of their bytes.
\<close>

section \<open>The tier\<close>

record s3_tier =
  tier_prefix :: string
  tier_objects :: wal_dir
  tier_accepts :: "string \<Rightarrow> bool"

record s3_service =
  list_objects :: "string \<Rightarrow> wal_dir \<Rightarrow> string list option"
  get_object :: "string \<Rightarrow> wal_dir \<Rightarrow> u8 list option"

definition snapshot_s3_from_env :: "(string \<Rightarrow> string option) \<Rightarrow> (string \<times> string) option" where
  "snapshot_s3_from_env var =
     map_option (\<lambda>bucket. (bucket, case var ''AETHER_S3_PREFIX'' of Some p \<Rightarrow> p | None \<Rightarrow> ''snapshots''))
       (var ''AETHER_S3_BUCKET'')"

definition snapshot_key :: "s3_tier \<Rightarrow> string \<Rightarrow> string" where
  "snapshot_key t name = tier_prefix t @ ''/'' @ name"

definition upload_snapshot :: "s3_tier \<Rightarrow> string \<Rightarrow> u8 list \<Rightarrow> s3_tier" where
  "upload_snapshot t name bytes =
     (if tier_accepts t (snapshot_key t name) then t\<lparr>tier_objects := hm_insert (snapshot_key t name) bytes (tier_objects t)\<rparr> else t)"

definition s3_latest :: "s3_service \<Rightarrow> s3_tier \<Rightarrow> u8 list option" where
  "s3_latest svc t =
     (case list_objects svc (tier_prefix t @ ''/'') (tier_objects t) of
        None \<Rightarrow> None
      | Some keys \<Rightarrow> (if keys = [] then None else get_object svc (Max (set keys)) (tier_objects t)))"

section \<open>What the object store promises\<close>

definition keys_under :: "string \<Rightarrow> wal_dir \<Rightarrow> string list" where
  "keys_under p objs = sort (filter (\<lambda>k. take (length p) k = p) (hm_keys objs))"

definition pages_of_1000 :: "s3_service \<Rightarrow> bool" where
  "pages_of_1000 svc \<longleftrightarrow>
     (\<forall>p objs. list_objects svc p objs = Some (take 1000 (keys_under p objs)))
     \<and> (\<forall>k objs. get_object svc k objs = hm_get objs k)"

end
