(* ===== verification/Raft_Sm.thy ===== *)
theory Raft_Sm
  imports S3_Tier
begin

text \<open>
  The generic replicated state machine (\<open>crates/consensus/src/storage.rs\<close>): applying
  committed entries, building, persisting, loading and installing snapshots, with the
  application's \<open>apply\<close>, \<open>snapshot_bytes\<close> and \<open>restore\<close> as arguments (the trait
  \<open>StateMachineApp\<close> of \<open>lib.rs\<close>). The snapshot directory is a map from names to bytes; the
  codec of a snapshot file (bincode) is a parameter, and so is the object store behind the
  tier of \<open>S3_Tier\<close>. The
  promise an application makes is the locale \<open>state_machine_app\<close>.
\<close>

section \<open>State\<close>

type_synonym stored_membership = "log_id option \<times> membership"

record snapshot_meta =
  meta_last_log_id :: "log_id option"
  meta_membership :: stored_membership
  snapshot_id :: string

record stored_snapshot =
  snap_meta :: snapshot_meta
  snap_data :: "u8 list"

record 'a sm_store =
  sm_app :: 'a
  sm_last_applied :: "log_id option"
  sm_membership :: stored_membership
  snapshot_seq :: nat
  sm_snapshot :: "stored_snapshot option"
  snap_dir :: "wal_dir option"
  sm_s3 :: "s3_tier option"

definition empty_membership :: stored_membership where
  "empty_membership = (None, \<lparr>joint_config = [], node_addrs = []\<rparr>)"

definition sm_new :: "'a \<Rightarrow> 'a sm_store" where
  "sm_new app = \<lparr>sm_app = app, sm_last_applied = None, sm_membership = empty_membership,
     snapshot_seq = 0, sm_snapshot = None, snap_dir = None, sm_s3 = None\<rparr>"

section \<open>Snapshot files\<close>

definition snapshot_path :: "nat \<Rightarrow> string" where
  "snapshot_path index1 = ''snap-'' @ pad_left 20 (show_nat index1) @ ''.bin''"

definition snapshot_tmp :: "nat \<Rightarrow> string" where
  "snapshot_tmp index1 = ''snap-'' @ pad_left 20 (show_nat index1) @ ''.tmp''"

definition snapshot_index :: "string \<Rightarrow> nat option" where
  "snapshot_index name =
     Option.bind (strip_prefix ''snap-'' name)
       (\<lambda>s. Option.bind (strip_suffix ''.bin'' s) (parse_unsigned 64))"

definition is_snapshot_name :: "string \<Rightarrow> bool" where
  "is_snapshot_name name \<longleftrightarrow> strip_prefix ''snap-'' name \<noteq> None \<and> strip_suffix ''.bin'' name \<noteq> None"

definition meta_index :: "snapshot_meta \<Rightarrow> nat" where
  "meta_index meta = (case meta_last_log_id meta of Some l \<Rightarrow> li_index l | None \<Rightarrow> 0)"

text \<open>
  A persist as the directories a crash can leave: the temporary file partly written, the
  rename done, and the superseded snapshots removed one after another.
\<close>

definition persist_dirs ::
  "(stored_snapshot \<Rightarrow> u8 list) \<Rightarrow> wal_dir \<Rightarrow> snapshot_meta \<Rightarrow> u8 list \<Rightarrow> wal_dir list" where
  "persist_dirs enc dir meta data =
     (let path = snapshot_path (meta_index meta);
          tmp = snapshot_tmp (meta_index meta);
          bytes = enc \<lparr>snap_meta = meta, snap_data = data\<rparr>;
          renamed = hm_insert path bytes (hm_remove tmp dir);
          old = filter (\<lambda>n. is_snapshot_name n \<and> n \<noteq> path) (hm_keys renamed)
      in dir # map (\<lambda>k. hm_insert tmp (take k bytes) dir) [0..<Suc (length bytes)]
         @ map (\<lambda>k. foldl (\<lambda>d n. hm_remove n d) renamed (take k old)) [0..<Suc (length old)])"

definition persist ::
  "(stored_snapshot \<Rightarrow> u8 list) \<Rightarrow> 'a sm_store \<Rightarrow> snapshot_meta \<Rightarrow> u8 list \<Rightarrow> 'a sm_store" where
  "persist enc sm meta data =
     (case snap_dir sm of
        None \<Rightarrow> sm
      | Some dir \<Rightarrow> sm\<lparr>snap_dir := Some (last (persist_dirs enc dir meta data))\<rparr>)"

definition newer :: "(nat \<times> string) option \<Rightarrow> string \<Rightarrow> (nat \<times> string) option" where
  "newer best name =
     (case snapshot_index name of
        None \<Rightarrow> best
      | Some idx \<Rightarrow>
          (case best of
             None \<Rightarrow> Some (idx, name)
           | Some (n, p) \<Rightarrow> if idx > n then Some (idx, name) else best))"

definition load_latest :: "(u8 list \<Rightarrow> stored_snapshot option) \<Rightarrow> wal_dir \<Rightarrow> stored_snapshot option" where
  "load_latest dec dir =
     (case foldl newer None (hm_keys dir) of
        None \<Rightarrow> None
      | Some (_, path) \<Rightarrow> dec (the (hm_get dir path)))"

section \<open>The state machine\<close>

definition adopt_snapshot ::
  "('a \<Rightarrow> u8 list \<Rightarrow> 'a \<times> u32) \<Rightarrow> 'a sm_store \<Rightarrow> stored_snapshot \<Rightarrow> 'a sm_store" where
  "adopt_snapshot restore sm snap =
     sm\<lparr>sm_app := fst (restore (sm_app sm) (snap_data snap)),
        sm_last_applied := meta_last_log_id (snap_meta snap),
        sm_membership := meta_membership (snap_meta snap), sm_snapshot := Some snap\<rparr>"

definition with_snapshot_dir ::
  "(u8 list \<Rightarrow> stored_snapshot option) \<Rightarrow> ('a \<Rightarrow> u8 list \<Rightarrow> 'a \<times> u32) \<Rightarrow> 'a \<Rightarrow> wal_dir \<Rightarrow> 'a sm_store" where
  "with_snapshot_dir dec restore app dir =
     (let sm = (sm_new app)\<lparr>snap_dir := Some dir\<rparr>
      in case load_latest dec dir of
           None \<Rightarrow> sm
         | Some snap \<Rightarrow> adopt_snapshot restore sm snap)"

definition open_durable ::
  "(stored_snapshot \<Rightarrow> u8 list) \<Rightarrow> (u8 list \<Rightarrow> stored_snapshot option) \<Rightarrow> s3_service \<Rightarrow>
    ('a \<Rightarrow> u8 list \<Rightarrow> 'a \<times> u32) \<Rightarrow> 'a \<Rightarrow> wal_dir \<Rightarrow> s3_tier option \<Rightarrow> 'a sm_store" where
  "open_durable enc dec svc restore app dir s3 =
     (let sm = (with_snapshot_dir dec restore app dir)\<lparr>sm_s3 := s3\<rparr>
      in if sm_snapshot sm \<noteq> None then sm
         else case Option.bind s3 (s3_latest svc) of
           None \<Rightarrow> sm
         | Some bytes \<Rightarrow>
             (case dec bytes of
                None \<Rightarrow> sm
              | Some snap \<Rightarrow> persist enc (adopt_snapshot restore sm snap) (snap_meta snap) (snap_data snap)))"

definition build_snapshot ::
  "(stored_snapshot \<Rightarrow> u8 list) \<Rightarrow> ('a \<Rightarrow> u8 list) \<Rightarrow> 'a sm_store \<Rightarrow> 'a sm_store \<times> stored_snapshot" where
  "build_snapshot enc snapshot_bytes sm =
     (let data = snapshot_bytes (sm_app sm);
          seq = snapshot_seq sm + 1;
          meta = \<lparr>meta_last_log_id = sm_last_applied sm, meta_membership = sm_membership sm,
                  snapshot_id = ''snap-'' @ show_nat seq\<rparr>;
          snap = \<lparr>snap_meta = meta, snap_data = data\<rparr>;
          sm1 = persist enc (sm\<lparr>snapshot_seq := seq, sm_snapshot := Some snap\<rparr>) meta data;
          sm2 = (case sm_s3 sm1 of
                   None \<Rightarrow> sm1
                 | Some t \<Rightarrow> sm1\<lparr>sm_s3 := Some (upload_snapshot t (snapshot_path (meta_index meta)) (enc snap))\<rparr>)
      in (sm2, snap))"

definition apply_entry ::
  "('a \<Rightarrow> u8 list \<Rightarrow> 'a \<times> u32) \<Rightarrow> 'a sm_store \<Rightarrow> entry \<Rightarrow> 'a sm_store \<times> u32" where
  "apply_entry apply1 sm e =
     (let (sm1, reply) =
        (case entry_payload e of
           Blank \<Rightarrow> (sm, 0)
         | Normal payload \<Rightarrow> (let (app, n) = apply1 (sm_app sm) payload in (sm\<lparr>sm_app := app\<rparr>, n))
         | Membership m \<Rightarrow> (sm\<lparr>sm_membership := (Some (entry_id e), m)\<rparr>, 0))
      in (sm1\<lparr>sm_last_applied := Some (entry_id e)\<rparr>, reply))"

fun sm_apply ::
  "('a \<Rightarrow> u8 list \<Rightarrow> 'a \<times> u32) \<Rightarrow> 'a sm_store \<Rightarrow> entry list \<Rightarrow> 'a sm_store \<times> u32 list" where
  "sm_apply apply1 sm [] = (sm, [])"
| "sm_apply apply1 sm (e # es) =
     (let (sm1, r) = apply_entry apply1 sm e; (sm2, rs) = sm_apply apply1 sm1 es in (sm2, r # rs))"

definition install_snapshot ::
  "(stored_snapshot \<Rightarrow> u8 list) \<Rightarrow> ('a \<Rightarrow> u8 list \<Rightarrow> 'a \<times> u32) \<Rightarrow> 'a sm_store \<Rightarrow> stored_snapshot \<Rightarrow> 'a sm_store" where
  "install_snapshot enc restore sm snap =
     persist enc (adopt_snapshot restore sm snap) (snap_meta snap) (snap_data snap)"

section \<open>Snapshot names\<close>

lemma strip_prefix_iff: "strip_prefix p s = Some t \<longleftrightarrow> s = p @ t"
  unfolding strip_prefix_def by (metis append_eq_conv_conj option.distinct(1) option.inject)

lemma strip_suffix_iff: "strip_suffix p s = Some t \<longleftrightarrow> s = t @ p"
  by (auto simp: strip_suffix_def strip_prefix_iff) (metis rev_append rev_rev_ident)

lemma strip_suffix_append: "strip_suffix p (s @ p) = Some s"
  by (simp add: strip_suffix_iff)

lemma snapshot_index_path: "i < 2 ^ 64 \<Longrightarrow> snapshot_index (snapshot_path i) = Some i"
proof -
  assume lt: "i < 2 ^ 64"
  let ?ds = "pad_left 20 (show_nat i)"
  have "strip_prefix ''snap-'' (snapshot_path i) = Some (?ds @ ''.bin'')"
    by (simp add: snapshot_path_def strip_prefix_def)
  moreover have "parse_unsigned 64 ?ds = Some i" by (rule parse_pad_left [OF lt])
  ultimately show ?thesis using strip_suffix_append [of "''.bin''" ?ds] by (simp add: snapshot_index_def)
qed

lemma snapshot_index_tmp: "snapshot_index (snapshot_tmp i) = None"
proof -
  have "strip_prefix ''snap-'' (snapshot_tmp i) = Some (pad_left 20 (show_nat i) @ ''.tmp'')"
    by (simp add: snapshot_tmp_def strip_prefix_def)
  moreover have "strip_suffix ''.bin'' (s @ ''.tmp'') = None" for s
    by (simp add: strip_suffix_def strip_prefix_def)
  ultimately show ?thesis by (simp add: snapshot_index_def)
qed

lemma snapshot_index_name: "snapshot_index n = Some i \<Longrightarrow> is_snapshot_name n"
proof -
  assume "snapshot_index n = Some i"
  then obtain s where "n = ''snap-'' @ s @ ''.bin''"
    unfolding snapshot_index_def bind_eq_Some_conv strip_prefix_iff strip_suffix_iff by blast
  then have "strip_prefix ''snap-'' n = Some (s @ ''.bin'')" "strip_suffix ''.bin'' n = Some (''snap-'' @ s)"
    unfolding strip_prefix_iff strip_suffix_iff by simp_all
  then show ?thesis by (simp add: is_snapshot_name_def)
qed

section \<open>The newest snapshot\<close>

lemma newest_mem:
  "foldl newer best names = Some (n, p) \<Longrightarrow> best = Some (n, p) \<or> p \<in> set names \<and> snapshot_index p = Some n"
proof (induction names arbitrary: best)
  case (Cons x names)
  then have "newer best x = Some (n, p) \<or> p \<in> set names \<and> snapshot_index p = Some n" by simp
  then show ?case by (auto simp: newer_def split: option.splits if_splits)
qed simp

lemma newest_None: "foldl newer best names = None \<longleftrightarrow> best = None \<and> (\<forall>x \<in> set names. snapshot_index x = None)"
proof (induction names arbitrary: best)
  case (Cons x names)
  have "newer best x = None \<longleftrightarrow> best = None \<and> snapshot_index x = None"
    by (auto simp: newer_def split: option.splits)
  with Cons show ?case by auto
qed simp

text \<open>In a directory whose snapshots all have one of two names, one of the two is loaded.\<close>

lemma load_latest_cases:
  assumes "\<forall>n \<in> fst ` set dir. snapshot_index n \<noteq> None \<longrightarrow> n \<in> P"
  shows "load_latest dec dir = None \<and> (\<forall>n \<in> fst ` set dir. snapshot_index n = None)
    \<or> (\<exists>p \<in> P. \<exists>bytes. hm_get dir p = Some bytes \<and> snapshot_index p \<noteq> None \<and> load_latest dec dir = dec bytes)"
proof (cases "foldl newer None (hm_keys dir)")
  case None
  then have "\<forall>n \<in> fst ` set dir. snapshot_index n = None" by (simp add: newest_None)
  moreover have "load_latest dec dir = None" using None by (simp add: load_latest_def)
  ultimately show ?thesis by blast
next
  case (Some r)
  obtain n p where r: "r = (n, p)" by fastforce
  then have p: "p \<in> fst ` set dir" "snapshot_index p = Some n"
    using newest_mem [of None "hm_keys dir" n p] Some by auto
  then obtain bytes where "hm_get dir p = Some bytes" by (metis map_of_eq_None_iff not_Some_eq)
  with Some r p assms show ?thesis by (auto simp: load_latest_def)
qed

lemma load_latest_single:
  assumes "hm_get dir p = Some bytes" and "snapshot_index p \<noteq> None"
    and "\<forall>n \<in> fst ` set dir. snapshot_index n \<noteq> None \<longrightarrow> n = p"
  shows "load_latest dec dir = dec bytes"
proof -
  have "p \<in> fst ` set dir" using assms(1) by (metis map_of_eq_None_iff option.distinct(1))
  then have "\<not> (\<forall>n \<in> fst ` set dir. snapshot_index n = None)" using assms(2) by metis
  moreover have "\<forall>n \<in> fst ` set dir. snapshot_index n \<noteq> None \<longrightarrow> n \<in> {p}" using assms(3) by blast
  ultimately obtain bytes' where "hm_get dir p = Some bytes'" "load_latest dec dir = dec bytes'"
    using load_latest_cases [of dir "{p}" dec] by (metis singletonD)
  with assms(1) show ?thesis by simp
qed

lemma remove_names:
  "hm_get (foldl (\<lambda>d n. hm_remove n d) dir ns) x = (if x \<in> set ns then None else hm_get dir x)"
  "fst ` set (foldl (\<lambda>d n. hm_remove n d) dir ns) = fst ` set dir - set ns"
  by (induction ns arbitrary: dir) (auto simp: hashmap_simps)

lemma persist_last:
  fixes enc dir data
  assumes "meta_index meta < 2 ^ 64"
  defines "dir' \<equiv> last (persist_dirs enc dir meta data)"
  shows "hm_get dir' (snapshot_path (meta_index meta)) = Some (enc \<lparr>snap_meta = meta, snap_data = data\<rparr>)"
    and "\<forall>n \<in> fst ` set dir'. snapshot_index n \<noteq> None \<longrightarrow> n = snapshot_path (meta_index meta)"
proof -
  let ?path = "snapshot_path (meta_index meta)"
  let ?renamed = "hm_insert ?path (enc \<lparr>snap_meta = meta, snap_data = data\<rparr>) (hm_remove (snapshot_tmp (meta_index meta)) dir)"
  have dir': "dir' = foldl (\<lambda>d n. hm_remove n d) ?renamed (filter (\<lambda>n. is_snapshot_name n \<and> n \<noteq> ?path) (hm_keys ?renamed))"
    by (simp add: dir'_def persist_dirs_def Let_def)
  show "hm_get dir' ?path = Some (enc \<lparr>snap_meta = meta, snap_data = data\<rparr>)"
    by (simp add: dir' remove_names(1) hm_get_insert)
  show "\<forall>n \<in> fst ` set dir'. snapshot_index n \<noteq> None \<longrightarrow> n = ?path"
    unfolding dir' remove_names(2) using snapshot_index_name by auto
qed

text \<open>
  A directory whose snapshot files are those of a directory with at most one, or the new one,
  loads what that directory loaded or the new snapshot.
\<close>
lemma load_latest_either:
  assumes codec: "dec new = Some snap"
    and one: "\<forall>n \<in> fst ` set dir. is_snapshot_name n \<longrightarrow> n = old"
    and keys: "\<And>n. n \<in> fst ` set d \<Longrightarrow> snapshot_index n \<noteq> None \<Longrightarrow> n \<noteq> path \<Longrightarrow> hm_get d n = hm_get dir n"
    and new: "hm_get d path = Some new \<or> hm_get d path = hm_get dir path"
    and some: "(\<exists>n \<in> fst ` set dir. snapshot_index n \<noteq> None) \<Longrightarrow> \<exists>n \<in> fst ` set d. snapshot_index n \<noteq> None"
  shows "load_latest dec d = load_latest dec dir \<or> load_latest dec d = Some snap"
proof (cases "load_latest dec d = None \<and> (\<forall>n \<in> fst ` set d. snapshot_index n = None)")
  case True
  then have "\<forall>n \<in> fst ` set dir. snapshot_index n = None" using some by metis
  then have "load_latest dec dir = None" using load_latest_cases [of dir "{}" dec] by (metis empty_iff)
  with True show ?thesis by simp
next
  case False
  then obtain p bytes where p: "hm_get d p = Some bytes" "snapshot_index p \<noteq> None" "load_latest dec d = dec bytes"
    using load_latest_cases [of d UNIV dec] by auto
  then have "p \<in> fst ` set d" by (metis map_of_eq_None_iff option.distinct(1))
  with p keys new consider "hm_get dir p = Some bytes" | "bytes = new" by (cases "p = path") auto
  then show ?thesis
  proof cases
    case 1
    then have "p \<in> fst ` set dir" by (metis map_of_eq_None_iff option.distinct(1))
    with p(2) one snapshot_index_name
    have "\<forall>n \<in> fst ` set dir. snapshot_index n \<noteq> None \<longrightarrow> n = p" by blast
    with load_latest_single [OF 1 p(2)] p(3) show ?thesis by simp
  qed (simp add: p(3) codec)
qed

text \<open>The directories persisting goes through: unchanged, with a partial temporary file, or
  renamed and with some of the superseded snapshots removed.\<close>
lemma persist_dirs_cases:
  assumes "d \<in> set (persist_dirs enc dir meta data)"
  obtains "d = dir"
    | k where "d = hm_insert (snapshot_tmp (meta_index meta)) (take k (enc \<lparr>snap_meta = meta, snap_data = data\<rparr>)) dir"
    | gone where "d = foldl (\<lambda>d n. hm_remove n d) (hm_insert (snapshot_path (meta_index meta))
          (enc \<lparr>snap_meta = meta, snap_data = data\<rparr>) (hm_remove (snapshot_tmp (meta_index meta)) dir)) gone"
        and "snapshot_path (meta_index meta) \<notin> set gone"
proof -
  let ?path = "snapshot_path (meta_index meta)" and ?new = "enc \<lparr>snap_meta = meta, snap_data = data\<rparr>"
  let ?renamed = "hm_insert ?path ?new (hm_remove (snapshot_tmp (meta_index meta)) dir)"
  let ?others = "filter (\<lambda>n. is_snapshot_name n \<and> n \<noteq> ?path) (hm_keys ?renamed)"
  consider "d = dir" | k where "d = hm_insert (snapshot_tmp (meta_index meta)) (take k ?new) dir"
    | k where "d = foldl (\<lambda>d n. hm_remove n d) ?renamed (take k ?others)"
    using assms unfolding persist_dirs_def Let_def by (auto simp del: upt_Suc)
  then show thesis
  proof cases
    case (3 k)
    have "?path \<notin> set (take k ?others)" by (auto dest: in_set_takeD)
    with 3 show thesis by (rule that(3))
  qed (rule that; assumption)+
qed


section \<open>What an application promises\<close>

text \<open>
  \<open>eqv\<close> relates states with the same replicated content: applying a payload depends on
  nothing else, and restoring a snapshot into any state gives the content it was taken of.
\<close>

locale state_machine_app =
  fixes ok :: "'s \<Rightarrow> bool" and eqv :: "'s \<Rightarrow> 's \<Rightarrow> bool"
    and apply1 :: "'s \<Rightarrow> u8 list \<Rightarrow> 's \<times> u32"
    and snapshot_bytes :: "'s \<Rightarrow> u8 list" and restore :: "'s \<Rightarrow> u8 list \<Rightarrow> 's \<times> u32"
  assumes eqv_refl: "ok s \<Longrightarrow> eqv s s"
    and apply_ok: "ok s \<Longrightarrow> ok (fst (apply1 s p))"
    and apply_eqv: "ok s \<Longrightarrow> ok t \<Longrightarrow> eqv s t \<Longrightarrow> eqv (fst (apply1 s p)) (fst (apply1 t p))"
    and apply_reply: "ok s \<Longrightarrow> ok t \<Longrightarrow> eqv s t \<Longrightarrow> snd (apply1 s p) = snd (apply1 t p)"
    and restore_ok: "ok s \<Longrightarrow> ok t \<Longrightarrow> ok (fst (restore t (snapshot_bytes s)))"
    and restore_eqv: "ok s \<Longrightarrow> ok t \<Longrightarrow> eqv (fst (restore t (snapshot_bytes s))) s"
begin

definition sm_eqv :: "'s sm_store \<Rightarrow> 's sm_store \<Rightarrow> bool" where
  "sm_eqv a b \<longleftrightarrow> ok (sm_app a) \<and> ok (sm_app b) \<and> eqv (sm_app a) (sm_app b)
     \<and> sm_last_applied a = sm_last_applied b \<and> sm_membership a = sm_membership b"

lemma apply_entry_eqv:
  assumes "sm_eqv a b"
  shows "sm_eqv (fst (apply_entry apply1 a e)) (fst (apply_entry apply1 b e))
    \<and> snd (apply_entry apply1 a e) = snd (apply_entry apply1 b e)"
proof (cases "entry_payload e")
  case (Normal p)
  obtain x m where a: "apply1 (sm_app a) p = (x, m)" by fastforce
  obtain y n where b: "apply1 (sm_app b) p = (y, n)" by fastforce
  have ok: "ok (sm_app a)" "ok (sm_app b)" "eqv (sm_app a) (sm_app b)" using assms by (simp_all add: sm_eqv_def)
  have "ok x" "ok y" "eqv x y" "m = n"
    using apply_ok [OF ok(1), of p] apply_ok [OF ok(2), of p] apply_eqv [OF ok, of p] apply_reply [OF ok, of p] a b
    by simp_all
  with assms Normal a b show ?thesis by (simp add: apply_entry_def sm_eqv_def)
qed (use assms in \<open>simp_all add: apply_entry_def sm_eqv_def\<close>)

text \<open>Replicas that agree keep agreeing, and reply alike, on the same entries.\<close>

lemma sm_apply_eqv:
  "sm_eqv a b \<Longrightarrow> sm_eqv (fst (sm_apply apply1 a es)) (fst (sm_apply apply1 b es))
    \<and> snd (sm_apply apply1 a es) = snd (sm_apply apply1 b es)"
proof (induction es arbitrary: a b)
  case (Cons e es)
  from apply_entry_eqv [OF Cons.prems, of e]
  show ?case using Cons.IH [of "fst (apply_entry apply1 a e)" "fst (apply_entry apply1 b e)"]
    by (simp add: split_beta)
qed simp

text \<open>A replica that installs the snapshot another one built agrees with it.\<close>

lemma install_eqv:
  assumes "ok (sm_app leader)" and "ok (sm_app follower)"
  shows "sm_eqv (install_snapshot enc restore follower (snd (build_snapshot enc snapshot_bytes leader))) leader"
proof -
  have app: "sm_app (persist enc sm meta data) = sm_app sm"
    "sm_last_applied (persist enc sm meta data) = sm_last_applied sm"
    "sm_membership (persist enc sm meta data) = sm_membership sm" for sm :: "'s sm_store" and meta data
    by (simp_all add: persist_def split: option.split)
  show ?thesis
    using assms restore_ok [OF assms] restore_eqv [OF assms]
    by (simp add: sm_eqv_def install_snapshot_def adopt_snapshot_def build_snapshot_def Let_def app)
qed

text \<open>So installing a snapshot and replaying the tail is replaying the whole log.\<close>

lemma snapshot_then_tail:
  assumes "ok (sm_app leader)" and "ok (sm_app follower)"
  shows "sm_eqv (fst (sm_apply apply1 (install_snapshot enc restore follower
      (snd (build_snapshot enc snapshot_bytes leader))) tail)) (fst (sm_apply apply1 leader tail))"
  using sm_apply_eqv [OF install_eqv [OF assms]] by blast

text \<open>A restart from the snapshot directory resumes from the built snapshot.\<close>

lemma restart_eqv:
  assumes "ok (sm_app sm)" and "ok fresh" and dir: "snap_dir sm = Some d"
    and codec: "dec (enc (snd (build_snapshot enc snapshot_bytes sm))) = Some (snd (build_snapshot enc snapshot_bytes sm))"
    and idx: "\<forall>l. sm_last_applied sm = Some l \<longrightarrow> li_index l < 2 ^ 64"
  shows "sm_eqv (with_snapshot_dir dec restore fresh
      (the (snap_dir (fst (build_snapshot enc snapshot_bytes sm))))) sm"
proof -
  let ?meta = "\<lparr>meta_last_log_id = sm_last_applied sm, meta_membership = sm_membership sm,
    snapshot_id = ''snap-'' @ show_nat (snapshot_seq sm + 1)\<rparr>"
  let ?data = "snapshot_bytes (sm_app sm)"
  have i: "meta_index ?meta < 2 ^ 64" using idx by (simp add: meta_index_def split: option.split)
  have "load_latest dec (last (persist_dirs enc d ?meta ?data)) = dec (enc \<lparr>snap_meta = ?meta, snap_data = ?data\<rparr>)"
    by (rule load_latest_single [OF persist_last(1) [OF i] _ persist_last(2) [OF i]])
      (use snapshot_index_path [OF i] in simp)
  moreover have "the (snap_dir (fst (build_snapshot enc snapshot_bytes sm))) = last (persist_dirs enc d ?meta ?data)"
    using dir by (simp add: build_snapshot_def Let_def persist_def split: option.split)
  moreover have "snd (build_snapshot enc snapshot_bytes sm) = \<lparr>snap_meta = ?meta, snap_data = ?data\<rparr>"
    by (simp add: build_snapshot_def Let_def)
  ultimately show ?thesis
    using assms(1,2) restore_ok [OF assms(1,2)] restore_eqv [OF assms(1,2)] codec
    by (simp add: with_snapshot_dir_def Let_def adopt_snapshot_def sm_eqv_def sm_new_def)
qed

end

end
