(* ===== verification/Control.thy ===== *)
theory Control
  imports Registry Raft_Sm
begin

text \<open>
  The coordinator state group (\<open>crates/coordinator/src/control.rs\<close>): operator intent
  (placement and drains) as commands applied to the registry's authoritative fields, its
  snapshots, the group's static configuration and proposals. The command and authority
  codecs (bincode) are parameters, as is the answer of the consensus library to a write.
\<close>

section \<open>The replicated application\<close>

datatype command = ReassignVShard u32 u32 | DrainNode string

type_synonym authority_state = "u32 list \<times> string list"

definition control_apply ::
  "(u8 list \<Rightarrow> command option) \<Rightarrow> registry \<Rightarrow> u8 list \<Rightarrow> registry \<times> u32" where
  "control_apply dec reg payload =
     (case dec payload of
        Some (ReassignVShard vshard grp) \<Rightarrow> (fst (reassign_vshard reg vshard grp), 1)
      | Some (DrainNode nid) \<Rightarrow> (apply_drain_marker reg nid, 1)
      | None \<Rightarrow> (reg, 0))"

definition control_snapshot_bytes :: "(authority_state \<Rightarrow> u8 list) \<Rightarrow> registry \<Rightarrow> u8 list" where
  "control_snapshot_bytes enc reg = enc (authority reg)"

definition control_restore ::
  "(u8 list \<Rightarrow> authority_state option) \<Rightarrow> registry \<Rightarrow> u8 list \<Rightarrow> registry \<times> u32" where
  "control_restore dec reg bytes =
     (let (vs, ds) = (case dec bytes of Some a \<Rightarrow> a | None \<Rightarrow> ([], []))
      in (set_authority reg vs ds, word_of_nat (length vs + length ds)))"

section \<open>Configuration and proposals\<close>

definition split_once :: "char \<Rightarrow> string \<Rightarrow> (string \<times> string) option" where
  "split_once c s =
     (let a = takeWhile (\<lambda>x. x \<noteq> c) s
      in if length a < length s then Some (a, drop (Suc (length a)) s) else None)"

fun parse_peers :: "string list \<Rightarrow> (nat, string) hashmap \<Rightarrow> string + (nat, string) hashmap" where
  "parse_peers [] peers = Inr peers"
| "parse_peers (part # parts) peers =
     (case split_once (CHR ''='') part of
        None \<Rightarrow> Inl (''bad AETHER_CONTROL_PEERS entry: '' @ part)
      | Some (pid, addr) \<Rightarrow>
          (case parse_unsigned 64 (trim pid) of
             None \<Rightarrow> Inl ''invalid digit found in string''
           | Some n \<Rightarrow> parse_peers parts (hm_insert n (trim addr) peers)))"

record control_plan =
  my_id :: nat
  peers :: "(nat, string) hashmap"
  initializes :: bool

definition control_from_env :: "string option \<Rightarrow> string option \<Rightarrow> string + control_plan option" where
  "control_from_env id_env peers_env =
     (case (id_env, peers_env) of
        (Some pid, Some raw) \<Rightarrow>
          (case parse_unsigned 64 pid of
             None \<Rightarrow> Inl ''invalid digit found in string''
           | Some n \<Rightarrow>
               (case parse_peers (filter (\<lambda>s. s \<noteq> []) (map trim (split_pred (\<lambda>c. c = CHR '','') raw))) [] of
                  Inl e \<Rightarrow> Inl e
                | Inr ps \<Rightarrow>
                    if hm_get ps n = None
                    then Inl (''AETHER_CONTROL_ID '' @ show_nat n @ '' is not in AETHER_CONTROL_PEERS'')
                    else Inr (Some \<lparr>my_id = n, peers = ps, initializes = (Min (fst ` set ps) = n)\<rparr>)))
      | _ \<Rightarrow> Inr None)"

datatype write_answer =
  WriteCommitted
| WriteFailed "(nat option \<times> string option) option" string

datatype propose_error = ProposeLeader string | ProposeUnavailable string

definition propose :: "nat \<Rightarrow> write_answer \<Rightarrow> propose_error + unit" where
  "propose me answer =
     (case answer of
        WriteCommitted \<Rightarrow> Inr ()
      | WriteFailed (Some (lid, Some addr)) msg \<Rightarrow>
          if lid \<noteq> Some me then Inl (ProposeLeader addr)
          else Inl (ProposeUnavailable (''control group cannot commit: '' @ msg))
      | WriteFailed _ msg \<Rightarrow> Inl (ProposeUnavailable (''control group cannot commit: '' @ msg)))"

section \<open>Replicas converge\<close>

definition same_authority :: "registry \<Rightarrow> registry \<Rightarrow> bool" where
  "same_authority r s \<longleftrightarrow> vshards r = vshards s \<and> draining r = draining s"

definition control_ok ::
  "(authority_state \<Rightarrow> u8 list) \<Rightarrow> (u8 list \<Rightarrow> authority_state option) \<Rightarrow> u32 \<Rightarrow> registry \<Rightarrow> bool" where
  "control_ok encA decA n reg \<longleftrightarrow> shard_count reg = n \<and> finite (draining reg) \<and> (\<forall>a. decA (encA a) = Some a)"

lemma reassign_fields:
  "shard_count (fst (reassign_vshard r v g)) = shard_count r" "draining (fst (reassign_vshard r v g)) = draining r"
  "vshards (fst (reassign_vshard r v g)) =
     (if unat v < length (vshards r) \<and> g < shard_count r then (vshards r)[unat v := g] else vshards r)"
  by (auto simp: reassign_vshard_def not_le)

lemma restore_fields:
  assumes "decA (encA (authority s)) = Some (authority s)" and "finite (draining s)"
  shows "vshards (fst (control_restore decA t (control_snapshot_bytes encA s))) = vshards s"
    and "draining (fst (control_restore decA t (control_snapshot_bytes encA s))) = draining s"
    and "shard_count (fst (control_restore decA t (control_snapshot_bytes encA s))) = shard_count t"
  using assms by (simp_all add: control_restore_def control_snapshot_bytes_def authority_def set_authority_def)

interpretation ctl: state_machine_app "control_ok encA decA n" same_authority "control_apply decC"
  "control_snapshot_bytes encA" "control_restore decA" for encA decA n decC
proof unfold_locales
  fix s t :: registry and p
  assume s: "control_ok encA decA n s"
  show "same_authority s s" by (simp add: same_authority_def)
  show "control_ok encA decA n (fst (control_apply decC s p))"
    using s by (auto simp: control_apply_def control_ok_def reassign_fields apply_drain_marker_def
        split: option.split command.split)
  have "decA (encA (authority s)) = Some (authority s)" "finite (draining s)"
    using s unfolding control_ok_def by blast+
  note restored = restore_fields [of decA encA s, OF this]
  assume t: "control_ok encA decA n t"
  show "control_ok encA decA n (fst (control_restore decA t (control_snapshot_bytes encA s)))"
    using s t by (simp add: control_ok_def restored)
  show "same_authority (fst (control_restore decA t (control_snapshot_bytes encA s))) s"
    by (simp add: same_authority_def restored)
  assume "same_authority s t"
  with s t show "same_authority (fst (control_apply decC s p)) (fst (control_apply decC t p))"
    "snd (control_apply decC s p) = snd (control_apply decC t p)"
    by (auto simp: control_apply_def control_ok_def same_authority_def reassign_fields
        apply_drain_marker_def split: option.split command.split)
qed

text \<open>
  C40: A coordinator that installs another one's snapshot and then applies the rest of the
  log holds the same placement table and the same drain set as one that applied everything,
  whatever its own view of the cluster is.
\<close>

theorem control_replicas_converge:
  assumes "\<forall>a. decA (encA a) = Some a"
    and "shard_count (sm_app leader) = shard_count (sm_app follower)"
    and "finite (draining (sm_app leader))" and "finite (draining (sm_app follower))"
  shows "same_authority
    (sm_app (fst (sm_apply (control_apply decC)
      (install_snapshot enc (control_restore decA) follower
        (snd (build_snapshot enc (control_snapshot_bytes encA) leader))) tail1)))
    (sm_app (fst (sm_apply (control_apply decC) leader tail1)))"
  using ctl.snapshot_then_tail [of encA decA "shard_count (sm_app follower)" leader follower decC enc tail1] assms
  by (simp add: control_ok_def ctl.sm_eqv_def)

text \<open>
  The placement version is not part of what replicas agree on: after the same log, a
  replica that joined through a snapshot holds the same table and stamps its answers with
  another version.
\<close>

theorem placement_version_diverges:
  "let reg = the (with_vshards (registry_new 2) 4);
       leader = fst (reassign_vshard (fst (reassign_vshard reg 0 1)) 1 0);
       joined = set_authority reg (fst (authority leader)) (snd (authority leader))
   in same_authority joined leader \<and> placement_version leader = 2 \<and> placement_version joined = 1"
proof -
  let ?reg = "(registry_new 2)\<lparr>vshards := [0, 1, 0, 1]\<rparr>"
  have reg: "with_vshards (registry_new 2) 4 = Some ?reg"
    by (simp add: with_vshards_def registry_new_def upt_rec)
  have "fst (reassign_vshard (fst (reassign_vshard ?reg 0 1)) 1 0)
      = ?reg\<lparr>vshards := [1, 0, 0, 1], placement_version := 2\<rparr>"
    by (simp add: reassign_vshard_def registry_new_def word_le_nat_alt)
  then show ?thesis
    unfolding Let_def reg option.sel by (simp add: same_authority_def set_authority_def authority_def registry_new_def)
qed

text \<open>
  One replica of a group starts it: replicas configured with the same peers never both
  initialize, and the one with the smallest id does.
\<close>

lemma control_initializer_unique:
  assumes "control_from_env (Some a) pe = Inr (Some p)" and "control_from_env (Some b) pe = Inr (Some q)"
  shows "peers p = peers q \<and> (initializes p \<longleftrightarrow> my_id p = Min (fst ` set (peers p)))
    \<and> (initializes p \<longrightarrow> initializes q \<longrightarrow> my_id p = my_id q)"
  using assms by (auto simp: control_from_env_def split: option.splits sum.splits if_splits)

section \<open>A concrete codec and group\<close>

definition enc_list :: "('a \<Rightarrow> u8 list) \<Rightarrow> 'a list \<Rightarrow> u8 list" where
  "enc_list f xs = concat (map (\<lambda>x. 1 # f x) xs) @ [0]"

fun dec_list :: "nat \<Rightarrow> (u8 list \<Rightarrow> 'a \<times> u8 list) \<Rightarrow> u8 list \<Rightarrow> 'a list \<times> u8 list" where
  "dec_list 0 g bs = ([], bs)"
| "dec_list (Suc k) g bs =
     (case bs of [] \<Rightarrow> ([], [])
      | b # rest \<Rightarrow> if b = 0 then ([], rest)
          else (let (x, r1) = g rest; (xs, r2) = dec_list k g r1 in (x # xs, r2)))"

lemma dec_enc_list:
  assumes "\<And>x r. g (f x @ r) = (x, r)" and "length xs < k"
  shows "dec_list k g (enc_list f xs @ r) = (xs, r)"
  using assms(2)
proof (induction xs arbitrary: k)
  case Nil
  then show ?case by (cases k) (simp_all add: enc_list_def)
next
  case (Cons x xs)
  then obtain j where k: "k = Suc j" "length xs < j" by (cases k) auto
  have "enc_list f (x # xs) @ r = 1 # f x @ enc_list f xs @ r" by (simp add: enc_list_def)
  with k Cons.IH [of j] assms(1) show ?case by simp
qed

lemma length_enc_list: "length xs < length (enc_list f xs)"
  by (induction xs) (simp_all add: enc_list_def)

definition enc_string :: "string \<Rightarrow> u8 list" where
  "enc_string s = enc_list (\<lambda>c. [word_of_nat (code c)]) s"

definition enc_authority :: "authority_state \<Rightarrow> u8 list" where
  "enc_authority a = enc_list to_le_bytes (fst a) @ enc_list enc_string (snd a)"

definition dec_string :: "u8 list \<Rightarrow> string \<times> u8 list" where
  "dec_string bs = dec_list (length bs) (\<lambda>r. (char_of (unat (hd r)), tl r)) bs"

definition dec_authority :: "u8 list \<Rightarrow> authority_state option" where
  "dec_authority bs =
     (let (vs, r) = dec_list (length bs) (\<lambda>r. (from_le_bytes (take 4 r), drop 4 r)) bs
      in Some (vs, fst (dec_list (length bs) dec_string r)))"

lemma dec_enc_string: "dec_string (enc_string s @ r) = (s, r)"
  unfolding dec_string_def enc_string_def
  by (rule dec_enc_list) (use length_enc_list [of s "\<lambda>c. [word_of_nat (code c)]"] in \<open>simp_all add: unsigned_of_nat take_bit_eq_mod\<close>)

lemma dec_enc_authority: "dec_authority (enc_authority a) = Some a"
proof -
  obtain vs ds where a: "a = (vs, ds)" by fastforce
  let ?bs = "enc_authority a"
  have len: "length vs < length ?bs" "length ds < length ?bs"
    using length_enc_list [of vs to_le_bytes] length_enc_list [of ds enc_string] by (simp_all add: a enc_authority_def)
  have "dec_list (length ?bs) (\<lambda>r. (from_le_bytes (take 4 r), drop 4 r)) (enc_list to_le_bytes vs @ enc_list enc_string ds)
      = (vs, enc_list enc_string ds)"
    by (rule dec_enc_list) (use len in simp_all)
  moreover have "dec_list (length ?bs) dec_string (enc_list enc_string ds @ []) = (ds, [])"
    by (rule dec_enc_list [OF dec_enc_string len(2)])
  ultimately show ?thesis by (simp add: dec_authority_def a enc_authority_def)
qed

theorem control_replicas_converge_witness:
  "same_authority
    (sm_app (fst (sm_apply (control_apply (\<lambda>bs. Some (DrainNode ''n1'')))
      (install_snapshot (\<lambda>_. []) (control_restore dec_authority) (sm_new (registry_new 2))
        (snd (build_snapshot (\<lambda>_. []) (control_snapshot_bytes enc_authority)
          (sm_new (apply_drain_marker (the (with_vshards (registry_new 2) 4)) ''n0'')))))
      [\<lparr>entry_id = \<lparr>li_term = 1, li_node = 1, li_index = 2\<rparr>, entry_payload = Normal []\<rparr>])))
    (sm_app (fst (sm_apply (control_apply (\<lambda>bs. Some (DrainNode ''n1'')))
      (sm_new (apply_drain_marker (the (with_vshards (registry_new 2) 4)) ''n0''))
      [\<lparr>entry_id = \<lparr>li_term = 1, li_node = 1, li_index = 2\<rparr>, entry_payload = Normal []\<rparr>])))"
  by (rule control_replicas_converge)
    (auto simp: sm_new_def dec_enc_authority apply_drain_marker_def with_vshards_def registry_new_def)


end
