(* ===== verification/Hybrid.thy ===== *)
theory Hybrid
  imports Fanout
begin

text \<open>
  Reciprocal rank fusion (\<open>crates/coordinator/src/hybrid.rs\<close>): two ranked hit lists are fused
  by rank. The order in which the hash map is drained is the argument \<open>ord\<close>.
\<close>

section \<open>Fusion\<close>

definition RRF_K :: f64 where
  "RRF_K = Fin False 60"

definition contribution :: "nat \<Rightarrow> f64" where
  "contribution i = fdiv binary64 fone (fadd binary64 RRF_K (fadd binary64 (f64_of_nat i) fone))"

fun rrf_fold ::
  "bool \<Rightarrow> nat \<Rightarrow> search_hit list \<Rightarrow> (string, f64 \<times> search_hit) hashmap \<Rightarrow> (string, f64 \<times> search_hit) hashmap" where
  "rrf_fold pref i [] fused = fused"
| "rrf_fold pref i (hit # hits) fused =
     (let key = icao24_of hit
      in rrf_fold pref (i + 1) hits
           (if key = [] then fused
            else case hm_get fused key of
                   Some (score, existing) \<Rightarrow>
                     hm_insert key (fadd binary64 score (contribution i), if pref then hit else existing) fused
                 | None \<Rightarrow> hm_insert key (contribution i, hit) fused))"

definition rrf_fuse ::
  "((f64 \<times> search_hit) list \<Rightarrow> (f64 \<times> search_hit) list) \<Rightarrow> search_hit list \<Rightarrow> search_hit list \<Rightarrow> nat \<Rightarrow> search_hit list" where
  "rrf_fuse ord kw vec limit =
     (let fused = rrf_fold False 0 vec (rrf_fold True 0 kw []);
          out = map (\<lambda>(score, hit). hit\<lparr>hit_score := score\<rparr>) (ord (hm_values fused))
      in truncate_limit limit (sort_by cmp_hits out))"

section \<open>Scores are comparable\<close>

definition nonneg :: "f64 \<Rightarrow> bool" where
  "nonneg a \<longleftrightarrow> a = Inf False \<or> (\<exists>m. 0 \<le> m \<and> a = Fin False m)"

lemma round_mag_nonneg: "0 \<le> x \<Longrightarrow> 0 \<le> round_mag fmt x"
proof -
  assume "0 \<le> x"
  have "0 \<le> round_half_even y" if "0 \<le> y" for y :: rat
    using that by (auto simp: round_half_even_def Let_def)
  with \<open>0 \<le> x\<close> show ?thesis by (simp add: round_mag_def Let_def less_imp_le [OF pow2_pos])
qed

lemma fround_nonneg: "0 \<le> x \<Longrightarrow> nonneg (fround fmt False x)"
  using round_mag_nonneg [of "\<bar>x\<bar>" fmt] by (auto simp: fround_def nonneg_def Let_def)

lemma nonneg_simps [simp]: "nonneg (Inf False)" "nonneg (Fin False m) \<longleftrightarrow> 0 \<le> m"
  by (auto simp: nonneg_def)

lemma nonnegE: "nonneg a \<Longrightarrow> (a = Inf False \<Longrightarrow> P) \<Longrightarrow> (\<And>m. 0 \<le> m \<Longrightarrow> a = Fin False m \<Longrightarrow> P) \<Longrightarrow> P"
  by (auto simp: nonneg_def)

lemma fadd_nonneg: "nonneg a \<Longrightarrow> nonneg b \<Longrightarrow> nonneg (fadd fmt a b)"
  by (auto elim!: nonnegE intro!: fround_nonneg)

lemma fdiv_nonneg: "0 < m \<Longrightarrow> nonneg b \<Longrightarrow> nonneg (fdiv fmt (Fin False m) b)"
  by (auto elim!: nonnegE intro!: fround_nonneg)

lemma contribution_nonneg: "nonneg (contribution i)"
proof -
  have "nonneg (f64_of_nat i)" by (simp add: f64_of_int_def fround_nonneg)
  moreover have "nonneg fone" "nonneg RRF_K" by (simp_all add: nonneg_def RRF_K_def)
  ultimately show ?thesis by (simp add: contribution_def fdiv_nonneg fadd_nonneg)
qed

lemma nonneg_not_NaN: "nonneg a \<Longrightarrow> a \<noteq> NaN"
  by (auto simp: nonneg_def)

section \<open>What the fold holds\<close>

text \<open>The position of a key in a ranking, first occurrence.\<close>

fun rank_of :: "string \<Rightarrow> search_hit list \<Rightarrow> nat option" where
  "rank_of k [] = None"
| "rank_of k (h # hs) = (if icao24_of h = k then Some 0 else map_option Suc (rank_of k hs))"

lemma rank_of_None: "rank_of k hs = None \<longleftrightarrow> k \<notin> icao24_of ` set hs"
  by (induction hs) auto

lemma rank_of_Some: "rank_of k hs = Some j \<Longrightarrow> j < length hs \<and> icao24_of (hs ! j) = k"
  by (induction hs arbitrary: j) (auto split: if_splits)

lemma rrf_fold_lookup:
  assumes "distinct (filter (\<lambda>k. k \<noteq> []) (map icao24_of hs))" and "k \<noteq> []"
  shows "hm_get (rrf_fold pref i hs m) k =
    (case rank_of k hs of
       None \<Rightarrow> hm_get m k
     | Some j \<Rightarrow> (case hm_get m k of
         Some (s, e) \<Rightarrow> Some (fadd binary64 s (contribution (i + j)), if pref then hs ! j else e)
       | None \<Rightarrow> Some (contribution (i + j), hs ! j)))"
  using assms(1)
proof (induction pref i hs m rule: rrf_fold.induct)
  case (2 pref i h hs m)
  define m' where "m' = (if icao24_of h = [] then m
            else case hm_get m (icao24_of h) of
                   Some (score, existing) \<Rightarrow>
                     hm_insert (icao24_of h) (fadd binary64 score (contribution i), if pref then h else existing) m
                 | None \<Rightarrow> hm_insert (icao24_of h) (contribution i, h) m)"
  have step: "rrf_fold pref i (h # hs) m = rrf_fold pref (i + 1) hs m'" by (simp add: m'_def Let_def)
  have IH: "hm_get (rrf_fold pref (i + 1) hs m') k =
    (case rank_of k hs of
       None \<Rightarrow> hm_get m' k
     | Some j \<Rightarrow> (case hm_get m' k of
         Some (s, e) \<Rightarrow> Some (fadd binary64 s (contribution (i + 1 + j)), if pref then hs ! j else e)
       | None \<Rightarrow> Some (contribution (i + 1 + j), hs ! j)))"
    using 2 unfolding m'_def by (simp split: if_splits)
  show ?case
  proof (cases "icao24_of h = k")
    case True
    then have "rank_of k hs = None" using 2(2) assms(2) by (auto simp: rank_of_None)
    with IH step True assms(2) show ?thesis
      by (auto simp: m'_def hm_get_insert split: option.split prod.split)
  next
    case False
    then have "hm_get m' k = hm_get m k" by (auto simp: m'_def hm_get_insert split: option.split prod.split)
    with IH step False show ?thesis by (simp split: option.split)
  qed
qed simp

lemma rrf_fold_wf: "hm_wf m \<Longrightarrow> hm_wf (rrf_fold pref i hs m)"
  by (induction pref i hs m rule: rrf_fold.induct) (auto simp: Let_def hm_wf_insert split: option.split prod.split)

lemma rrf_fold_keys: "[] \<notin> fst ` set m \<Longrightarrow> [] \<notin> fst ` set (rrf_fold pref i hs m)"
  by (induction pref i hs m rule: rrf_fold.induct) (auto simp: Let_def hm_keys_insert split: option.split prod.split)

text \<open>The specification: who is ranked, with which score and which hit.\<close>

definition rrf_score :: "search_hit list \<Rightarrow> search_hit list \<Rightarrow> string \<Rightarrow> f64" where
  "rrf_score kw vec k =
     (case (rank_of k kw, rank_of k vec) of
        (Some i, Some j) \<Rightarrow> fadd binary64 (contribution i) (contribution j)
      | (Some i, None) \<Rightarrow> contribution i
      | (None, Some j) \<Rightarrow> contribution j
      | (None, None) \<Rightarrow> fzero)"

definition rrf_hit :: "search_hit list \<Rightarrow> search_hit list \<Rightarrow> string \<Rightarrow> search_hit" where
  "rrf_hit kw vec k =
     (case rank_of k kw of Some i \<Rightarrow> kw ! i | None \<Rightarrow> vec ! the (rank_of k vec))\<lparr>hit_score := rrf_score kw vec k\<rparr>"

abbreviation ranked_keys :: "search_hit list \<Rightarrow> search_hit list \<Rightarrow> string set" where
  "ranked_keys kw vec \<equiv> icao24_of ` set (kw @ vec) - {[]}"

lemma rrf_fused:
  fixes kw vec
  assumes "distinct (filter (\<lambda>k. k \<noteq> []) (map icao24_of kw))" and "distinct (filter (\<lambda>k. k \<noteq> []) (map icao24_of vec))"
  defines "fused \<equiv> rrf_fold False 0 vec (rrf_fold True 0 kw [])"
  shows "hm_wf fused" and "(k, s, h) \<in> set fused \<longleftrightarrow>
    k \<in> ranked_keys kw vec \<and> h\<lparr>hit_score := s\<rparr> = rrf_hit kw vec k \<and> s = rrf_score kw vec k \<and>
      h = (case rank_of k kw of Some i \<Rightarrow> kw ! i | None \<Rightarrow> vec ! the (rank_of k vec))"
proof -
  show wf: "hm_wf fused" by (simp add: fused_def rrf_fold_wf)
  have none: "[] \<notin> fst ` set fused" unfolding fused_def by (intro rrf_fold_keys) simp
  show "(k, s, h) \<in> set fused \<longleftrightarrow>
    k \<in> ranked_keys kw vec \<and> h\<lparr>hit_score := s\<rparr> = rrf_hit kw vec k \<and> s = rrf_score kw vec k \<and>
      h = (case rank_of k kw of Some i \<Rightarrow> kw ! i | None \<Rightarrow> vec ! the (rank_of k vec))"
  proof (cases "k = []")
    case True
    then show ?thesis using none by force
  next
    case False
    have "(k, s, h) \<in> set fused \<longleftrightarrow> hm_get fused k = Some (s, h)" using wf by (simp add: map_of_eq_Some_iff)
    also have "\<dots> \<longleftrightarrow> (rank_of k kw \<noteq> None \<or> rank_of k vec \<noteq> None) \<and> s = rrf_score kw vec k \<and>
      h = (case rank_of k kw of Some i \<Rightarrow> kw ! i | None \<Rightarrow> vec ! the (rank_of k vec))"
      unfolding fused_def rrf_fold_lookup [OF assms(2) False] rrf_fold_lookup [OF assms(1) False]
      by (auto simp: rrf_score_def split: option.split)
    also have "rank_of k kw \<noteq> None \<or> rank_of k vec \<noteq> None \<longleftrightarrow> k \<in> ranked_keys kw vec"
      using False by (auto simp: rank_of_None)
    finally show ?thesis by (auto simp: rrf_hit_def)
  qed
qed

lemma rrf_hit_key:
  assumes "k \<in> ranked_keys kw vec"
  shows "icao24_of (rrf_hit kw vec k) = k" and "hit_score (rrf_hit kw vec k) = rrf_score kw vec k"
proof -
  have keep: "icao24_of (h\<lparr>hit_score := s\<rparr>) = icao24_of h" for h s by (simp add: icao24_of_def)
  show "icao24_of (rrf_hit kw vec k) = k"
  proof (cases "rank_of k kw")
    case None
    then obtain j where "rank_of k vec = Some j" using assms by (cases "rank_of k vec") (auto simp: rank_of_None)
    with None rank_of_Some [of k vec j] show ?thesis by (simp add: rrf_hit_def keep)
  next
    case (Some i)
    with rank_of_Some [of k kw i] show ?thesis by (simp add: rrf_hit_def keep)
  qed
  show "hit_score (rrf_hit kw vec k) = rrf_score kw vec k" by (simp add: rrf_hit_def)
qed

lemma rrf_score_nonneg: "nonneg (rrf_score kw vec k)"
  by (simp add: rrf_score_def contribution_nonneg fadd_nonneg split: option.split)

text \<open>
  C36: Hybrid search fuses by rank. For two rankings without repeated aircraft the result is
  the limit-long prefix of the ranking, by fused score and key, of exactly the aircraft that
  occur in either ranking, each once; its score is the sum of the reciprocal-rank
  contributions of the rankings it occurs in and depends on no score of the inputs; its hit
  is the keyword side's where there is one. The order of the hash map cannot be seen.
\<close>

theorem rrf_fuse_exact:
  assumes "distinct (filter (\<lambda>k. k \<noteq> []) (map icao24_of kw))" and "distinct (filter (\<lambda>k. k \<noteq> []) (map icao24_of vec))"
    and "iteration_order ord"
  shows "rrf_fuse ord kw vec limit =
    truncate_limit limit (sort_by cmp_hits (map (rrf_hit kw vec) (sorted_list_of_set (ranked_keys kw vec))))"
proof -
  define fused where "fused = rrf_fold False 0 vec (rrf_fold True 0 kw [])"
  define out where "out = map (\<lambda>(score, hit). hit\<lparr>hit_score := score\<rparr>) (ord (hm_values fused))"
  let ?spec = "map (rrf_hit kw vec) (sorted_list_of_set (ranked_keys kw vec))"
  note f = rrf_fused [OF assms(1,2), folded fused_def]
  have fin: "finite (ranked_keys kw vec)" by simp
  have inj: "inj_on (rrf_hit kw vec) (ranked_keys kw vec)" by (rule inj_onI) (metis rrf_hit_key(1))
  have entry: "hit\<lparr>hit_score := s\<rparr> = rrf_hit kw vec k" if "(k, s, hit) \<in> set fused" for k s hit using f(2) that by blast
  have keys: "set (hm_keys fused) = ranked_keys kw vec"
  proof (intro set_eqI iffI)
    fix k assume "k \<in> set (hm_keys fused)"
    then obtain s h where "(k, s, h) \<in> set fused" by auto
    then show "k \<in> ranked_keys kw vec" using f(2) by blast
  next
    fix k assume k: "k \<in> ranked_keys kw vec"
    have "(k, rrf_score kw vec k, case rank_of k kw of Some i \<Rightarrow> kw ! i | None \<Rightarrow> vec ! the (rank_of k vec)) \<in> set fused"
      unfolding f(2) using k by (simp add: rrf_hit_def split: option.split)
    then show "k \<in> set (hm_keys fused)" by force
  qed
  have vals: "map (\<lambda>(score, hit). hit\<lparr>hit_score := score\<rparr>) (hm_values fused) = map (rrf_hit kw vec) (hm_keys fused)"
    using entry by (auto simp: comp_def split: prod.split)
  have "mset out = mset (map (\<lambda>(score, hit). hit\<lparr>hit_score := score\<rparr>) (hm_values fused))"
    unfolding out_def by (simp only: mset_map iteration_order_mset [OF assms(3)])
  also have "\<dots> = image_mset (rrf_hit kw vec) (mset (hm_keys fused))" unfolding vals by (rule mset_map)
  also have "mset (hm_keys fused) = mset (sorted_list_of_set (ranked_keys kw vec))"
    by (rule set_eq_iff_mset_eq_distinct [THEN iffD1]) (use f(1) keys fin in simp_all)
  finally have same: "mset ?spec = mset out" by simp
  have sets: "set ?spec = rrf_hit kw vec ` ranked_keys kw vec" using fin by simp
  have "sort_by cmp_hits ?spec = sort_by cmp_hits out"
  proof (rule ranking.sort_unique [OF same])
    show sub: "set ?spec \<subseteq> scored"
      unfolding sets using rrf_hit_key(2) nonneg_not_NaN [OF rrf_score_nonneg] by auto
    fix x y assume xy: "x \<in> set ?spec" "y \<in> set ?spec" and "cmp_hits x y = Equal"
    then have "icao24_of x = icao24_of y" by (simp add: cmp_hits_def)
    moreover obtain k l where k: "k \<in> ranked_keys kw vec" "x = rrf_hit kw vec k" and l: "l \<in> ranked_keys kw vec" "y = rrf_hit kw vec l"
      using xy unfolding sets by blast
    ultimately have "k = l" unfolding k(2) l(2) rrf_hit_key(1) [OF k(1)] rrf_hit_key(1) [OF l(1)] by blast
    then show "x = y" unfolding k(2) l(2) by (rule arg_cong)
  qed
  then show ?thesis by (simp add: rrf_fuse_def Let_def fused_def [symmetric] out_def [symmetric])
qed

definition sample_hit :: "string \<Rightarrow> search_hit" where
  "sample_hit k = \<lparr>hit_document = Some (default_document\<lparr>icao24 := k\<rparr>), hit_score = fzero, hit_prov = None\<rparr>"

theorem rrf_fuse_exact_witness:
  "rrf_fuse rev [sample_hit ''a'', sample_hit ''b''] [sample_hit ''b'', sample_hit ''c''] 0 =
    sort_by cmp_hits (map (rrf_hit [sample_hit ''a'', sample_hit ''b''] [sample_hit ''b'', sample_hit ''c''])
      (sorted_list_of_set {''a'', ''b'', ''c''}))"
proof -
  have key: "icao24_of (sample_hit k) = k" for k by (simp add: icao24_of_def sample_hit_def)
  have "ranked_keys [sample_hit ''a'', sample_hit ''b''] [sample_hit ''b'', sample_hit ''c''] = {''a'', ''b'', ''c''}"
    by (auto simp: key)
  then show ?thesis
    using rrf_fuse_exact [of "[sample_hit ''a'', sample_hit ''b'']" "[sample_hit ''b'', sample_hit ''c'']" rev 0] by (simp add: key)
qed

end
