(* ===== verification/Service.thy ===== *)
theory Service
  imports Control Agg Hybrid Auth Quant
begin

text \<open>
  The coordinator's calls (\<open>crates/coordinator/src/service.rs\<close>) and its metrics
  (\<open>crates/coordinator/src/metrics.rs\<close>). The service state is the registry behind its lock
  (\<open>None\<close> when a panic poisoned it), the id of this replica when a state group holds the
  authority, the token policy and the counters. What a call meets outside (the network, hash
  orders, clocks, the answer of the consensus library, forwarded calls) is the record
  \<open>svc_env\<close>. A streaming search is the list of updates it sends.
\<close>

section \<open>Metrics\<close>

record metrics =
  queries_total :: u64
  query_errors_total :: u64
  aggregates_total :: u64
  aggregate_errors_total :: u64
  query_latency_ms_sum :: u64
  latency_buckets :: "u64 list"

definition LATENCY_BUCKETS_MS :: "u64 list" where
  "LATENCY_BUCKETS_MS = [1, 5, 10, 50, 100, 500]"

definition metrics_default :: metrics where
  "metrics_default = \<lparr>queries_total = 0, query_errors_total = 0, aggregates_total = 0, aggregate_errors_total = 0,
     query_latency_ms_sum = 0, latency_buckets = replicate 6 0\<rparr>"

definition record_query :: "metrics \<Rightarrow> u64 \<Rightarrow> bool \<Rightarrow> metrics" where
  "record_query m ms ok =
     m\<lparr>queries_total := queries_total m + 1,
       query_errors_total := query_errors_total m + (if ok then 0 else 1),
       query_latency_ms_sum := query_latency_ms_sum m + ms,
       latency_buckets := map2 (\<lambda>bound c. if ms \<le> bound then c + 1 else c) LATENCY_BUCKETS_MS (latency_buckets m)\<rparr>"

definition record_aggregate :: "metrics \<Rightarrow> bool \<Rightarrow> metrics" where
  "record_aggregate m ok =
     m\<lparr>aggregates_total := aggregates_total m + 1,
       aggregate_errors_total := aggregate_errors_total m + (if ok then 0 else 1)\<rparr>"

text \<open>The Prometheus text of the counters; \<open>None\<close> is a registry whose lock is poisoned.\<close>

definition newline :: string where
  "newline = [CHR 0x0A]"

definition series :: "string \<Rightarrow> string \<Rightarrow> string \<Rightarrow> string" where
  "series kind name help =
     ''# HELP '' @ name @ '' '' @ help @ newline @ ''# TYPE '' @ name @ '' '' @ kind @ newline"

definition counter :: "string \<Rightarrow> string \<Rightarrow> u64 \<Rightarrow> string" where
  "counter name help v = series ''counter'' name help @ name @ '' '' @ show_nat (unat v) @ newline"

definition bucket_line :: "string \<Rightarrow> u64 \<Rightarrow> string" where
  "bucket_line bound c =
     ''aether_query_latency_ms_bucket{le='' @ [CHR 0x22] @ bound @ [CHR 0x22] @ ''} '' @ show_nat (unat c) @ newline"

definition render :: "metrics \<Rightarrow> registry option \<Rightarrow> string" where
  "render m reg =
     (let (ls, shards) = (case reg of Some r \<Rightarrow> (leaders_registered r, unat (shard_count r)) | None \<Rightarrow> (0, 0));
          n = queries_total m
      in counter ''aether_queries_total'' ''Search queries handled by the coordinator.'' n
         @ counter ''aether_query_errors_total'' ''Search queries that returned an error.'' (query_errors_total m)
         @ counter ''aether_aggregates_total'' ''Aggregate queries handled.'' (aggregates_total m)
         @ counter ''aether_aggregate_errors_total'' ''Aggregate queries that returned an error.'' (aggregate_errors_total m)
         @ series ''histogram'' ''aether_query_latency_ms'' ''Search latency in milliseconds.''
         @ concat (map2 (\<lambda>bound c. bucket_line (show_nat (unat bound)) c) LATENCY_BUCKETS_MS (latency_buckets m))
         @ bucket_line ''+Inf'' n
         @ ''aether_query_latency_ms_sum '' @ show_nat (unat (query_latency_ms_sum m)) @ newline
         @ ''aether_query_latency_ms_count '' @ show_nat (unat n) @ newline
         @ series ''gauge'' ''aether_cluster_leaders'' ''Shard leaders currently registered.''
         @ ''aether_cluster_leaders '' @ show_nat ls @ newline
         @ series ''gauge'' ''aether_cluster_shards'' ''Configured shard count.''
         @ ''aether_cluster_shards '' @ show_nat shards @ newline)"

section \<open>Requests, state and surroundings\<close>

record search_request =
  sr_query :: string
  sr_limit :: u32
  sr_filter :: "filter_msg option"

record vector_search_request =
  vr_vector :: vec32
  vr_limit :: u32
  vr_filter :: "filter_msg option"

record svc_env =
  e_lo :: "u32 list \<Rightarrow> u32 list"
  e_fo :: "u32 list \<Rightarrow> u32 list"
  e_sched :: "string list \<Rightarrow> string list"
  e_ord :: "search_hit list \<Rightarrow> search_hit list"
  e_fused :: "(f64 \<times> search_hit) list \<Rightarrow> (f64 \<times> search_hit) list"
  e_net :: "string \<Rightarrow> search_request \<Rightarrow> search_response rpc_outcome"
  e_vnet :: "string \<Rightarrow> vector_search_request \<Rightarrow> search_response rpc_outcome"
  e_anet :: "string \<Rightarrow> aggregate_request \<Rightarrow> aggregate_partial option rpc_outcome"
  e_now :: millis
  e_elapsed :: u64
  e_asin :: "f64 \<Rightarrow> f64"
  e_show :: "f64 \<Rightarrow> string"
  e_write :: "command \<Rightarrow> write_answer"
  e_fwd_drain :: "string \<Rightarrow> string \<Rightarrow> string option \<Rightarrow> status + (bool \<times> string)"
  e_fwd_reassign :: "string \<Rightarrow> u32 \<times> u32 \<Rightarrow> string option \<Rightarrow> status + (bool \<times> string)"

record coordinator_service =
  sv_registry :: "registry option"
  sv_control :: "nat option"
  sv_auth :: auth
  sv_metrics :: metrics

definition service_new :: "registry \<Rightarrow> nat option \<Rightarrow> coordinator_service" where
  "service_new reg ctl = \<lparr>sv_registry = Some reg, sv_control = ctl, sv_auth = auth_default, sv_metrics = metrics_default\<rparr>"

abbreviation poisoned :: status where
  "poisoned \<equiv> Internal ''registry lock poisoned''"

definition check_filter :: "(f64 \<Rightarrow> string) \<Rightarrow> filter_msg option \<Rightarrow> status + unit" where
  "check_filter show_f64 fo =
     (case fo of
        None \<Rightarrow> Inr ()
      | Some f \<Rightarrow> (case validate show_f64 f of Inl m \<Rightarrow> Inl (InvalidArgument m) | Inr u \<Rightarrow> Inr u))"

definition scatter_gather_vector ::
  "(string \<Rightarrow> vector_search_request \<Rightarrow> search_response rpc_outcome) \<Rightarrow> (string list \<Rightarrow> string list) \<Rightarrow>
    string list \<Rightarrow> vector_search_request \<Rightarrow> fanout" where
  "scatter_gather_vector net sched ls request =
     foldl gather_step \<lparr>responses = [], omitted = []\<rparr> (map (\<lambda>addr. query_leader net addr request) (sched ls))"

section \<open>Node-facing calls\<close>

definition register_node ::
  "svc_env \<Rightarrow> coordinator_service \<Rightarrow> register_node_request \<Rightarrow> coordinator_service \<times> (status + register_node_response)" where
  "register_node env sv req =
     (case sv_registry sv of
        None \<Rightarrow> (sv, Inl poisoned)
      | Some reg \<Rightarrow> (let (reg', resp) = register_at reg req (e_now env) in (sv\<lparr>sv_registry := Some reg'\<rparr>, Inr resp)))"

definition list_replicas :: "coordinator_service \<Rightarrow> u32 \<Rightarrow> status + string list" where
  "list_replicas sv shard =
     (case sv_registry sv of None \<Rightarrow> Inl poisoned | Some reg \<Rightarrow> Inr (follower_addresses reg shard))"

definition heartbeat_rpc ::
  "svc_env \<Rightarrow> coordinator_service \<Rightarrow> string \<Rightarrow> bool \<Rightarrow> coordinator_service \<times> (status + bool \<times> node_role)" where
  "heartbeat_rpc env sv nid raft_leader =
     (case sv_registry sv of
        None \<Rightarrow> (sv, Inl poisoned)
      | Some reg \<Rightarrow>
          (let (reg1, known) = heartbeat (e_lo env) (e_fo env) reg nid (e_now env)
           in if raft_leader \<and> known \<noteq> None then
                (sv\<lparr>sv_registry := Some (fst (report_raft_leader (e_lo env) (e_fo env) reg1 nid (e_now env)))\<rparr>,
                 Inr (True, RoleLeader))
              else (sv\<lparr>sv_registry := Some reg1\<rparr>,
                    Inr (known \<noteq> None, case known of Some r \<Rightarrow> r | None \<Rightarrow> RoleUnspecified))))"

definition list_shard_members :: "svc_env \<Rightarrow> coordinator_service \<Rightarrow> u32 \<Rightarrow> status + node_snapshot list" where
  "list_shard_members env sv shard =
     (case sv_registry sv of
        None \<Rightarrow> Inl poisoned
      | Some reg \<Rightarrow> Inr (members_of (e_lo env) (e_fo env) reg shard (e_now env)))"

definition get_v_shard_assignments :: "coordinator_service \<Rightarrow> status + u32 list" where
  "get_v_shard_assignments sv = (case sv_registry sv of None \<Rightarrow> Inl poisoned | Some reg \<Rightarrow> Inr (vshards reg))"

section \<open>Queries\<close>

definition search_rpc ::
  "svc_env \<Rightarrow> coordinator_service \<Rightarrow> string option \<Rightarrow> search_request \<Rightarrow> u64 \<Rightarrow>
    coordinator_service \<times> (status + search_response)" where
  "search_rpc env sv authz req total_ms =
     (case require (sv_auth sv) authz Read of
        Inl e \<Rightarrow> (sv, Inl e)
      | Inr _ \<Rightarrow>
          (case check_filter (e_show env) (sr_filter req) of
             Inl e \<Rightarrow> (sv, Inl e)
           | Inr _ \<Rightarrow>
               (case sv_registry sv of
                  None \<Rightarrow> (sv, Inl poisoned)
                | Some reg \<Rightarrow>
                    (let ls = leader_addresses (e_lo env) reg;
                         merged = merge_search_responses (e_ord env) (scatter_gather (e_net env) (e_sched env) ls req)
                           (unat (sr_limit req)) (of_len ls) (placement_version reg) (e_elapsed env)
                     in (sv\<lparr>sv_metrics := record_query (sv_metrics sv) total_ms True\<rparr>, Inr merged)))))"

definition vector_search_rpc ::
  "svc_env \<Rightarrow> coordinator_service \<Rightarrow> string option \<Rightarrow> vector_search_request \<Rightarrow> status + search_response" where
  "vector_search_rpc env sv authz req =
     (case require (sv_auth sv) authz Read of
        Inl e \<Rightarrow> Inl e
      | Inr _ \<Rightarrow>
          (case check_filter (e_show env) (vr_filter req) of
             Inl e \<Rightarrow> Inl e
           | Inr _ \<Rightarrow>
               (case sv_registry sv of
                  None \<Rightarrow> Inl poisoned
                | Some reg \<Rightarrow>
                    (let ls = leader_addresses (e_lo env) reg
                     in Inr (merge_search_responses (e_ord env) (scatter_gather_vector (e_vnet env) (e_sched env) ls req)
                          (unat (vr_limit req)) (of_len ls) (placement_version reg) (e_elapsed env))))))"

record aggregate_response =
  ar_partial :: aggregate_partial
  ar_percentiles :: "(f64 \<times> f64) list"
  ar_manifest :: query_manifest

definition aggregate_rpc ::
  "svc_env \<Rightarrow> coordinator_service \<Rightarrow> string option \<Rightarrow> aggregate_request \<Rightarrow>
    (coordinator_service \<times> (status + aggregate_response)) option" where
  "aggregate_rpc env sv authz req =
     (case require (sv_auth sv) authz Read of
        Inl e \<Rightarrow> Some (sv, Inl e)
      | Inr _ \<Rightarrow>
          (case check_filter (e_show env) (a_filter req) of
             Inl e \<Rightarrow> Some (sv, Inl e)
           | Inr _ \<Rightarrow>
               (case sv_registry sv of
                  None \<Rightarrow> Some (sv, Inl poisoned)
                | Some reg \<Rightarrow>
                    (let ls = leader_addresses (e_lo env) reg;
                         (partials, om) = scatter_aggregate (e_anet env) (e_sched env) ls req
                     in map_option (\<lambda>(merged, percentiles).
                          (sv\<lparr>sv_metrics := record_aggregate (sv_metrics sv) True\<rparr>,
                           Inr \<lparr>ar_partial = merged, ar_percentiles = percentiles,
                             ar_manifest = build_manifest [] (of_len ls) (of_len partials) om 0 (placement_version reg) (e_elapsed env)\<rparr>))
                          (merge_partials (e_asin env) (a_kind req) partials (a_percentiles req))))))"

definition saturating_sub :: "'w::len word \<Rightarrow> 'w word \<Rightarrow> 'w word" where
  "saturating_sub a b = (if b \<le> a then a - b else 0)"

definition hybrid_search_rpc ::
  "svc_env \<Rightarrow> coordinator_service \<Rightarrow> string option \<Rightarrow> search_request \<Rightarrow> status + search_response" where
  "hybrid_search_rpc env sv authz req =
     (case require (sv_auth sv) authz Read of
        Inl e \<Rightarrow> Inl e
      | Inr _ \<Rightarrow>
          (case check_filter (e_show env) (sr_filter req) of
             Inl e \<Rightarrow> Inl e
           | Inr _ \<Rightarrow>
               (case sv_registry sv of
                  None \<Rightarrow> Inl poisoned
                | Some reg \<Rightarrow>
                    (let ls = leader_addresses (e_lo env) reg;
                         queried = of_len ls;
                         vreq = \<lparr>vr_vector = hash_embed (sr_query req), vr_limit = sr_limit req, vr_filter = sr_filter req\<rparr>;
                         kw = scatter_gather (e_net env) (e_sched env) ls req;
                         vec = scatter_gather_vector (e_vnet env) (e_sched env) ls vreq;
                         om = omitted kw @ omitted vec;
                         kw_merged = merge_search_responses (e_ord env) kw 0 queried (placement_version reg) 0;
                         vec_merged = merge_search_responses (e_ord env) vec 0 queried (placement_version reg) 0;
                         fused = rrf_fuse (e_fused env) (resp_hits kw_merged) (resp_hits vec_merged) (unat (sr_limit req));
                         answered = saturating_sub queried (word_of_nat (card (omitted_address ` set om)))
                     in Inr \<lparr>resp_hits = fused, resp_total_matched = of_len fused, resp_shard_id = ''coordinator'',
                          resp_shards_queried = queried, resp_shards_answered = answered,
                          resp_manifest = Some (build_manifest fused queried answered om 0 (placement_version reg) (e_elapsed env))\<rparr>))))"

fun stream_updates ::
  "(search_hit list \<Rightarrow> search_hit list) \<Rightarrow> u64 \<Rightarrow> progressive_merge \<Rightarrow> (omitted_shard + search_response) option list \<Rightarrow> search_update list" where
  "stream_updates ord elapsed pm [] = [pm_snapshot pm True elapsed]"
| "stream_updates ord elapsed pm (j # js) =
     (case j of
        Some (Inr resp) \<Rightarrow> (let pm' = pm_add ord pm resp in pm_snapshot pm' False elapsed # stream_updates ord elapsed pm' js)
      | Some (Inl om) \<Rightarrow> stream_updates ord elapsed (pm_omit pm om) js
      | None \<Rightarrow> stream_updates ord elapsed pm js)"

definition search_stream ::
  "svc_env \<Rightarrow> coordinator_service \<Rightarrow> string option \<Rightarrow> search_request \<Rightarrow> status + search_update list" where
  "search_stream env sv authz req =
     (case require (sv_auth sv) authz Read of
        Inl e \<Rightarrow> Inl e
      | Inr _ \<Rightarrow>
          (case sv_registry sv of
             None \<Rightarrow> Inl poisoned
           | Some reg \<Rightarrow>
               (let ls = leader_addresses (e_lo env) reg
                in Inr (stream_updates (e_ord env) (e_elapsed env)
                     (pm_new (of_len ls) (unat (sr_limit req)) (placement_version reg))
                     (map (\<lambda>addr. query_leader (e_net env) addr req) (e_sched env ls))))))"

record cluster_state =
  cs_shard_count :: u32
  cs_nodes :: "node_snapshot list"
  cs_vshard_group :: "u32 list"

definition get_cluster_state :: "svc_env \<Rightarrow> coordinator_service \<Rightarrow> string option \<Rightarrow> status + cluster_state" where
  "get_cluster_state env sv authz =
     (case require (sv_auth sv) authz Read of
        Inl e \<Rightarrow> Inl e
      | Inr _ \<Rightarrow>
          (case sv_registry sv of
             None \<Rightarrow> Inl poisoned
           | Some reg \<Rightarrow> Inr \<lparr>cs_shard_count = shard_count reg, cs_nodes = snapshot (e_lo env) (e_fo env) reg (e_now env),
               cs_vshard_group = vshards reg\<rparr>))"

section \<open>Operator calls\<close>

definition drain_ok_message :: "string \<Rightarrow> string" where
  "drain_ok_message nid = quoted nid @ '' marked draining; its group leader will remove it''"

definition drain_node ::
  "svc_env \<Rightarrow> coordinator_service \<Rightarrow> string option \<Rightarrow> string \<Rightarrow> coordinator_service \<times> (status + bool \<times> string)" where
  "drain_node env sv authz nid =
     (case require (sv_auth sv) authz Operator of
        Inl e \<Rightarrow> (sv, Inl e)
      | Inr _ \<Rightarrow>
          (case sv_registry sv of
             None \<Rightarrow> (sv, Inl poisoned)
           | Some reg \<Rightarrow>
               (case sv_control sv of
                  Some me \<Rightarrow>
                    (if \<not> knows_node reg nid then (sv, Inr (False, ''unknown node '' @ quoted nid))
                     else case propose me (e_write env (DrainNode nid)) of
                            Inr _ \<Rightarrow> (sv, Inr (True, drain_ok_message nid))
                          | Inl (ProposeLeader addr) \<Rightarrow> (sv, e_fwd_drain env addr nid authz)
                          | Inl (ProposeUnavailable m) \<Rightarrow> (sv, Inl (Unavailable m)))
                | None \<Rightarrow>
                    (let (reg', ok) = mark_draining reg nid
                     in (sv\<lparr>sv_registry := Some reg'\<rparr>,
                         Inr (ok, if ok then drain_ok_message nid else ''unknown node '' @ quoted nid))))))"

definition reassign_ok_message :: "u32 \<Rightarrow> u32 \<Rightarrow> string" where
  "reassign_ok_message v g = ''vshard '' @ show_u32 v @ '' -> group '' @ show_u32 g"

definition reassign_v_shard ::
  "svc_env \<Rightarrow> coordinator_service \<Rightarrow> string option \<Rightarrow> u32 \<Rightarrow> u32 \<Rightarrow> coordinator_service \<times> (status + bool \<times> string)" where
  "reassign_v_shard env sv authz v g =
     (case require (sv_auth sv) authz Operator of
        Inl e \<Rightarrow> (sv, Inl e)
      | Inr _ \<Rightarrow>
          (case sv_registry sv of
             None \<Rightarrow> (sv, Inl poisoned)
           | Some reg \<Rightarrow>
               (case sv_control sv of
                  Some me \<Rightarrow>
                    (case validate_reassign reg v g of
                       Inl m \<Rightarrow> (sv, Inr (False, m))
                     | Inr _ \<Rightarrow>
                         (case propose me (e_write env (ReassignVShard v g)) of
                            Inr _ \<Rightarrow> (sv, Inr (True, reassign_ok_message v g))
                          | Inl (ProposeLeader addr) \<Rightarrow> (sv, e_fwd_reassign env addr (v, g) authz)
                          | Inl (ProposeUnavailable m) \<Rightarrow> (sv, Inl (Unavailable m))))
                | None \<Rightarrow>
                    (let (reg', res) = reassign_vshard reg v g
                     in (sv\<lparr>sv_registry := Some reg'\<rparr>,
                         Inr (case res of Inr _ \<Rightarrow> (True, reassign_ok_message v g) | Inl m \<Rightarrow> (False, m)))))))"

section \<open>Properties\<close>

text \<open>
  C35: Operator calls are guarded. A caller without the operator scope gets an error from a drain
  or a reassignment, and nothing changes. On a replica of the state group neither call touches
  the local registry, whatever the group answers: only the committed log does. Without a
  group, a drain sets the marker of a node it knows and a reassignment moves the table entry
  exactly when both its arguments are in range, and each reports which of the two happened.
\<close>

theorem operator_calls_guarded:
  assumes "sv_registry sv = Some reg"
  shows "(\<not> granted (sv_auth sv) authz Operator \<longrightarrow>
      (\<exists>e. drain_node env sv authz nid = (sv, Inl e)) \<and> (\<exists>e. reassign_v_shard env sv authz v g = (sv, Inl e)))
    \<and> (sv_control sv \<noteq> None \<longrightarrow>
      fst (drain_node env sv authz nid) = sv \<and> fst (reassign_v_shard env sv authz v g) = sv)
    \<and> (granted (sv_auth sv) authz Operator \<longrightarrow> sv_control sv = None \<longrightarrow>
      (\<exists>msg. drain_node env sv authz nid =
        (sv\<lparr>sv_registry := Some (if knows_node reg nid then reg\<lparr>draining := insert nid (draining reg)\<rparr> else reg)\<rparr>, Inr (knows_node reg nid, msg)))
      \<and> (\<exists>msg. reassign_v_shard env sv authz v g =
        (sv\<lparr>sv_registry := Some (fst (reassign_vshard reg v g))\<rparr>, Inr (unat v < length (vshards reg) \<and> g < shard_count reg, msg))))"
proof (cases "granted (sv_auth sv) authz Operator")
  case True
  then have "require (sv_auth sv) authz Operator = Inr ()" by (simp add: require_iff)
  with assms True show ?thesis
    by (auto simp: drain_node_def reassign_v_shard_def mark_draining_def reassign_vshard_def validate_reassign_def Let_def
        split: option.splits sum.splits propose_error.splits)
next
  case False
  then obtain e where "require (sv_auth sv) authz Operator = Inl e" using require_cases require_iff by metis
  with assms False show ?thesis by (simp add: drain_node_def reassign_v_shard_def)
qed

theorem operator_calls_guarded_witness:
  "\<forall>env. \<exists>sv msg.
     (\<exists>e. drain_node env sv None ''n'' = (sv, Inl e))
     \<and> reassign_v_shard env (sv\<lparr>sv_auth := auth_default\<rparr>) None 1 0
       = (sv\<lparr>sv_auth := auth_default, sv_registry := Some (fst (reassign_vshard (the (with_vshards (registry_new 2) 4)) 1 0))\<rparr>, Inr (True, msg))"
proof
  fix env
  let ?reg = "the (with_vshards (registry_new 2) 4)"
  let ?sv = "(service_new ?reg None)\<lparr>sv_auth := \<lparr>tokens = [], enabled = True\<rparr>\<rparr>"
  let ?open = "?sv\<lparr>sv_auth := auth_default\<rparr>"
  have "\<not> granted (sv_auth ?sv) None Operator" by (simp add: granted_def)
  moreover have "granted (sv_auth ?open) None Operator" "sv_control ?open = None" "length (vshards ?reg) = 4" "shard_count ?reg = 2"
    by (simp_all add: granted_def auth_default_def service_new_def with_vshards_def registry_new_def)
  ultimately show "\<exists>sv msg. (\<exists>e. drain_node env sv None ''n'' = (sv, Inl e))
     \<and> reassign_v_shard env (sv\<lparr>sv_auth := auth_default\<rparr>) None 1 0
       = (sv\<lparr>sv_auth := auth_default, sv_registry := Some (fst (reassign_vshard ?reg 1 0))\<rparr>, Inr (True, msg))"
    using operator_calls_guarded [of ?sv ?reg None env "''n''" 1 0] operator_calls_guarded [of ?open ?reg None env "''n''" 1 0]
    by (intro exI [of _ ?sv]) (auto simp: service_new_def)
qed

end
