(* ===== verification/Server.thy ===== *)
theory Server
  imports Store Agg Auth Service
begin

text \<open>
  A shard's query service (\<open>crates/shard-node/src/server.rs\<close>) and the primary-backup
  replication between shard nodes (\<open>crates/shard-node/src/replication.rs\<close>). The store and the
  virtual-shard table sit behind locks, \<open>None\<close> when poisoned. A handler returns \<open>None\<close> when it
  panics. Its surroundings (the logarithm, the BM25 parameters, hash orders, the neighbour
  graph, the number formatter) are the record \<open>shard_env\<close>.
\<close>

section \<open>The query service\<close>

definition DEFAULT_KNN :: nat where
  "DEFAULT_KNN = 10"

record shard_env =
  h_ln :: "f64 \<Rightarrow> f64"
  h_params :: "f64 \<times> f64"
  h_ord :: "(nat \<times> f64) list \<Rightarrow> (nat \<times> f64) list"
  h_graph :: graph_search
  h_unst :: "(nat \<times> nat) list \<Rightarrow> (nat \<times> nat) list"
  h_asin :: "f64 \<Rightarrow> f64"
  h_show :: "f64 \<Rightarrow> string"
  h_dim :: nat

record shard_service =
  ss_store :: "shard_store option"
  ss_shard_id :: string
  ss_assignments :: "u32 list option option"

definition shard_service_new :: "shard_store \<Rightarrow> string \<Rightarrow> shard_service" where
  "shard_service_new st sid = \<lparr>ss_store = Some st, ss_shard_id = sid, ss_assignments = None\<rparr>"

definition with_assignments :: "shard_service \<Rightarrow> u32 list \<Rightarrow> shard_service" where
  "with_assignments sv table = sv\<lparr>ss_assignments := Some (Some table)\<rparr>"

definition owning_vshard_of :: "shard_service \<Rightarrow> string \<Rightarrow> int" where
  "owning_vshard_of sv key =
     (case ss_assignments sv of
        Some table \<Rightarrow>
          (let v = (case table of Some t \<Rightarrow> length t | None \<Rightarrow> 0)
           in if v = 0 then - 1
              else sint (ucast (fnv1a_64 (as_bytes key) mod word_of_nat v) :: u32))
      | None \<Rightarrow> - 1)"

definition shard_hit :: "shard_service \<Rightarrow> index_kind \<Rightarrow> scored_hit \<Rightarrow> search_hit" where
  "shard_hit sv kind h =
     \<lparr>hit_document = Some (sh_doc h), hit_score = sh_score h,
      hit_prov = Some \<lparr>source_group = ss_shard_id sv, prov_observed_at = observed_at (sh_doc h), prov_index = kind,
        prov_score = sh_score h, owning_vshard = owning_vshard_of sv (icao24 (sh_doc h))\<rparr>\<rparr>"

definition shard_response :: "shard_service \<Rightarrow> search_hit list \<Rightarrow> nat \<Rightarrow> search_response" where
  "shard_response sv hits n =
     \<lparr>resp_hits = hits, resp_total_matched = word_of_nat n, resp_shard_id = ss_shard_id sv,
      resp_shards_queried = 0, resp_shards_answered = 0, resp_manifest = None\<rparr>"

definition shard_search ::
  "shard_env \<Rightarrow> shard_service \<Rightarrow> search_request \<Rightarrow> (status + search_response) option" where
  "shard_search env sv req =
     (case check_filter (h_show env) (sr_filter req) of
        Inl e \<Rightarrow> Some (Inl e)
      | Inr _ \<Rightarrow>
          (case ss_store sv of
             None \<Rightarrow> Some (Inl (Internal ''store lock poisoned''))
           | Some st \<Rightarrow>
               (let limit = unat (sr_limit req);
                    fetch = (if sr_filter req \<noteq> None then 0 else limit)
                in map_option (\<lambda>(total_matched, results).
                     (let hits = map (shard_hit sv IndexKeyword) (filter (\<lambda>h. passes (sh_doc h) (sr_filter req)) results);
                          n = (if sr_filter req \<noteq> None then length hits else total_matched);
                          cut = (if sr_filter req \<noteq> None \<and> limit \<noteq> 0 \<and> limit < length hits then take limit hits else hits)
                      in Inr (shard_response sv cut n)))
                     (store_search (h_ln env) (h_params env) (h_ord env) st (sr_query req) fetch))))"

definition dims_message :: "nat \<Rightarrow> nat \<Rightarrow> string" where
  "dims_message got expected =
     ''query vector has '' @ show_nat got @ '' dims, this shard embeds at '' @ show_nat expected"

definition saturating_mul :: "nat \<Rightarrow> nat \<Rightarrow> nat" where
  "saturating_mul a b = min (a * b) (2 ^ 64 - 1)"

definition shard_vector_search ::
  "shard_env \<Rightarrow> shard_service \<Rightarrow> vector_search_request \<Rightarrow> (status + search_response) option" where
  "shard_vector_search env sv req =
     (let k = (if vr_limit req = 0 then DEFAULT_KNN else unat (vr_limit req))
      in case check_filter (h_show env) (vr_filter req) of
           Inl e \<Rightarrow> Some (Inl e)
         | Inr _ \<Rightarrow>
             (case ss_store sv of
                None \<Rightarrow> Some (Inl (Internal ''store lock poisoned''))
              | Some st \<Rightarrow>
                  (if length (vr_vector req) \<noteq> h_dim env
                   then Some (Inl (InvalidArgument (dims_message (length (vr_vector req)) (h_dim env))))
                   else
                     let fetch = (if vr_filter req \<noteq> None then saturating_mul k 4 else k)
                     in map_option (\<lambda>found.
                          (let hits = take k (map (shard_hit sv IndexVector) (filter (\<lambda>h. passes (sh_doc h) (vr_filter req)) found))
                           in Inr (shard_response sv hits (length hits))))
                          (store_vector_search (h_graph env) (h_unst env) st (vr_vector req) fetch))))"

definition shard_aggregate ::
  "shard_env \<Rightarrow> shard_service \<Rightarrow> aggregate_request \<Rightarrow> (status + aggregate_partial option) option" where
  "shard_aggregate env sv req =
     (case check_filter (h_show env) (a_filter req) of
        Inl e \<Rightarrow> Some (Inl e)
      | Inr _ \<Rightarrow>
          (case ss_store sv of
             None \<Rightarrow> Some (Inl (Internal ''store lock poisoned''))
           | Some st \<Rightarrow>
               Option.bind (matching (h_ln env) (h_params env) (h_ord env) st (a_query req)) (\<lambda>ds.
                 map_option (\<lambda>p. Inr (Some p)) (partial (h_asin env) (h_show env) (filter (\<lambda>d. passes d (a_filter req)) ds) req))))"

section \<open>Replication\<close>

text \<open>The follower's side: a batch is inserted under the write lock; a panic poisons it.\<close>

definition replicate_rpc ::
  "(string \<Rightarrow> vec32) \<Rightarrow> shard_store option \<Rightarrow> flight_document list \<Rightarrow> shard_store option \<times> (status + u32) option" where
  "replicate_rpc emb st ds =
     (case st of
        None \<Rightarrow> (None, Some (Inl (Internal ''store lock poisoned'')))
      | Some s \<Rightarrow>
          (case store_insert_all emb s ds of
             None \<Rightarrow> (None, None)
           | Some s' \<Rightarrow> (Some s', Some (Inr (of_len ds)))))"

text \<open>
  The leader's side: the followers are a map from addresses to stores and \<open>up\<close> says which of
  them a batch reaches. An unreachable follower is skipped. \<open>discover\<close> is the coordinator's
  answer for one batch, empty when it cannot be asked.
\<close>

definition discover_followers :: "(status + string list) option \<Rightarrow> string list" where
  "discover_followers answer = (case answer of Some (Inr addrs) \<Rightarrow> addrs | _ \<Rightarrow> [])"

definition push_batch ::
  "(string \<Rightarrow> vec32) \<Rightarrow> (string \<Rightarrow> bool) \<Rightarrow> flight_document list \<Rightarrow> (string \<Rightarrow> shard_store option) \<Rightarrow> string \<Rightarrow>
    (string \<Rightarrow> shard_store option)" where
  "push_batch emb up ds stores addr =
     (if up addr then stores(addr := fst (replicate_rpc emb (stores addr) ds)) else stores)"

definition replicate_to_followers ::
  "(string \<Rightarrow> vec32) \<Rightarrow> (string \<Rightarrow> bool) \<Rightarrow> string list \<Rightarrow> flight_document list \<Rightarrow>
    (string \<Rightarrow> shard_store option) \<Rightarrow> (string \<Rightarrow> shard_store option)" where
  "replicate_to_followers emb up fs ds stores =
     (if fs = [] \<or> ds = [] then stores else foldl (push_batch emb up ds) stores fs)"

text \<open>One round per batch received: what the coordinator answers, who is up, the batch.\<close>

fun run_replication ::
  "(string \<Rightarrow> vec32) \<Rightarrow> ((status + string list) option \<times> (string \<Rightarrow> bool) \<times> flight_document list) list \<Rightarrow>
    (string \<Rightarrow> shard_store option) \<Rightarrow> (string \<Rightarrow> shard_store option)" where
  "run_replication emb [] stores = stores"
| "run_replication emb ((answer, up, ds) # rounds) stores =
     run_replication emb rounds (replicate_to_followers emb up (discover_followers answer) ds stores)"

section \<open>What a shard answers\<close>

text \<open>The matches of a request in a corpus, ranked: every document with a query term that passes the filter.\<close>

definition answer_spec :: "shard_env \<Rightarrow> (string \<rightharpoonup> flight_document) \<Rightarrow> search_request \<Rightarrow> scored_hit list" where
  "answer_spec env c req =
     filter (\<lambda>h. passes (sh_doc h) (sr_filter req)) (search_spec (h_ln env) (h_params env) c (tokenize (sr_query req)))"

definition comparable :: "shard_env \<Rightarrow> (string \<rightharpoonup> flight_document) \<Rightarrow> search_request \<Rightarrow> bool" where
  "comparable env c req \<longleftrightarrow> (\<forall>d \<in> ran c. bm25 (h_ln env) (h_params env) c (tokenize (sr_query req)) d \<noteq> NaN)"

lemma passes_None [simp]: "passes d None"
  by (simp add: passes_def)

lemma filter_passes_None [simp]: "filter (\<lambda>h. passes (sh_doc h) None) xs = xs"
  by simp

lemma truncate_limit_map: "truncate_limit n (map f xs) = map f (truncate_limit n xs)"
  by (simp add: truncate_limit_eq take_map)

lemma length_search_spec: "finite (dom c) \<Longrightarrow> length (search_spec ln1 P c terms) = card (matched_keys c terms)"
proof -
  assume "finite (dom c)"
  moreover have "matched_keys c terms \<subseteq> dom c" by (auto simp: matched_keys_def)
  ultimately have "finite (matched_keys c terms)" by (rule rev_finite_subset)
  then show ?thesis by (simp add: search_spec_def)
qed

lemma shard_search_spec:
  assumes inv: "store_inv emb st" and ord: "iteration_order (h_ord env)" and st: "ss_store sv = Some st"
    and valid: "check_filter (h_show env) (sr_filter req) = Inr u" and cmp: "comparable env (store_content st) req"
  shows "shard_search env sv req = Some (Inr (shard_response sv
      (map (shard_hit sv IndexKeyword) (truncate_limit (unat (sr_limit req)) (answer_spec env (store_content st) req)))
      (length (answer_spec env (store_content st) req))))"
proof -
  let ?c = "store_content st" and ?ts = "tokenize (sr_query req)" and ?n = "unat (sr_limit req)"
  have idx: "index_inv (keyword st)" using inv by (simp add: store_inv_def)
  have found: "store_search (h_ln env) (h_params env) (h_ord env) st (sr_query req) k
      = Some (card (matched_keys ?c ?ts), truncate_limit k (search_spec (h_ln env) (h_params env) ?c ?ts))" for k
    using index_search_total [OF idx ord, of "h_ln env" "h_params env" "sr_query req" k] cmp
    by (auto simp: store_search_def comparable_def)
  show ?thesis
  proof (cases "sr_filter req")
    case None
    with valid st found [of ?n] length_search_spec [OF finite_content [OF idx]] show ?thesis
      by (simp add: shard_search_def answer_spec_def Let_def)
  next
    case (Some f)
    with valid st found [of 0] show ?thesis
      by (simp add: shard_search_def answer_spec_def Let_def truncate_limit_def take_map)
  qed
qed

text \<open>
  C7: A shard's keyword answer is exact. On the store that any history of inserts and removals
  leaves, and for a filter that passes validation, the answer's hits are the first \<open>limit\<close> of
  the ranked documents that contain a query term and pass the filter (the filter is applied
  before the cut, never after it), its total counts all of them, and every hit carries the
  shard's provenance. A filter that fails validation is refused before the store is read.
\<close>

theorem shard_search_exact:
  assumes "iteration_order (h_ord env)"
    and "ss_store sv = view_run (store_insert emb) (store_remove emb) (with_quantized store_new m) ops"
    and "comparable env (map_run icao24 ops) req"
  shows "shard_search env sv req = Some (case check_filter (h_show env) (sr_filter req) of
      Inl e \<Rightarrow> Inl e
    | Inr _ \<Rightarrow> Inr (shard_response sv
        (map (shard_hit sv IndexKeyword) (truncate_limit (unat (sr_limit req)) (answer_spec env (map_run icao24 ops) req)))
        (length (answer_spec env (map_run icao24 ops) req))))"
proof (cases "check_filter (h_show env) (sr_filter req)")
  case (Inl e)
  then show ?thesis by (simp add: shard_search_def)
next
  case (Inr u)
  obtain st where "view_run (store_insert emb) (store_remove emb) (with_quantized store_new m) ops = Some st"
    "store_inv emb st" "store_content st = map_run icao24 ops" using store_run_spec by blast
  with assms shard_search_spec [of emb st env sv req u] Inr show ?thesis by simp
qed

definition sample_env :: shard_env where
  "sample_env = \<lparr>h_ln = (\<lambda>_. fone), h_params = (fone, fzero), h_ord = rev, h_graph = (\<lambda>_ _ _ _. []), h_unst = rev,
     h_asin = (\<lambda>x. x), h_show = (\<lambda>_. ''?''), h_dim = EMBED_DIM\<rparr>"

definition sample_filter :: filter_msg where
  "sample_filter = \<lparr>conditions = [\<lparr>fc_field = ''callsign'', fc_test = Some (Equals ''ual 9'')\<rparr>]\<rparr>"

definition sample_service :: shard_service where
  "sample_service = \<lparr>ss_store = view_run (store_insert sample_embed) (store_remove sample_embed) (with_quantized store_new False) sample_ops,
     ss_shard_id = ''0'', ss_assignments = Some (Some [0, 0])\<rparr>"

lemma sample_spec:
  "search_spec (\<lambda>_. fone) (fone, fzero) (map_of sample_corpus) [''ual''] =
    [\<lparr>sh_doc = sample_doc ''c'' ''UAL UAL UAL'', sh_score = Fin False (3 / 2)\<rparr>, \<lparr>sh_doc = sample_doc ''b'' ''UAL 9'', sh_score = fone\<rparr>]"
proof -
  let ?c = "map_of sample_corpus"
  have "matched_keys ?c [''ual''] = {''b'', ''c''}"
    by (auto simp: matched_keys_def sample_corpus_def sample_tokens split: if_splits)
  moreover have "?c ''b'' = Some (sample_doc ''b'' ''UAL 9'')" "?c ''c'' = Some (sample_doc ''c'' ''UAL UAL UAL'')"
    by (simp_all add: sample_corpus_def)
  moreover have "sorted_list_of_set {''b'', ''c''} = [''b'', ''c'']" by code_simp
  ultimately show ?thesis
    by (simp add: search_spec_def sample_scores cmp_scored_def f64_cmp_or_equal_def f64_partial_cmp_def f64_lt_def f64_eq_def)
qed

lemma sample_comparable: "sr_query req = ''ual'' \<Longrightarrow> comparable sample_env (map_of sample_corpus) req"
proof -
  have "ran (map_of sample_corpus) = {sample_doc ''b'' ''UAL 9'', sample_doc ''c'' ''UAL UAL UAL''}"
    using ran_distinct [OF sample_wf] by (auto simp: sample_corpus_def)
  then show "sr_query req = ''ual'' \<Longrightarrow> comparable sample_env (map_of sample_corpus) req"
    by (simp add: comparable_def sample_env_def sample_tokens sample_scores)
qed

lemma sample_filtering:
  "check_filter (\<lambda>_. ''?'') (Some sample_filter) = Inr ()"
  "passes (sample_doc ''b'' ''UAL 9'') (Some sample_filter)"
  "\<not> passes (sample_doc ''c'' ''UAL UAL UAL'') (Some sample_filter)"
  by code_simp+

theorem shard_search_exact_witness:
  "shard_search sample_env sample_service \<lparr>sr_query = ''ual'', sr_limit = 1, sr_filter = Some sample_filter\<rparr>
    = Some (Inr (shard_response sample_service
        [shard_hit sample_service IndexKeyword \<lparr>sh_doc = sample_doc ''b'' ''UAL 9'', sh_score = fone\<rparr>] 1))"
proof -
  let ?req = "\<lparr>sr_query = ''ual'', sr_limit = 1, sr_filter = Some sample_filter\<rparr>"
  have "answer_spec sample_env (map_of sample_corpus) ?req = [\<lparr>sh_doc = sample_doc ''b'' ''UAL 9'', sh_score = fone\<rparr>]"
    by (simp add: answer_spec_def sample_env_def sample_tokens sample_spec sample_filtering)
  moreover have "iteration_order (h_ord sample_env)" "check_filter (h_show sample_env) (sr_filter ?req) = Inr ()"
    "ss_store sample_service = view_run (store_insert sample_embed) (store_remove sample_embed) (with_quantized store_new False) sample_ops"
    by (simp_all add: sample_env_def sample_filtering sample_service_def)
  ultimately show ?thesis
    using shard_search_exact [of sample_env sample_service sample_embed False sample_ops ?req] sample_comparable [of ?req]
    unfolding sample_run by (simp add: truncate_limit_eq)
qed

end
