(* ===== verification/Cluster_Search.thy ===== *)
theory Cluster_Search
  imports Server
begin

text \<open>
  The coordinator's search over the shards that answer it: the network of \<open>Service\<close> is
  instantiated by the shard services of \<open>Server\<close>. A call that a shard refuses is, for the
  fan-out, a shard that cannot be reached (\<open>query_leader\<close> in \<open>fanout.rs\<close>).
\<close>

definition shard_net ::
  "(string \<Rightarrow> shard_env) \<Rightarrow> (string \<Rightarrow> shard_service) \<Rightarrow> string \<Rightarrow> search_request \<Rightarrow> search_response rpc_outcome" where
  "shard_net envs services addr req =
     (case shard_search (envs addr) (services addr) req of Some (Inr resp) \<Rightarrow> Answered resp | _ \<Rightarrow> Unreachable)"

text \<open>The hits a shard has for a request, ranked, before any limit.\<close>

definition shard_matches :: "shard_env \<Rightarrow> shard_service \<Rightarrow> (string \<rightharpoonup> flight_document) \<Rightarrow> search_request \<Rightarrow> search_hit list" where
  "shard_matches env sv c req = map (shard_hit sv IndexKeyword) (answer_spec env c req)"

section \<open>The matches of one shard\<close>

lemma shard_hit_fields [simp]:
  "hit_document (shard_hit sv kind h) = Some (sh_doc h)" "hit_score (shard_hit sv kind h) = sh_score h"
  "icao24_of (shard_hit sv kind h) = icao24 (sh_doc h)"
  by (simp_all add: shard_hit_def icao24_of_def)

lemma cmp_shard_hit: "cmp_hits (shard_hit sv kind a) (shard_hit sv kind b) = cmp_scored a b"
  by (simp add: cmp_hits_def cmp_scored_def)

text \<open>A corpus: finitely many documents, each under its own key.\<close>

definition keyed :: "(string \<rightharpoonup> flight_document) \<Rightarrow> bool" where
  "keyed c \<longleftrightarrow> finite (dom c) \<and> (\<forall>k d. c k = Some d \<longrightarrow> icao24 d = k)"

lemma keyed_run: "keyed (map_run icao24 ops)"
  using index_run_spec [of ops] content_icao24 finite_content unfolding keyed_def by metis

lemma matched_keys_finite: "keyed c \<Longrightarrow> finite (matched_keys c terms)"
  by (rule rev_finite_subset [of "dom c"]) (auto simp: matched_keys_def keyed_def)

lemma answer_spec_set:
  assumes "keyed c"
  shows "sh_doc ` set (answer_spec env c req)
    = {d. c (icao24 d) = Some d \<and> set (tokenize (sr_query req)) \<inter> set (doc_tokens d) \<noteq> {} \<and> passes d (sr_filter req)}"
proof -
  let ?ts = "tokenize (sr_query req)"
  have "set (search_spec (h_ln env) (h_params env) c ?ts) = spec_hit (h_ln env) (h_params env) c ?ts ` matched_keys c ?ts"
    using matched_keys_finite [OF assms] by (simp add: search_spec_def)
  then have "sh_doc ` set (answer_spec env c req) = {d \<in> (\<lambda>k. the (c k)) ` matched_keys c ?ts. passes d (sr_filter req)}"
    by (force simp: answer_spec_def)
  moreover have "d \<in> (\<lambda>k. the (c k)) ` matched_keys c ?ts \<longleftrightarrow> c (icao24 d) = Some d \<and> set ?ts \<inter> set (doc_tokens d) \<noteq> {}" for d
  proof -
    have "d \<in> (\<lambda>k. the (c k)) ` matched_keys c ?ts \<longleftrightarrow> (\<exists>k. c k = Some d \<and> set ?ts \<inter> set (doc_tokens d) \<noteq> {})"
    proof
      assume "d \<in> (\<lambda>k. the (c k)) ` matched_keys c ?ts"
      then obtain k e where "c k = Some e" "set ?ts \<inter> set (doc_tokens e) \<noteq> {}" "d = the (c k)"
        unfolding matched_keys_def by blast
      then show "\<exists>k. c k = Some d \<and> set ?ts \<inter> set (doc_tokens d) \<noteq> {}" by auto
    next
      assume "\<exists>k. c k = Some d \<and> set ?ts \<inter> set (doc_tokens d) \<noteq> {}"
      then obtain k where "c k = Some d" "k \<in> matched_keys c ?ts" unfolding matched_keys_def by blast
      then show "d \<in> (\<lambda>k. the (c k)) ` matched_keys c ?ts" by (intro image_eqI [of _ _ k]) simp_all
    qed
    also have "\<dots> \<longleftrightarrow> c (icao24 d) = Some d \<and> set ?ts \<inter> set (doc_tokens d) \<noteq> {}" using assms unfolding keyed_def by metis
    finally show ?thesis .
  qed
  ultimately show ?thesis by blast
qed

lemma answer_spec_distinct:
  assumes "keyed c"
  shows "distinct (map (\<lambda>h. icao24 (sh_doc h)) (answer_spec env c req))"
proof -
  let ?ks = "sorted_list_of_set (matched_keys c (tokenize (sr_query req)))"
  have "map (\<lambda>k. icao24 (the (c k))) ?ks = ?ks"
    using assms matched_keys_finite [OF assms] by (intro map_idI) (auto simp: matched_keys_def keyed_def)
  then show ?thesis
    unfolding answer_spec_def search_spec_def by (intro distinct_map_filter) (simp add: comp_def)
qed

lemma answer_spec_sorted:
  assumes "keyed c" and "comparable env c req"
  shows "cmp_sorted cmp_scored (answer_spec env c req)"
proof -
  have "the (c k) \<in> ran c" if "k \<in> matched_keys c terms" for k terms
    using that by (auto simp: matched_keys_def ran_def)
  then have "cmp_sorted cmp_scored (search_spec (h_ln env) (h_params env) c (tokenize (sr_query req)))"
    unfolding search_spec_def using assms(2) matched_keys_finite [OF assms(1)]
    by (intro scoring.sort_sorted) (auto simp: comparable_def)
  then show ?thesis by (simp add: answer_spec_def sorted_wrt_filter)
qed

lemma answer_spec_scored:
  assumes "keyed c" and "comparable env c req"
  shows "set (answer_spec env c req) \<subseteq> {h. sh_score h \<noteq> NaN}"
proof -
  have "the (c k) \<in> ran c" if "k \<in> matched_keys c terms" for k terms
    using that by (auto simp: matched_keys_def ran_def)
  then show ?thesis
    using assms matched_keys_finite [OF assms(1)] by (auto simp: answer_spec_def search_spec_def comparable_def)
qed

lemma shard_matches_ranked:
  assumes key: "keyed c" and cmp: "comparable env c req"
  shows "sort_by cmp_hits (shard_matches env sv c req) = shard_matches env sv c req"
    and "set (shard_matches env sv c req) \<subseteq> scored"
    and "map icao24_of (shard_matches env sv c req) = map (\<lambda>h. icao24 (sh_doc h)) (answer_spec env c req)"
proof -
  show scored: "set (shard_matches env sv c req) \<subseteq> scored"
    using answer_spec_scored [OF key cmp] by (auto simp: shard_matches_def)
  show keys: "map icao24_of (shard_matches env sv c req) = map (\<lambda>h. icao24 (sh_doc h)) (answer_spec env c req)"
    by (simp add: shard_matches_def)
  have "cmp_sorted cmp_hits (shard_matches env sv c req)"
    using answer_spec_sorted [OF key cmp] by (simp add: shard_matches_def sorted_wrt_map cmp_shard_hit)
  moreover have "a = b" if "a \<in> set (shard_matches env sv c req)" "b \<in> set (shard_matches env sv c req)" "cmp_hits a b = Equal" for a b
    using that cmp_hits_Equal [of a b] scored answer_spec_distinct [OF key, of env req, folded keys]
    by (metis distinct_map inj_onD subsetD)
  ultimately show "sort_by cmp_hits (shard_matches env sv c req) = shard_matches env sv c req"
    using scored by (intro ranking.sorted_unique) (auto intro: ranking.sort_sorted)
qed

section \<open>A search over the cluster\<close>

lemma gather_all:
  assumes "iteration_order sched" and "\<And>a. a \<in> set ls \<Longrightarrow> net a req = Answered (r a)"
  shows "scatter_gather net sched ls req = \<lparr>responses = map r (sched ls), omitted = []\<rparr>"
proof -
  have js: "map (\<lambda>addr. query_leader net addr req) (sched ls) = map (\<lambda>a. Some (Inr (r a))) (sched ls)"
    using assms by (simp add: query_leader_def iteration_order_set)
  have fold: "foldl gather_step fo (map (\<lambda>a. Some (Inr (r a))) xs) = fo\<lparr>responses := responses fo @ map r xs\<rparr>" for fo xs
    by (induction xs arbitrary: fo) (simp_all add: gather_step_def)
  show ?thesis unfolding scatter_gather_def js fold by simp
qed

lemma stream_all:
  "last (stream_updates ord e pm (map (\<lambda>r. Some (Inr r)) rs)) = pm_snapshot (foldl (pm_add ord) pm rs) True e"
proof (induction rs arbitrary: pm)
  case (Cons r rs)
  moreover have "stream_updates ord e pm js \<noteq> []" for pm js
    by (induction js arbitrary: pm) (auto simp: Let_def split: option.split sum.split)
  ultimately show ?case by (simp add: Let_def)
qed simp

lemma sum_totals:
  "foldl (\<lambda>t r. t + resp_total_matched r) t (map (\<lambda>a. shard_response (sv a) (hits a) (n a)) ls)
    = t + word_of_nat (sum_list (map n ls))"
  by (induction ls arbitrary: t) (simp_all add: shard_response_def)

lemma distinct_concat_matches:
  assumes "distinct ls" and "\<And>a. a \<in> set ls \<Longrightarrow> distinct (map f (xs a))"
    and "\<And>a b. a \<in> set ls \<Longrightarrow> b \<in> set ls \<Longrightarrow> a \<noteq> b \<Longrightarrow> f ` set (xs a) \<inter> f ` set (xs b) = {}"
  shows "distinct (map f (concat (map xs ls)))"
  using assms
proof (induction ls)
  case (Cons a ls)
  have "f ` set (xs a) \<inter> f ` set (xs b) = {}" if "b \<in> set ls" for b
    using Cons.prems(1) by (intro Cons.prems(3)) (use that in auto)
  with Cons show ?case by fastforce
qed simp

lemma iteration_order_distinct: "iteration_order f \<Longrightarrow> distinct (f xs) \<longleftrightarrow> distinct xs"
  by (metis iteration_order_mset mset_eq_imp_distinct_iff)

lemma shard_matches_keys: "keyed c \<Longrightarrow> icao24_of ` set (shard_matches env sv c req) \<subseteq> dom c"
proof -
  assume key: "keyed c"
  have "icao24_of ` set (shard_matches env sv c req) = icao24 ` sh_doc ` set (answer_spec env c req)"
    by (simp add: shard_matches_def image_image)
  also have "sh_doc ` set (answer_spec env c req) \<subseteq> {d. c (icao24 d) = Some d}"
    using answer_spec_set [OF key, of env req] by blast
  then have "icao24 ` sh_doc ` set (answer_spec env c req) \<subseteq> dom c" by fast
  finally show ?thesis .
qed

text \<open>Disjoint slices: no aircraft twice among all matches, and the limit may be pushed to the shards.\<close>

lemma all_matches_once:
  assumes "distinct as" and key: "\<And>a. keyed (c a)"
    and disjoint: "\<And>a b. a \<in> set as \<Longrightarrow> b \<in> set as \<Longrightarrow> a \<noteq> b \<Longrightarrow> dom (c a) \<inter> dom (c b) = {}"
  shows "distinct (map icao24_of (concat (map (\<lambda>a. shard_matches (envs a) (svs a) (c a) req) as)))"
proof (rule distinct_concat_matches [OF assms(1)])
  fix a b assume "a \<in> set as" "b \<in> set as" "a \<noteq> b"
  from disjoint [OF this] show "icao24_of ` set (shard_matches (envs a) (svs a) (c a) req) \<inter> icao24_of ` set (shard_matches (envs b) (svs b) (c b) req) = {}"
    using Int_mono [OF shard_matches_keys [OF key [of a]] shard_matches_keys [OF key [of b]]] by (metis subset_empty)
next
  fix a show "distinct (map icao24_of (shard_matches (envs a) (svs a) (c a) req))"
    using answer_spec_distinct [OF key] by (simp add: shard_matches_def comp_def)
qed

lemma all_matches_docs:
  assumes "\<And>a. keyed (c a)"
  shows "hit_document ` set (concat (map (\<lambda>a. shard_matches (envs a) (svs a) (c a) req) as))
    = Some ` {d. (\<exists>a \<in> set as. c a (icao24 d) = Some d)
        \<and> set (tokenize (sr_query req)) \<inter> set (doc_tokens d) \<noteq> {} \<and> passes d (sr_filter req)}"
proof -
  have "hit_document ` set (shard_matches (envs a) (svs a) (c a) req) = Some ` sh_doc ` set (answer_spec (envs a) (c a) req)" for a
    by (simp add: shard_matches_def image_image)
  then have "hit_document ` set (concat (map (\<lambda>a. shard_matches (envs a) (svs a) (c a) req) as))
      = (\<Union>a \<in> set as. Some ` sh_doc ` set (answer_spec (envs a) (c a) req))"
    by (simp only: set_concat set_map image_Union image_image)
  then show ?thesis unfolding answer_spec_set [OF assms] by blast
qed

lemma pushdown:
  assumes ord: "iteration_order ord" and rank: "\<And>a. sort_by cmp_hits (xs a) = xs a" and sc: "\<And>a. set (xs a) \<subseteq> scored"
    and once: "distinct (map icao24_of (concat (map xs as)))"
    and hits: "\<And>a. resp_hits (r a) = truncate_limit n (xs a)"
  shows "resp_hits (merge_search_responses ord \<lparr>responses = map r as, omitted = om\<rparr> n q v e)
      = truncate_limit n (sort_by cmp_hits (concat (map xs as)))"
    and "pm_hits (foldl (pm_add ord) (pm_new q n v) (map r as)) = truncate_limit n (sort_by cmp_hits (concat (map xs as)))"
proof -
  have scored: "set (concat (map xs as)) \<subseteq> scored"
  proof
    fix h assume "h \<in> set (concat (map xs as))"
    then obtain a where "h \<in> set (xs a)" by auto
    then show "h \<in> scored" using sc by blast
  qed
  have top: "all_hits (map r as) = concat (map (\<lambda>xs. truncate_limit n (sort_by cmp_hits xs)) (map xs as))"
    by (simp only: rank hits map_map comp_def)
  have ok: "set (all_hits (map r as)) \<subseteq> scored" "distinct (map icao24_of (all_hits (map r as)))"
    unfolding top using set_topk_concat [of n "map xs as"] scored distinct_topk_concat [OF once] by blast+
  have pushed: "truncate_limit n (sort_by cmp_hits (all_hits (map r as))) = truncate_limit n (sort_by cmp_hits (concat (map xs as)))"
    unfolding top using topk_concat [of "[]" "map xs as" n] scored once by simp
  show "resp_hits (merge_search_responses ord \<lparr>responses = map r as, omitted = om\<rparr> n q v e)
      = truncate_limit n (sort_by cmp_hits (concat (map xs as)))"
    using rank_dedup_fresh [OF ord ok] pushed by simp
  show "pm_hits (foldl (pm_add ord) (pm_new q n v) (map r as)) = truncate_limit n (sort_by cmp_hits (concat (map xs as)))"
    using progressive_hits [OF ord, of "[]" "map r as" "pm_new q n v"] ok pushed by (simp add: pm_new_def truncate_limit_def [of n "[]"])
qed

text \<open>
  C1: Search over a cluster is exact end to end. When the leaders' slices are disjoint and
  every leader answers, the coordinator's hits are the first \<open>limit\<close> of one ranked list that
  holds exactly the documents, of any leader's store, that contain a query term and pass the
  filter, each aircraft once; the total counts them all and the manifest reports full
  coverage. The last update of a streaming search for the same request carries the same hits.
\<close>

theorem cluster_search_exact:
  assumes orders: "iteration_order (e_sched env)" "iteration_order (e_ord env)" "\<forall>a. iteration_order (h_ord (envs a))"
    and reg: "sv_registry sv = Some reg" and ls: "leader_addresses (e_lo env) reg = ls" "distinct ls"
    and net: "e_net env = shard_net envs services"
    and stores: "\<forall>a. ss_store (services a) = view_run (store_insert emb) (store_remove emb) (with_quantized store_new m) (ops a)"
    and disjoint: "\<forall>a \<in> set ls. \<forall>b \<in> set ls. a \<noteq> b \<longrightarrow> dom (map_run icao24 (ops a)) \<inter> dom (map_run icao24 (ops b)) = {}"
    and cmp: "\<forall>a. comparable (envs a) (map_run icao24 (ops a)) req"
    and auth: "granted (sv_auth sv) authz Read"
    and fmt: "\<forall>a. h_show (envs a) = e_show env" and valid: "check_filter (e_show env) (sr_filter req) = Inr ()"
  shows "\<exists>ranked resp sv' updates. search_rpc env sv authz req ms = (sv', Inr resp)
    \<and> resp_hits resp = truncate_limit (unat (sr_limit req)) ranked
    \<and> cmp_sorted cmp_hits ranked \<and> distinct (map icao24_of ranked)
    \<and> hit_document ` set ranked = Some ` {d. (\<exists>a \<in> set ls. map_run icao24 (ops a) (icao24 d) = Some d)
        \<and> set (tokenize (sr_query req)) \<inter> set (doc_tokens d) \<noteq> {} \<and> passes d (sr_filter req)}
    \<and> resp_total_matched resp = of_len ranked
    \<and> resp_shards_queried resp = of_len ls \<and> resp_shards_answered resp = of_len ls
    \<and> search_stream env sv authz req = Inr updates \<and> upd_hits (last updates) = resp_hits resp"
proof -
  let ?c = "\<lambda>a. map_run icao24 (ops a)" and ?n = "unat (sr_limit req)" and ?as = "e_sched env ls"
  let ?ms = "\<lambda>a. shard_matches (envs a) (services a) (?c a) req"
  let ?r = "\<lambda>a. shard_response (services a) (truncate_limit ?n (?ms a)) (length (?ms a))"
  let ?all = "concat (map ?ms ?as)"
  note ranked = shard_matches_ranked [OF keyed_run cmp [rule_format]]
  have as: "distinct ?as" "set ?as = set ls" "length ?as = length ls"
    using iteration_order_distinct [OF orders(1)] iteration_order_set [OF orders(1)] iteration_order_length [OF orders(1)] ls(2)
    by auto
  have answer: "shard_net envs services a req = Answered (?r a)" for a
  proof -
    obtain st where "view_run (store_insert emb) (store_remove emb) (with_quantized store_new m) (ops a) = Some st"
      "store_inv emb st" "store_content st = ?c a" using store_run_spec by blast
    with orders(3) stores cmp fmt valid shard_search_spec [of emb st "envs a" "services a" req "()"] show ?thesis
      by (simp add: shard_net_def shard_matches_def truncate_limit_map)
  qed
  have once: "distinct (map icao24_of ?all)"
    using all_matches_once [OF as(1) keyed_run] disjoint as(2) by simp
  have scored: "set ?all \<subseteq> scored"
    unfolding set_concat set_map UN_subset_iff using ranked(2) by blast
  have hits: "resp_hits (?r a) = truncate_limit ?n (?ms a)" for a by (simp add: shard_response_def)
  note push = pushdown [OF orders(2) ranked(1,2) once hits]
  have gathered: "scatter_gather (e_net env) (e_sched env) ls req = \<lparr>responses = map ?r ?as, omitted = []\<rparr>"
    unfolding net by (rule gather_all [OF orders(1)]) (rule answer)
  have granted: "require (sv_auth sv) authz Read = Inr ()" using auth by (simp add: require_iff)
  have docs: "hit_document ` set ?all = Some ` {d. (\<exists>a \<in> set ls. ?c a (icao24 d) = Some d)
      \<and> set (tokenize (sr_query req)) \<inter> set (doc_tokens d) \<noteq> {} \<and> passes d (sr_filter req)}"
    unfolding all_matches_docs [OF keyed_run] as(2) by (rule refl)
  let ?merge = "merge_search_responses (e_ord env) \<lparr>responses = map ?r ?as, omitted = []\<rparr> ?n (of_len ls) (placement_version reg) (e_elapsed env)"
  let ?updates = "stream_updates (e_ord env) (e_elapsed env) (pm_new (of_len ls) ?n (placement_version reg)) (map (\<lambda>r. Some (Inr r)) (map ?r ?as))"
  have "resp_total_matched ?merge = of_len (sort_by cmp_hits ?all)"
    by (simp add: merge_search_responses_def Let_def sum_totals length_concat comp_def)
  moreover have "resp_shards_queried ?merge = of_len ls" "resp_shards_answered ?merge = of_len ls"
    by (simp_all add: merge_search_responses_def Let_def as(3))
  moreover have "search_rpc env sv authz req ms = (sv\<lparr>sv_metrics := record_query (sv_metrics sv) ms True\<rparr>, Inr ?merge)"
    by (simp add: search_rpc_def granted valid reg ls(1) gathered Let_def)
  moreover have "search_stream env sv authz req = Inr ?updates"
    by (simp add: search_stream_def granted reg ls(1) net query_leader_def answer Let_def comp_def)
  moreover have "upd_hits (last ?updates) = resp_hits ?merge"
    unfolding stream_all push(1) using push(2) by (simp add: pm_snapshot_def)
  moreover have "cmp_sorted cmp_hits (sort_by cmp_hits ?all)" using scored by (rule ranking.sort_sorted)
  ultimately show ?thesis using push(1) once docs
    by (intro exI [of _ "sort_by cmp_hits ?all"] exI [of _ ?merge] exI [of _ ?updates] exI conjI) (assumption | simp only: set_sort_by distinct_map_sort_by)+
qed

lemma two_documents:
  assumes "icao24 b = k1" and "icao24 c = k2" and "\<And>k d. m k = Some d \<longleftrightarrow> k = k1 \<and> d = b \<or> k = k2 \<and> d = c"
  shows "m (icao24 d) = Some d \<longleftrightarrow> d = b \<or> d = c"
  using assms by auto

text \<open>A cluster of two shards: the second one is empty.\<close>

definition two_leaders :: registry where
  "two_leaders = (registry_new 2)\<lparr>leaders :=
     [(0, \<lparr>node_id = ''x'', address = ''h0'', role = RoleLeader, last_seen = 0\<rparr>),
      (1, \<lparr>node_id = ''y'', address = ''h1'', role = RoleLeader, last_seen = 0\<rparr>)]\<rparr>"

definition slice :: "string \<Rightarrow> flight_document view_op list" where
  "slice a = (if a = ''h0'' then sample_ops else [])"

definition slice_service :: "string \<Rightarrow> shard_service" where
  "slice_service a = \<lparr>ss_store = view_run (store_insert sample_embed) (store_remove sample_embed) (with_quantized store_new False) (slice a),
     ss_shard_id = a, ss_assignments = None\<rparr>"

definition two_env :: svc_env where
  "two_env = \<lparr>e_lo = rev, e_fo = rev, e_sched = rev, e_ord = rev, e_fused = rev, e_net = shard_net (\<lambda>_. sample_env) slice_service,
     e_vnet = (\<lambda>_ _. Unreachable), e_anet = (\<lambda>_ _. Unreachable), e_now = 0, e_elapsed = 3, e_asin = (\<lambda>x. x), e_show = (\<lambda>_. ''?''),
     e_write = (\<lambda>_. WriteCommitted), e_fwd_drain = (\<lambda>_ _ _. Inl (Unavailable [])), e_fwd_reassign = (\<lambda>_ _ _. Inl (Unavailable []))\<rparr>"

theorem cluster_search_exact_witness:
  "\<exists>ranked resp sv'. search_rpc two_env (service_new two_leaders None) None \<lparr>sr_query = ''ual'', sr_limit = 1, sr_filter = Some sample_filter\<rparr> 7
      = (sv', Inr resp)
    \<and> resp_hits resp = truncate_limit 1 ranked
    \<and> hit_document ` set ranked = {Some (sample_doc ''b'' ''UAL 9'')}
    \<and> resp_shards_answered resp = 2"
proof -
  let ?req = "\<lparr>sr_query = ''ual'', sr_limit = 1, sr_filter = Some sample_filter\<rparr>"
  let ?sv = "service_new two_leaders None"
  have ls: "leader_addresses (e_lo two_env) two_leaders = [''h1'', ''h0'']"
    by (simp add: two_env_def two_leaders_def leader_addresses_def)
  have cmp: "comparable sample_env (map_run icao24 (slice a)) ?req" for a
    using sample_comparable [of ?req] by (simp add: slice_def sample_run comparable_def)
  have hyps: "iteration_order (e_sched two_env)" "iteration_order (e_ord two_env)" "iteration_order (h_ord sample_env)"
    "sv_registry ?sv = Some two_leaders" "e_net two_env = shard_net (\<lambda>_. sample_env) slice_service"
    "granted (sv_auth ?sv) None Read" "h_show sample_env = e_show two_env" "check_filter (e_show two_env) (sr_filter ?req) = Inr ()"
    by (simp_all add: two_env_def sample_env_def service_new_def granted_def auth_default_def sample_filtering)
  have run: "ss_store (slice_service a) = view_run (store_insert sample_embed) (store_remove sample_embed) (with_quantized store_new False) (slice a)" for a
    by (simp add: slice_service_def)
  have disjoint: "\<forall>a \<in> set [''h1'', ''h0'']. \<forall>b \<in> set [''h1'', ''h0'']. a \<noteq> b \<longrightarrow>
      dom (map_run icao24 (slice a)) \<inter> dom (map_run icao24 (slice b)) = {}"
    by (simp add: slice_def)
  have docs: "{d. (\<exists>a \<in> set [''h1'', ''h0'']. map_run icao24 (slice a) (icao24 d) = Some d)
      \<and> set (tokenize (sr_query ?req)) \<inter> set (doc_tokens d) \<noteq> {} \<and> passes d (sr_filter ?req)} = {sample_doc ''b'' ''UAL 9''}"
  proof -
    let ?b = "sample_doc ''b'' ''UAL 9''" and ?c = "sample_doc ''c'' ''UAL UAL UAL''"
    have keys: "icao24 ?b = ''b''" "icao24 ?c = ''c''" by (simp_all add: sample_doc_def)
    have two: "map_of sample_corpus k = Some d \<longleftrightarrow> k = ''b'' \<and> d = ?b \<or> k = ''c'' \<and> d = ?c" for k d
      by (auto simp: sample_corpus_def)
    have corpus: "map_of sample_corpus (icao24 d) = Some d \<longleftrightarrow> d = ?b \<or> d = ?c" for d
      by (rule two_documents [OF keys two])
    have slices: "(\<exists>a \<in> set [''h1'', ''h0'']. map_run icao24 (slice a) (icao24 d) = Some d) \<longleftrightarrow> map_of sample_corpus (icao24 d) = Some d" for d
      by (simp add: slice_def sample_run)
    have "set (tokenize (sr_query ?req)) \<inter> set (doc_tokens ?b) \<noteq> {}" by (simp add: sample_tokens)
    moreover have "passes ?b (sr_filter ?req)" "\<not> passes ?c (sr_filter ?req)" using sample_filtering(2,3) by simp_all
    ultimately show ?thesis unfolding slices corpus by blast
  qed
  obtain ranked resp sv' where "search_rpc two_env ?sv None ?req 7 = (sv', Inr resp)"
    "resp_hits resp = truncate_limit (unat (sr_limit ?req)) ranked" "hit_document ` set ranked = Some ` {sample_doc ''b'' ''UAL 9''}"
    "resp_shards_answered resp = of_len [''h1'', ''h0'']"
    using cluster_search_exact [of two_env "\<lambda>_. sample_env" ?sv two_leaders "[''h1'', ''h0'']" slice_service sample_embed False slice ?req None 7]
      hyps ls cmp run disjoint unfolding docs by auto
  then show ?thesis by auto
qed

section \<open>A request with an ill-typed filter\<close>

lemma stream_omits:
  "stream_updates ord e pm (map (\<lambda>a. Some (Inl (om a))) as) = [pm_snapshot (pm\<lparr>pm_omitted := pm_omitted pm @ map om as\<rparr>) True e]"
  by (induction as arbitrary: pm) (simp_all add: pm_omit_def)

text \<open>
  The streaming search does not validate its filter. For a filter that fails validation the
  batch search is refused as an invalid argument, while the stream is accepted, every shard
  refuses the call, and the caller receives one complete, empty update whose manifest reports
  every healthy leader as unreachable.
\<close>

theorem stream_skips_validation:
  assumes "check_filter (e_show env) (sr_filter req) = Inl e" and "granted (sv_auth sv) authz Read"
    and "sv_registry sv = Some reg" and "e_net env = shard_net envs services" and "\<forall>a. h_show (envs a) = e_show env"
  shows "search_rpc env sv authz req ms = (sv, Inl e)
    \<and> (\<exists>final mf. search_stream env sv authz req = Inr [final]
      \<and> upd_complete final \<and> upd_hits final = [] \<and> upd_shards_answered final = 0 \<and> upd_manifest final = Some mf
      \<and> m_omitted mf = map (\<lambda>a. omitted_shard_of a ''unreachable'') (e_sched env (leader_addresses (e_lo env) reg)))"
proof -
  have granted: "require (sv_auth sv) authz Read = Inr ()" using assms(2) by (simp add: require_iff)
  have "query_leader (e_net env) a req = Some (Inl (omitted_shard_of a ''unreachable''))" for a
    using assms(1,5) by (simp add: assms(4) query_leader_def shard_net_def shard_search_def)
  then have "search_stream env sv authz req = Inr [pm_snapshot
      ((pm_new (of_len (leader_addresses (e_lo env) reg)) (unat (sr_limit req)) (placement_version reg))
        \<lparr>pm_omitted := map (\<lambda>a. omitted_shard_of a ''unreachable'') (e_sched env (leader_addresses (e_lo env) reg))\<rparr>) True (e_elapsed env)]"
    by (simp add: search_stream_def granted assms(3) Let_def pm_new_def stream_omits)
  moreover have "search_rpc env sv authz req ms = (sv, Inl e)" by (simp add: search_rpc_def granted assms(1))
  ultimately show ?thesis by (simp add: pm_snapshot_def pm_new_def build_manifest_def)
qed

theorem stream_skips_validation_witness:
  "\<exists>final. search_stream two_env (service_new two_leaders None) None
      \<lparr>sr_query = ''ual'', sr_limit = 0, sr_filter = Some \<lparr>conditions = [\<lparr>fc_field = ''callsign'', fc_test = Some (Is True)\<rparr>]\<rparr>\<rparr> = Inr [final]
    \<and> upd_complete final \<and> upd_hits final = []"
proof -
  let ?req = "\<lparr>sr_query = ''ual'', sr_limit = 0, sr_filter = Some \<lparr>conditions = [\<lparr>fc_field = ''callsign'', fc_test = Some (Is True)\<rparr>]\<rparr>\<rparr>"
  have "\<exists>e. check_filter (e_show two_env) (sr_filter ?req) = Inl e"
    by (simp add: check_filter_def validate_def condition_error_def BOOL_FIELDS_def)
  then obtain e where "check_filter (e_show two_env) (sr_filter ?req) = Inl e" ..
  moreover have "granted (sv_auth (service_new two_leaders None)) None Read" "sv_registry (service_new two_leaders None) = Some two_leaders"
    "e_net two_env = shard_net (\<lambda>_. sample_env) slice_service" "h_show sample_env = e_show two_env"
    by (simp_all add: two_env_def sample_env_def service_new_def granted_def auth_default_def)
  ultimately show ?thesis
    using stream_skips_validation [of two_env ?req e "service_new two_leaders None" None two_leaders "\<lambda>_. sample_env" slice_service 0] by blast
qed

end
