(* ===== verification/Cold_Boot.thy ===== *)
theory Cold_Boot
  imports Raft_Sm
begin

text \<open>
  A member that lost its disk: what \<open>open_durable\<close> restores from the object store after a
  history of uploads, and where the single page of a listing ends.
\<close>

section \<open>Padded numbers in byte order\<close>

lemma list_less_append_left: "(p @ a) < (p @ b) \<longleftrightarrow> a < (b :: string)"
  by (induction p) auto

lemma list_less_append_right: "a < b \<Longrightarrow> length a = length b \<Longrightarrow> (a @ s) < (b @ s :: string)"
proof (induction a arbitrary: b)
  case (Cons x xs)
  then show ?case by (cases b) auto
qed simp

lemma digits_value_acc: "foldl (\<lambda>n c. 10 * n + (code c - 48)) k ds = k * 10 ^ length ds + digits_value ds"
proof (induction ds arbitrary: k)
  case (Cons d ds)
  show ?case
    using Cons.IH [of "10 * k + (code d - 48)"] Cons.IH [of "code d - 48"]
    by (simp add: digits_value_def algebra_simps)
qed (simp add: digits_value_def)

lemma digits_value_Cons: "digits_value (d # ds) = (code d - 48) * 10 ^ length ds + digits_value ds"
  using digits_value_acc [of "code d - 48" ds] by (simp add: digits_value_def)

lemma digits_value_bound: "list_all is_digit ds \<Longrightarrow> digits_value ds < 10 ^ length ds"
proof (induction ds)
  case (Cons d ds)
  then have "code d - 48 \<le> 9" "digits_value ds < 10 ^ length ds" by (auto simp: is_digit_def)
  then have "(code d - 48) * 10 ^ length ds + digits_value ds < 9 * 10 ^ length ds + 10 ^ length ds"
    by (meson add_le_less_mono mult_le_mono1)
  then show ?case by (simp add: digits_value_Cons)
qed (simp add: digits_value_def)

lemma digits_value_less:
  "length ds = length es \<Longrightarrow> list_all is_digit ds \<Longrightarrow> list_all is_digit es \<Longrightarrow> digits_value ds < digits_value es \<Longrightarrow> ds < es"
proof (induction ds es rule: list_induct2)
  case (Cons d ds e es)
  have dig: "48 \<le> code d" "48 \<le> code e" using Cons.prems by (auto simp: is_digit_def)
  consider "code d < code e" | "code d = code e" | "code e < code d" by linarith
  then show ?case
  proof cases
    case 1
    then have "d < e" by (simp add: less_char_def)
    then show ?thesis by simp
  next
    case 2
    then have "d = e" by simp
    moreover have "ds < es"
      using Cons.IH Cons.prems Cons.hyps 2 by (simp add: digits_value_Cons)
    ultimately show ?thesis by simp
  next
    case 3
    then have "Suc (code e - 48) * 10 ^ length es \<le> (code d - 48) * 10 ^ length es"
      using dig by (intro mult_le_mono1) simp
    then have "digits_value (e # es) < digits_value (d # ds)"
      using digits_value_bound [of es] Cons.prems Cons.hyps by (simp add: digits_value_Cons)
    with Cons.prems show ?thesis by simp
  qed
qed simp

lemma length_show_nat: "n < 10 ^ k \<Longrightarrow> 0 < k \<Longrightarrow> length (show_nat n) \<le> k"
proof (induction n arbitrary: k rule: show_nat.induct)
  case (1 n)
  show ?case
  proof (cases "n < 10")
    case False
    then obtain j where j: "k = Suc j" "0 < j" using "1.prems" by (cases k; cases "k = 1") auto
    then have "n div 10 < 10 ^ j" using "1.prems"(1) by (simp add: less_mult_imp_div_less mult.commute)
    then show ?thesis using "1.IH" [OF False _ j(2)] False j by (simp add: show_nat.simps [of n])
  qed (use "1.prems" in \<open>simp add: show_nat.simps [of n]\<close>)
qed

lemma snapshot_path_less:
  assumes "m < n" "n < 2 ^ 64"
  shows "snapshot_path m < snapshot_path n"
proof -
  let ?p = "\<lambda>n. pad_left 20 (show_nat n)"
  have len: "length (?p i) = 20" and dig: "list_all is_digit (?p i)" and val: "digits_value (?p i) = i" if "i \<le> n" for i
  proof -
    have "i < 10 ^ 20" using that assms(2) by simp
    from length_show_nat [OF this] show "length (?p i) = 20" by (simp add: pad_left_def)
    show "list_all is_digit (?p i)" "digits_value (?p i) = i"
      using show_nat_digits [of i] by (auto simp: pad_left_def digits_value_zeros is_digit_def list_all_iff)
  qed
  have "?p m < ?p n"
    using len [of m] len [of n] dig [of m] dig [of n] val [of m] val [of n] assms(1)
    by (intro digits_value_less) simp_all
  then show ?thesis
    using len [of m] len [of n] assms(1)
    by (simp add: snapshot_path_def list_less_append_right)
qed

section \<open>Histories of uploads\<close>

abbreviation snap_index :: "stored_snapshot \<Rightarrow> nat" where
  "snap_index s \<equiv> meta_index (snap_meta s)"

abbreviation snap_name :: "stored_snapshot \<Rightarrow> string" where
  "snap_name s \<equiv> snapshot_path (snap_index s)"

text \<open>Uploads one after another, each with what the store accepts at that time, and the
  snapshots that were taken.\<close>

definition uploads ::
  "(stored_snapshot \<Rightarrow> u8 list) \<Rightarrow> s3_tier \<Rightarrow> ((string \<Rightarrow> bool) \<times> stored_snapshot) list \<Rightarrow> s3_tier" where
  "uploads enc t hist = foldl (\<lambda>t (acc, s). upload_snapshot (t\<lparr>tier_accepts := acc\<rparr>) (snap_name s) (enc s)) t hist"

definition taken_uploads :: "s3_tier \<Rightarrow> ((string \<Rightarrow> bool) \<times> stored_snapshot) list \<Rightarrow> stored_snapshot list" where
  "taken_uploads t hist = map snd (filter (\<lambda>(acc, s). acc (snapshot_key t (snap_name s))) hist)"

definition newest_of :: "stored_snapshot list \<Rightarrow> stored_snapshot" where
  "newest_of ss = last (filter (\<lambda>s. snap_index s = Max (snap_index ` set ss)) ss)"

lemma build_snapshot_uploads:
  "sm_s3 sm = Some t \<Longrightarrow>
    sm_s3 (fst (build_snapshot enc snapshot_bytes sm)) =
      Some (upload_snapshot t (snap_name (snd (build_snapshot enc snapshot_bytes sm))) (enc (snd (build_snapshot enc snapshot_bytes sm))))"
  by (simp add: build_snapshot_def Let_def persist_def split: option.split)

lemma snapshot_path_mono_iff: "m < 2 ^ 64 \<Longrightarrow> n < 2 ^ 64 \<Longrightarrow> snapshot_path m < snapshot_path n \<longleftrightarrow> m < n"
  by (metis snapshot_path_less linorder_neq_iff order_less_asym)

lemma snapshot_path_eq: "m < 2 ^ 64 \<Longrightarrow> n < 2 ^ 64 \<Longrightarrow> snapshot_path m = snapshot_path n \<longleftrightarrow> m = n"
  by (metis snapshot_path_mono_iff linorder_neq_iff)

lemma snapshot_key_less: "snapshot_key t a < snapshot_key t b \<longleftrightarrow> a < b"
  unfolding snapshot_key_def list_less_append_left by simp

lemma snapshot_key_eq: "snapshot_key t a = snapshot_key t b \<longleftrightarrow> a = b"
  by (simp add: snapshot_key_def)

abbreviation under :: "s3_tier \<Rightarrow> string set" where
  "under t \<equiv> set (keys_under (tier_prefix t @ ''/'') (tier_objects t))"

lemma keys_under_set: "set (keys_under p objs) = {k \<in> fst ` set objs. take (length p) k = p}"
  by (auto simp: keys_under_def)

lemma uploads_snoc:
  "uploads enc t (hist @ [(acc, s)]) = upload_snapshot ((uploads enc t hist)\<lparr>tier_accepts := acc\<rparr>) (snap_name s) (enc s)"
  by (simp add: uploads_def)

lemma uploads_spec:
  assumes "hm_wf (tier_objects t)" "under t = {}" "\<forall>s \<in> snd ` set hist. snap_index s < 2 ^ 64"
  shows "tier_prefix (uploads enc t hist) = tier_prefix t \<and> hm_wf (tier_objects (uploads enc t hist))
    \<and> under (uploads enc t hist) = (\<lambda>s. snapshot_key t (snap_name s)) ` set (taken_uploads t hist)
    \<and> (\<forall>i \<in> snap_index ` set (taken_uploads t hist).
        hm_get (tier_objects (uploads enc t hist)) (snapshot_key t (snapshot_path i)) =
          Some (enc (last (filter (\<lambda>s. snap_index s = i) (taken_uploads t hist)))))"
  using assms(3)
proof (induction hist rule: rev_induct)
  case Nil
  then show ?case using assms(1,2) by (simp add: uploads_def taken_uploads_def)
next
  case (snoc x hist)
  obtain acc s where x: "x = (acc, s)" by fastforce
  let ?u = "uploads enc t hist" and ?k = "snapshot_key t (snap_name s)"
  have bound: "\<forall>s \<in> snd ` set hist. snap_index s < 2 ^ 64" using snoc.prems by simp
  have IH: "tier_prefix ?u = tier_prefix t" "hm_wf (tier_objects ?u)"
    "under ?u = (\<lambda>s. snapshot_key t (snap_name s)) ` set (taken_uploads t hist)"
    "\<forall>i \<in> snap_index ` set (taken_uploads t hist). hm_get (tier_objects ?u) (snapshot_key t (snapshot_path i)) =
          Some (enc (last (filter (\<lambda>s. snap_index s = i) (taken_uploads t hist))))"
    using snoc.IH [OF bound] by blast+
  have key: "snapshot_key (?u\<lparr>tier_accepts := acc\<rparr>) n = snapshot_key t n" for n by (simp add: snapshot_key_def IH(1))
  show ?case
  proof (cases "acc ?k")
    case False
    then show ?thesis using IH by (simp add: x uploads_snoc upload_snapshot_def key taken_uploads_def)
  next
    case True
    have acc': "taken_uploads t (hist @ [x]) = taken_uploads t hist @ [s]" using True by (simp add: taken_uploads_def x)
    have small: "snap_index s < 2 ^ 64" "\<forall>s' \<in> set (taken_uploads t hist). snap_index s' < 2 ^ 64"
      using snoc.prems by (auto simp: x taken_uploads_def)
    have objs: "tier_objects (uploads enc t (hist @ [x])) = hm_insert ?k (enc s) (tier_objects ?u)"
      "tier_prefix (uploads enc t (hist @ [x])) = tier_prefix t"
      using True by (simp_all add: x uploads_snoc upload_snapshot_def key IH(1))
    have "take (length (tier_prefix t @ ''/'')) ?k = tier_prefix t @ ''/''" by (simp add: snapshot_key_def)
    then have "under (uploads enc t (hist @ [x])) = insert ?k (under ?u)"
      unfolding keys_under_set objs IH(1) hm_keys_insert by auto
    moreover have "hm_get (tier_objects (uploads enc t (hist @ [x]))) (snapshot_key t (snapshot_path i)) =
        Some (enc (last (filter (\<lambda>s. snap_index s = i) (taken_uploads t (hist @ [x])))))"
      if i: "i \<in> snap_index ` set (taken_uploads t (hist @ [x]))" for i
    proof (cases "i = snap_index s")
      case True
      then show ?thesis by (simp add: objs acc' hm_get_insert)
    next
      case False
      then have "i \<in> snap_index ` set (taken_uploads t hist)" using i by (auto simp: acc')
      moreover from this have "snapshot_key t (snapshot_path i) \<noteq> ?k"
        using False small snapshot_path_eq by (auto simp: snapshot_key_eq)
      ultimately show ?thesis using bspec [OF IH(4), of i] False by (simp add: objs(1) acc' hm_get_insert)
    qed
    ultimately show ?thesis using IH(2,3) by (simp add: objs acc' hm_wf_insert)
  qed
qed


section \<open>Cold boots\<close>

lemma keys_under_sorted: "hm_wf objs \<Longrightarrow> sorted (keys_under p objs) \<and> distinct (keys_under p objs)"
  by (simp add: keys_under_def)

lemma s3_latest_page:
  assumes "pages_of_1000 svc"
  shows "s3_latest svc t =
    (let keys = take 1000 (keys_under (tier_prefix t @ ''/'') (tier_objects t))
     in if keys = [] then None else hm_get (tier_objects t) (Max (set keys)))"
  using assms by (simp add: s3_latest_def pages_of_1000_def Let_def)

lemma page_Max:
  assumes "sorted ks" "distinct ks" "ks \<noteq> []"
  shows "length ks \<le> 1000 \<Longrightarrow> Max (set (take 1000 ks)) = Max (set ks)"
    and "1000 < length ks \<Longrightarrow> Max (set (take 1000 ks)) < Max (set (ks :: string list))"
proof -
  assume "1000 < length ks"
  let ?m = "Max (set (take 1000 ks))"
  have "sorted_wrt (<) ks" using assms(1,2) by (simp add: strict_sorted_iff)
  then have lt: "\<forall>a \<in> set (take 1000 ks). \<forall>b \<in> set (drop 1000 ks). a < b"
    by (metis append_take_drop_id sorted_wrt_append)
  have ne: "take 1000 ks \<noteq> []" "drop 1000 ks \<noteq> []" using \<open>1000 < length ks\<close> by auto
  have "?m \<in> set (take 1000 ks)" using ne(1) by (intro Max_in) auto
  moreover obtain b where b: "b \<in> set (drop 1000 ks)" using last_in_set [OF ne(2)] by blast
  ultimately have "?m < b" using lt by blast
  also have "b \<le> Max (set ks)" using b by (auto dest: in_set_dropD)
  finally show "?m < Max (set ks)" .
qed simp

lemma Max_snap_names:
  assumes "finite I" "I \<noteq> {}" "\<forall>i \<in> I. i < 2 ^ 64"
  shows "Max ((\<lambda>i. snapshot_key t (snapshot_path i)) ` I) = snapshot_key t (snapshot_path (Max I))"
proof (rule Max_eqI)
  fix k assume "k \<in> (\<lambda>i. snapshot_key t (snapshot_path i)) ` I"
  then obtain i where "i \<in> I" "k = snapshot_key t (snapshot_path i)" by blast
  moreover have "\<not> snapshot_path (Max I) < snapshot_path i"
    using calculation(1) assms Max_ge [of I i] Max_in [of I] by (subst snapshot_path_mono_iff) auto
  ultimately show "k \<le> snapshot_key t (snapshot_path (Max I))" by (simp add: snapshot_key_less linorder_not_less [symmetric])
qed (use assms in auto)

lemma latest_after_uploads:
  assumes "pages_of_1000 svc" "hm_wf (tier_objects t)" "under t = {}" "\<forall>s \<in> snd ` set hist. snap_index s < 2 ^ 64"
  defines "ss \<equiv> taken_uploads t hist"
  shows "ss = [] \<Longrightarrow> s3_latest svc (uploads enc t hist) = None"
    and "ss \<noteq> [] \<Longrightarrow> \<exists>s \<in> set ss. s3_latest svc (uploads enc t hist) = Some (enc s)
      \<and> (if card (snap_index ` set ss) \<le> 1000 then s = newest_of ss else snap_index s < Max (snap_index ` set ss))"
proof -
  let ?u = "uploads enc t hist" and ?I = "snap_index ` set ss"
  let ?ks = "keys_under (tier_prefix t @ ''/'') (tier_objects ?u)" and ?key = "\<lambda>i. snapshot_key t (snapshot_path i)"
  note spec = uploads_spec [OF assms(2-4), of enc, folded ss_def]
  have small: "\<forall>i \<in> ?I. i < 2 ^ 64" using assms(4) by (auto simp: ss_def taken_uploads_def)
  have set_ks: "set ?ks = ?key ` ?I" using spec by (auto simp: image_image)
  have latest: "s3_latest svc ?u = (if take 1000 ?ks = [] then None else hm_get (tier_objects ?u) (Max (set (take 1000 ?ks))))"
    using s3_latest_page [OF assms(1), of ?u] spec by (simp add: Let_def)
  show "s3_latest svc ?u = None" if "ss = []"
    using set_ks that latest by simp
  assume ne: "ss \<noteq> []"
  then have ks: "?ks \<noteq> []" using set_ks by auto
  have "inj_on ?key ?I" using small by (auto intro!: inj_onI simp: snapshot_key_eq snapshot_path_eq)
  moreover have sd: "sorted ?ks" "distinct ?ks" using keys_under_sorted spec by blast+
  ultimately have len: "length ?ks = card ?I" using set_ks by (metis card_image distinct_card)
  have MaxI: "Max (set ?ks) = ?key (Max ?I)" unfolding set_ks using small ne by (intro Max_snap_names) auto
  have MaxI_small: "Max ?I < 2 ^ 64" using small Max_in [of ?I] ne by auto
  have "Max (set (take 1000 ?ks)) \<in> set ?ks"
    using ks Max_in [of "set (take 1000 ?ks)"] by (simp del: Max_in) (meson in_set_takeD)
  then obtain i where i: "i \<in> ?I" "Max (set (take 1000 ?ks)) = ?key i" using set_ks by auto
  have i_small: "i < 2 ^ 64" using i(1) small by blast
  let ?s = "last (filter (\<lambda>s. snap_index s = i) ss)"
  have nei: "filter (\<lambda>s. snap_index s = i) ss \<noteq> []" using i(1) by (auto simp: filter_empty_conv)
  then have s: "?s \<in> set ss" "snap_index ?s = i" using last_in_set [OF nei] by auto
  have "s3_latest svc ?u = Some (enc ?s)" using latest ks i spec by simp
  moreover have "if card ?I \<le> 1000 then ?s = newest_of ss else snap_index ?s < Max ?I"
  proof (cases "card ?I \<le> 1000")
    case True
    then have "?key i = ?key (Max ?I)" using page_Max(1) [OF sd ks] len i(2) MaxI by simp
    then have "i = Max ?I" using snapshot_path_eq [OF i_small MaxI_small] by (simp add: snapshot_key_eq)
    then show ?thesis using True by (simp add: newest_of_def)
  next
    case False
    then have "?key i < ?key (Max ?I)" using page_Max(2) [OF sd ks] len i(2) MaxI by simp
    then have "i < Max ?I" using snapshot_path_mono_iff [OF i_small MaxI_small] by (simp add: snapshot_key_less)
    then show ?thesis using False s(2) by simp
  qed
  ultimately show "\<exists>s \<in> set ss. s3_latest svc ?u = Some (enc s)
      \<and> (if card ?I \<le> 1000 then s = newest_of ss else snap_index s < Max ?I)"
    using s(1) by blast
qed

text \<open>
  C22: A member with an empty disk boots from the object store. After any history of snapshot
  uploads under an unused prefix, some of them refused, the member restores one of the snapshots
  that were taken, with its state, log position and membership, and writes it to its own disk, so
  that the next start restores the same without the store. It is the one with the highest log
  index (of several the last) as long as at most a thousand different indices were uploaded,
  which is one page of a listing. Beyond that, it is an older one. With nothing uploaded the
  member starts empty.
\<close>

theorem cold_boot_newest:
  fixes svc :: s3_service and hist :: "((string \<Rightarrow> bool) \<times> stored_snapshot) list"
  assumes "pages_of_1000 svc" and "hm_wf (tier_objects t)" "set (keys_under (tier_prefix t @ ''/'') (tier_objects t)) = {}"
    and "\<forall>s \<in> snd ` set hist. meta_index (snap_meta s) < 2 ^ 64 \<and> dec (enc s) = Some s"
    and empty: "load_latest dec dir = None"
  shows "let sm = open_durable enc dec svc restore app dir (Some (uploads enc t hist)) in
    (case taken_uploads t hist of
      [] \<Rightarrow> sm_snapshot sm = None \<and> sm_app sm = app \<and> sm_last_applied sm = None
    | s0 # ss \<Rightarrow> \<exists>s \<in> set (s0 # ss).
        sm_snapshot sm = Some s \<and> sm_app sm = fst (restore app (snap_data s))
        \<and> sm_last_applied sm = meta_last_log_id (snap_meta s) \<and> sm_membership sm = meta_membership (snap_meta s)
        \<and> with_snapshot_dir dec restore app (the (snap_dir sm)) = sm\<lparr>sm_s3 := None\<rparr>
        \<and> (if card ((\<lambda>s. meta_index (snap_meta s)) ` set (s0 # ss)) \<le> 1000 then s = newest_of (s0 # ss)
           else meta_index (snap_meta s) < Max ((\<lambda>s. meta_index (snap_meta s)) ` set (s0 # ss))))"
proof (cases "taken_uploads t hist")
  case Nil
  have "\<forall>s \<in> snd ` set hist. snap_index s < 2 ^ 64" using assms(4) by blast
  from latest_after_uploads(1) [OF assms(1-3) this Nil] empty Nil show ?thesis
    by (simp add: open_durable_def with_snapshot_dir_def sm_new_def Let_def)
next
  case (Cons s0 ss)
  have bound: "\<forall>s \<in> snd ` set hist. snap_index s < 2 ^ 64" using assms(4) by blast
  from latest_after_uploads(2) [OF assms(1-3) bound, of enc, unfolded Cons] obtain s
    where s: "s \<in> set (s0 # ss)" and latest: "s3_latest svc (uploads enc t hist) = Some (enc s)"
      and newest: "if card (snap_index ` set (s0 # ss)) \<le> 1000 then s = newest_of (s0 # ss)
        else snap_index s < Max (snap_index ` set (s0 # ss))"
    by blast
  have "s \<in> snd ` set hist" using s Cons [symmetric] by (force simp: taken_uploads_def)
  then have ok: "snap_index s < 2 ^ 64" "dec (enc s) = Some s" using assms(4) by blast+
  let ?dir = "last (persist_dirs enc dir (snap_meta s) (snap_data s))"
  have "load_latest dec ?dir = dec (enc \<lparr>snap_meta = snap_meta s, snap_data = snap_data s\<rparr>)"
    by (rule load_latest_single [OF persist_last(1) [OF ok(1)] _ persist_last(2) [OF ok(1)]])
      (use snapshot_index_path [OF ok(1)] in simp)
  then have reload: "load_latest dec ?dir = Some s" using ok(2) by (cases s) simp
  define sm where "sm = open_durable enc dec svc restore app dir (Some (uploads enc t hist))"
  have "sm = persist enc (adopt_snapshot restore ((sm_new app)\<lparr>snap_dir := Some dir, sm_s3 := Some (uploads enc t hist)\<rparr>) s)
        (snap_meta s) (snap_data s)"
    using latest ok(2) empty by (simp add: sm_def open_durable_def with_snapshot_dir_def sm_new_def Let_def)
  then have "sm_snapshot sm = Some s \<and> sm_app sm = fst (restore app (snap_data s))
      \<and> sm_last_applied sm = meta_last_log_id (snap_meta s) \<and> sm_membership sm = meta_membership (snap_meta s)
      \<and> with_snapshot_dir dec restore app (the (snap_dir sm)) = sm\<lparr>sm_s3 := None\<rparr>"
    using reload by (simp add: adopt_snapshot_def persist_def sm_new_def with_snapshot_dir_def Let_def)
  with s newest show ?thesis unfolding Cons sm_def [symmetric] Let_def list.case by blast
qed

text \<open>A store with two snapshots, of which the older was uploaded last.\<close>

definition sample_snapshot :: "nat \<Rightarrow> stored_snapshot" where
  "sample_snapshot i =
     \<lparr>snap_meta = \<lparr>meta_last_log_id = Some \<lparr>li_term = 1, li_node = 1, li_index = i\<rparr>, meta_membership = empty_membership,
        snapshot_id = ''snap''\<rparr>, snap_data = [word_of_nat i]\<rparr>"

definition sample_service :: s3_service where
  "sample_service =
     \<lparr>list_objects = \<lambda>p objs. Some (take 1000 (keys_under p objs)), get_object = \<lambda>k objs. hm_get objs k\<rparr>"

definition sample_tier :: s3_tier where
  "sample_tier = \<lparr>tier_prefix = ''group-0'', tier_objects = [], tier_accepts = \<lambda>_. True\<rparr>"

theorem cold_boot_newest_witness:
  "sm_app (open_durable (\<lambda>s. [word_of_nat (snap_index s)]) (\<lambda>b. Some (sample_snapshot (unat (hd b)))) sample_service
     (\<lambda>_ b. (b, 1)) [] [] (Some (uploads (\<lambda>s. [word_of_nat (snap_index s)]) sample_tier
       [(\<lambda>_. True, sample_snapshot 7), (\<lambda>_. True, sample_snapshot 9), (\<lambda>_. False, sample_snapshot 11),
        (\<lambda>_. True, sample_snapshot 7)]))) = [9]"
proof -
  let ?hist = "[(\<lambda>_. True, sample_snapshot 7), (\<lambda>_. True, sample_snapshot 9), (\<lambda>_. False, sample_snapshot 11),
        (\<lambda>_. True, sample_snapshot 7)]"
  have acc: "taken_uploads sample_tier ?hist = sample_snapshot 7 # [sample_snapshot 9, sample_snapshot 7]"
    by (simp add: taken_uploads_def)
  have idx: "snap_index (sample_snapshot i) = i" for i by (simp add: sample_snapshot_def meta_index_def)
  have card: "card (snap_index ` set (sample_snapshot 7 # [sample_snapshot 9, sample_snapshot 7])) \<le> 1000" by (simp add: idx card_insert_if)
  have newest: "newest_of (sample_snapshot 7 # [sample_snapshot 9, sample_snapshot 7]) = sample_snapshot 9"
    by (simp add: newest_of_def idx)
  let ?enc = "\<lambda>s. [word_of_nat (snap_index s)]" and ?dec = "\<lambda>b. Some (sample_snapshot (unat (hd b)))"
  have svc: "pages_of_1000 sample_service" by (simp add: sample_service_def pages_of_1000_def)
  have tier: "hm_wf (tier_objects sample_tier)" "under sample_tier = {}"
    by (simp_all add: sample_tier_def keys_under_def)
  have ok: "\<forall>s \<in> snd ` set ?hist. snap_index s < 2 ^ 64 \<and> ?dec (?enc s :: u8 list) = Some s"
    by (simp add: idx unat_of_nat)
  have empty: "load_latest ?dec [] = None" by (simp add: load_latest_def)
  from cold_boot_newest [OF svc tier ok empty, of "\<lambda>_ b. (b, 1)" "[]"]
  show ?thesis unfolding acc list.case Let_def if_P [OF card] newest
    by (auto simp: sample_snapshot_def [of 9])
qed

end
