(* ===== verification/Json.thy ===== *)
theory Json
  imports Float64
begin

text \<open>
  JSON values as the code sees them through its JSON library: the constructors it matches on
  and the accessors it calls. A number is what \<open>as_f64\<close>, \<open>as_i64\<close> and \<open>as_u64\<close> answer for it; an
  object lists its members in iteration order.
\<close>

datatype json =
  JNull | JBool bool | JNumber "f64 option" "int option" "nat option" | JString string | JArray "json list" | JObject "(string \<times> json) list"

fun as_f64 :: "json \<Rightarrow> f64 option" where
  "as_f64 (JNumber f _ _) = f"
| "as_f64 _ = None"

fun as_i64 :: "json \<Rightarrow> int option" where
  "as_i64 (JNumber _ i _) = i"
| "as_i64 _ = None"

fun as_u64 :: "json \<Rightarrow> nat option" where
  "as_u64 (JNumber _ _ n) = n"
| "as_u64 _ = None"

fun as_array :: "json \<Rightarrow> json list option" where
  "as_array (JArray a) = Some a"
| "as_array _ = None"

fun as_str :: "json \<Rightarrow> string option" where
  "as_str (JString s) = Some s"
| "as_str _ = None"

fun as_bool :: "json \<Rightarrow> bool option" where
  "as_bool (JBool b) = Some b"
| "as_bool _ = None"

fun json_get :: "json \<Rightarrow> string \<Rightarrow> json option" where
  "json_get (JObject ms) k = map_of ms k"
| "json_get _ _ = None"

definition get_str :: "json \<Rightarrow> string \<Rightarrow> string option" where
  "get_str v k = Option.bind (json_get v k) as_str"

definition get_f64 :: "json \<Rightarrow> string \<Rightarrow> f64 option" where
  "get_f64 v k = Option.bind (json_get v k) as_f64"

section \<open>Building values\<close>

text \<open>Objects are sorted by key, as the JSON library keeps them.\<close>

definition jobj :: "(string \<times> json) list \<Rightarrow> json" where
  "jobj ms = JObject (sort_key fst ms)"

definition json_int :: "int \<Rightarrow> json" where
  "json_int i = JNumber (Some (f64_of_int i)) (Some i) (if i < 0 then None else Some (nat i))"

definition json_nat :: "nat \<Rightarrow> json" where
  "json_nat n = JNumber (Some (f64_of_nat n)) (Some (int n)) (Some n)"

definition json_u64 :: "u64 \<Rightarrow> json" where
  "json_u64 w = JNumber (Some (f64_of_nat (unat w))) (if unat w < 2 ^ 63 then Some (uint w) else None) (Some (unat w))"

definition json_u32 :: "u32 \<Rightarrow> json" where
  "json_u32 w = json_nat (unat w)"

definition json_float :: "f64 \<Rightarrow> json" where
  "json_float x = (if is_finite x then JNumber (Some x) None None else JNull)"

end
