(* ===== verification/Ingest.thy ===== *)
theory Ingest
  imports Store Registry Json
begin

text \<open>
  Ingestion (\<open>crates/shard-node/src/ingest.rs\<close>): which documents a node owns, the sources, the
  mapping of JSON records onto documents, and the producer and consumer around a bounded
  channel, as a step relation over all interleavings. What the HTTP, S3 and JSON libraries
  answer is an argument.
\<close>

section \<open>Ownership\<close>

record shard_assignment =
  sa_index :: u32
  sa_count :: u32

definition assignment_owns :: "shard_assignment \<Rightarrow> string \<Rightarrow> bool" where
  "assignment_owns a key \<longleftrightarrow> shard_for key (sa_count a) = sa_index a"

datatype ownership = OwnAll | Modulo shard_assignment | Mapped u32

text \<open>
  The virtual-shard table is behind a lock whose only writer stores a value, so it is never
  poisoned; its content is the argument \<open>table\<close>.
\<close>

definition owns :: "ownership \<Rightarrow> u32 list \<Rightarrow> string \<Rightarrow> bool" where
  "owns own table key =
     (case own of
        OwnAll \<Rightarrow> True
      | Modulo a \<Rightarrow> assignment_owns a key
      | Mapped g \<Rightarrow>
          (let v = of_len table :: u32
           in if v = 0 then False
              else (let vshard = unat (vshard_for key v)
                    in vshard < length table \<and> table ! vshard = g)))"

definition own_assignments :: "ownership \<Rightarrow> u32 list \<Rightarrow> u32 list option" where
  "own_assignments own table = (case own of Mapped _ \<Rightarrow> Some table | _ \<Rightarrow> None)"

text \<open>One tick of the table poller: what the first healthy coordinator answers, if any.\<close>

definition vshard_view_tick :: "(string + u32 list) option \<Rightarrow> u32 list \<Rightarrow> u32 list" where
  "vshard_view_tick answer table = (case answer of Some (Inr t) \<Rightarrow> t | _ \<Rightarrow> table)"

section \<open>Synthetic sources\<close>

record synthetic_source =
  seed :: u32
  batch_size :: nat
  seq :: u32

definition synthetic_new :: "u32 \<Rightarrow> nat \<Rightarrow> synthetic_source" where
  "synthetic_new sd n = \<lparr>seed = sd, batch_size = n, seq = 0\<rparr>"

definition hex_pad :: "nat \<Rightarrow> u32 \<Rightarrow> string" where
  "hex_pad w x = pad_left w (hex_digits (unat x))"

definition synthetic_key :: "u32 \<Rightarrow> u32 \<Rightarrow> string" where
  "synthetic_key sd s = hex_pad 4 sd @ hex_pad 6 s"

definition spread :: "u64 \<Rightarrow> nat \<Rightarrow> int \<Rightarrow> int \<Rightarrow> f64" where
  "spread h shift sp base =
     fadd binary64 (fmul binary64 (fdiv binary64 (f64_of_nat (unat (drop_bit shift h mod 1000))) (f64_of_int 1000)) (f64_of_int sp))
       (f64_of_int base)"

definition crafts :: "string list" where
  "crafts = [''TestJet'', ''MockLiner'', ''StubProp'', ''FixtureWing'']"

definition synthetic_doc :: "u32 \<Rightarrow> u32 \<Rightarrow> flight_document" where
  "synthetic_doc sd s =
     (let h = fnv1a_64 (to_le_bytes s)
      in default_document\<lparr>icao24 := synthetic_key sd s, callsign := ''SYN'' @ show_nat (unat s), origin := ''Synthetica'',
           aircraft_type := crafts ! unat (drop_bit 8 h mod 4),
           latitude := spread h 16 140 (- 60), longitude := spread h 26 360 (- 180),
           altitude := spread h 36 12000 0, velocity := spread h 44 300 0, observed_at := uint s\<rparr>)"

fun take_seq :: "(u32 \<Rightarrow> flight_document) \<Rightarrow> nat \<Rightarrow> u32 \<Rightarrow> flight_document list \<times> u32" where
  "take_seq mk 0 s = ([], s)"
| "take_seq mk (Suc n) s = (let (ds, s') = take_seq mk n (s + 1) in (mk s # ds, s'))"

definition synthetic_fetch :: "synthetic_source \<Rightarrow> synthetic_source \<times> flight_document list" where
  "synthetic_fetch src =
     (let (ds, s') = take_seq (synthetic_doc (seed src)) (batch_size src) (seq src) in (src\<lparr>seq := s'\<rparr>, ds))"

definition categories :: "string list" where
  "categories = [''auth_fail'', ''port_scan'', ''malware'', ''exfil'', ''privilege_escalation'']"

definition actors :: "string list" where
  "actors = [''alice'', ''bob'', ''carol'', ''dave'', ''svc-account'']"

definition event_sources :: "string list" where
  "event_sources = [''10.0.0.5'', ''10.0.0.9'', ''192.168.1.20'', ''172.16.0.4'']"

definition security_doc :: "u32 \<Rightarrow> u32 \<Rightarrow> flight_document" where
  "security_doc sd s =
     (let h = fnv1a_64 (to_le_bytes s);
          pick = (\<lambda>shift n. unat (drop_bit shift h mod n))
      in default_document\<lparr>icao24 := ''evt-'' @ hex_pad 4 sd @ hex_pad 6 s, origin := event_sources ! pick 4 4,
           destination := ''host-'' @ show_nat (pick 20 8), aircraft_type := categories ! pick 28 5,
           callsign := actors ! pick 12 5, altitude := f64_of_nat (unat (drop_bit 36 h AND 0x7f)), observed_at := uint s\<rparr>)"

definition security_fetch :: "synthetic_source \<Rightarrow> synthetic_source \<times> flight_document list" where
  "security_fetch src =
     (let (ds, s') = take_seq (security_doc (seed src)) (batch_size src) (seq src) in (src\<lparr>seq := s'\<rparr>, ds))"

section \<open>JSON records\<close>

definition field_key :: "string \<Rightarrow> string \<Rightarrow> string" where
  "field_key prefix k = (if prefix = [] then k else prefix @ ''.'' @ k)"

definition set_coordinates :: "json list \<Rightarrow> flight_document \<Rightarrow> flight_document" where
  "set_coordinates a doc =
     (case List.map_filter as_f64 a of
        lon # lat # _ \<Rightarrow> doc\<lparr>longitude := lon, latitude := lat\<rparr>
      | _ \<Rightarrow> doc)"

fun flatten_into :: "string \<Rightarrow> (string \<times> json) list \<Rightarrow> flight_document \<Rightarrow> flight_document" where
  "flatten_into prefix [] doc = doc"
| "flatten_into prefix ((k, val) # ms) doc =
     flatten_into prefix ms
       (case val of
          JString s \<Rightarrow> doc\<lparr>text_fields := hm_insert (field_key prefix k) s (text_fields doc)\<rparr>
        | JNumber f _ _ \<Rightarrow>
            (case f of Some x \<Rightarrow> doc\<lparr>number_fields := hm_insert (field_key prefix k) x (number_fields doc)\<rparr> | None \<Rightarrow> doc)
        | JBool b \<Rightarrow> doc\<lparr>text_fields := hm_insert (field_key prefix k) (if b then ''true'' else ''false'') (text_fields doc)\<rparr>
        | JObject inner \<Rightarrow> flatten_into (field_key prefix k) inner doc
        | JArray a \<Rightarrow> if k = ''coordinates'' then set_coordinates a doc else doc
        | JNull \<Rightarrow> doc)"

definition record_to_doc :: "(json \<Rightarrow> string) \<Rightarrow> json \<Rightarrow> string \<Rightarrow> string \<Rightarrow> nat \<Rightarrow> flight_document" where
  "record_to_doc show_json rec id_field id_prefix idx =
     (let i = (case json_get rec id_field of
                 Some (JString s) \<Rightarrow> s
               | Some other \<Rightarrow> show_json other
               | None \<Rightarrow> show_nat idx);
          doc = default_document\<lparr>icao24 := id_prefix @ ''-'' @ i\<rparr>
      in case rec of JObject ms \<Rightarrow> flatten_into [] ms doc | _ \<Rightarrow> doc)"

fun navigate :: "json \<Rightarrow> string list \<Rightarrow> json option" where
  "navigate cur [] = Some cur"
| "navigate cur (seg # path) = (case json_get cur seg of Some next \<Rightarrow> navigate next path | None \<Rightarrow> None)"

definition json_to_docs ::
  "(json \<Rightarrow> string) \<Rightarrow> json \<Rightarrow> string \<Rightarrow> string \<Rightarrow> string list \<Rightarrow> flight_document list" where
  "json_to_docs show_json v id_field id_prefix records_path =
     (case navigate v records_path of
        None \<Rightarrow> []
      | Some cur \<Rightarrow>
          (let records = (case cur of JArray a \<Rightarrow> a | JObject ms \<Rightarrow> [cur] | _ \<Rightarrow> [])
           in map2 (\<lambda>i rec. record_to_doc show_json rec id_field id_prefix i) [0..<length records] records))"

section \<open>Network sources\<close>

record http_source =
  hs_url :: string
  hs_id_field :: string
  hs_id_prefix :: string
  hs_records_path :: "string list"

definition http_from_env :: "(string \<Rightarrow> string option) \<Rightarrow> http_source" where
  "http_from_env var =
     \<lparr>hs_url = (case var ''AETHER_HTTP_URL'' of Some u \<Rightarrow> u | None \<Rightarrow> []),
      hs_id_field = (case var ''AETHER_HTTP_ID_FIELD'' of Some f \<Rightarrow> f | None \<Rightarrow> ''id''),
      hs_id_prefix = (case var ''AETHER_HTTP_ID_PREFIX'' of Some p \<Rightarrow> p | None \<Rightarrow> ''http''),
      hs_records_path = filter (\<lambda>seg. seg \<noteq> [])
        (split_pred (\<lambda>c. c = CHR ''.'') (case var ''AETHER_HTTP_RECORDS_PATH'' of Some p \<Rightarrow> p | None \<Rightarrow> []))\<rparr>"

definition http_fetch ::
  "(json \<Rightarrow> string) \<Rightarrow> (string \<Rightarrow> string + json) \<Rightarrow> http_source \<Rightarrow> string + flight_document list" where
  "http_fetch show_json get src =
     (if hs_url src = [] then Inl ''AETHER_HTTP_URL is not set''
      else case get (hs_url src) of
             Inl e \<Rightarrow> Inl e
           | Inr v \<Rightarrow> Inr (json_to_docs show_json v (hs_id_field src) (hs_id_prefix src) (hs_records_path src)))"

record s3_source =
  s3_bucket :: string
  s3_prefix :: string
  s3_id_field :: string

definition s3_from_env :: "(string \<Rightarrow> string option) \<Rightarrow> s3_source" where
  "s3_from_env var =
     \<lparr>s3_bucket = (case var ''AETHER_S3_INGEST_BUCKET'' of Some b \<Rightarrow> b | None \<Rightarrow> []),
      s3_prefix = (case var ''AETHER_S3_INGEST_PREFIX'' of Some p \<Rightarrow> p | None \<Rightarrow> []),
      s3_id_field = (case var ''AETHER_HTTP_ID_FIELD'' of Some f \<Rightarrow> f | None \<Rightarrow> ''id'')\<rparr>"

text \<open>The listing has an optional key per object; \<open>get\<close> fails with the message of the call; a body that does not parse as JSON is skipped.\<close>

fun s3_objects ::
  "(json \<Rightarrow> string) \<Rightarrow> (string \<Rightarrow> string + u8 list) \<Rightarrow> (u8 list \<Rightarrow> json option) \<Rightarrow> string \<Rightarrow> string option list \<Rightarrow>
    string + flight_document list" where
  "s3_objects show_json get parse id_field [] = Inr []"
| "s3_objects show_json get parse id_field (None # objs) = s3_objects show_json get parse id_field objs"
| "s3_objects show_json get parse id_field (Some key # objs) =
     (case get key of
        Inl e \<Rightarrow> Inl e
      | Inr bytes \<Rightarrow>
          (case s3_objects show_json get parse id_field objs of
             Inl e \<Rightarrow> Inl e
           | Inr ds \<Rightarrow>
               (case parse bytes of
                  None \<Rightarrow> Inr ds
                | Some v \<Rightarrow> Inr (json_to_docs show_json v id_field (''s3:'' @ key) [] @ ds))))"

definition s3_fetch ::
  "(json \<Rightarrow> string) \<Rightarrow> (string \<Rightarrow> string \<Rightarrow> string + string option list) \<Rightarrow> (string \<Rightarrow> string \<Rightarrow> string + u8 list) \<Rightarrow>
    (u8 list \<Rightarrow> json option) \<Rightarrow> s3_source \<Rightarrow> string + flight_document list" where
  "s3_fetch show_json list_objects get parse src =
     (if s3_bucket src = [] then Inl ''AETHER_S3_INGEST_BUCKET is not set''
      else case list_objects (s3_bucket src) (s3_prefix src) of
             Inl e \<Rightarrow> Inl (''s3 list: '' @ e)
           | Inr objs \<Rightarrow> s3_objects show_json (get (s3_bucket src)) parse (s3_id_field src) objs)"

definition OPENSKY_STATES_URL :: string where
  "OPENSKY_STATES_URL = ''https://opensky-network.org/api/states/all''"

definition opensky_auth :: "(string \<Rightarrow> string option) \<Rightarrow> (string \<times> string) option" where
  "opensky_auth var =
     (case (var ''OPENSKY_USERNAME'', var ''OPENSKY_PASSWORD'') of
        (Some u, Some p) \<Rightarrow> if u \<noteq> [] \<and> p \<noteq> [] then Some (u, p) else None
      | _ \<Rightarrow> None)"

definition at_pos :: "'a list \<Rightarrow> nat \<Rightarrow> 'a option" where
  "at_pos s i = (if i < length s then Some (s ! i) else None)"

definition str_at :: "json list \<Rightarrow> nat \<Rightarrow> string" where
  "str_at s i = trim (case Option.bind (at_pos s i) as_str of Some t \<Rightarrow> t | None \<Rightarrow> [])"

definition f64_at :: "json list \<Rightarrow> nat \<Rightarrow> f64" where
  "f64_at s i = (case Option.bind (at_pos s i) as_f64 of Some x \<Rightarrow> x | None \<Rightarrow> fzero)"

text \<open>The time in milliseconds is a signed 64-bit product, which wraps in a release build.\<close>

definition map_state :: "json list \<Rightarrow> flight_document option" where
  "map_state s =
     (case Option.bind (at_pos s 0) as_str of
        None \<Rightarrow> None
      | Some raw \<Rightarrow>
          (let key = trim raw
           in if key = [] then None
              else Some (default_document\<lparr>icao24 := key, callsign := str_at s 1,
                observed_at := sint ((word_of_int (case Option.bind (at_pos s 3) as_i64 of Some t \<Rightarrow> t | None \<Rightarrow> 0) :: u64) * 1000),
                latitude := f64_at s 6, longitude := f64_at s 5, altitude := f64_at s 7, origin := str_at s 2,
                velocity := f64_at s 9, heading := f64_at s 10, vertical_rate := f64_at s 11,
                on_ground := (case Option.bind (at_pos s 8) as_bool of Some b \<Rightarrow> b | None \<Rightarrow> False)\<rparr>)))"

definition opensky_fetch ::
  "(string \<Rightarrow> (string \<times> string) option \<Rightarrow> string + json list list option) \<Rightarrow> (string \<times> string) option \<Rightarrow> string + flight_document list" where
  "opensky_fetch get auth1 =
     (case get OPENSKY_STATES_URL auth1 of
        Inl e \<Rightarrow> Inl e
      | Inr states \<Rightarrow> Inr (List.map_filter map_state (case states of Some ss \<Rightarrow> ss | None \<Rightarrow> [])))"

section \<open>The ingestion loop\<close>

text \<open>
  The consumer: the owned documents of a batch are inserted under the write lock; what was
  indexed is collected when there is a replication channel. \<open>view i\<close> is the virtual-shard
  table at the \<open>i\<close>th check, since the poller may replace it in between.
\<close>

fun consume_docs ::
  "(string \<Rightarrow> vec32) \<Rightarrow> ownership \<Rightarrow> bool \<Rightarrow> (nat \<Rightarrow> u32 list) \<Rightarrow> nat \<Rightarrow> flight_document list \<Rightarrow> shard_store \<Rightarrow>
    (shard_store \<times> flight_document list) option" where
  "consume_docs emb own rep view i [] st = Some (st, [])"
| "consume_docs emb own rep view i (d # ds) st =
     (if owns own (view i) (icao24 d) then
        Option.bind (store_insert emb st d) (\<lambda>st'.
          map_option (\<lambda>(t, indexed). (t, if rep then d # indexed else indexed)) (consume_docs emb own rep view (Suc i) ds st'))
      else consume_docs emb own rep view (Suc i) ds st)"

definition CHANNEL :: nat where
  "CHANNEL = 4"

record ingest_state =
  polls :: nat
  queue :: "flight_document list list"
  i_store :: "shard_store option"
  forwarded :: "flight_document list list"
  producing :: bool
  consuming :: bool

definition ingest_start :: "shard_store \<Rightarrow> ingest_state" where
  "ingest_start st = \<lparr>polls = 0, queue = [], i_store = Some st, forwarded = [], producing = True, consuming = True\<rparr>"

definition may_poll :: "nat option \<Rightarrow> ingest_state \<Rightarrow> bool" where
  "may_poll max_polls s \<longleftrightarrow> (case max_polls of Some limit \<Rightarrow> polls s < limit | None \<Rightarrow> True)"

text \<open>
  One step of either task. A step is labelled with the batch it sends, if it sends one. A
  full channel blocks the producer: there is no step for it. \<open>seen\<close> says which tables the
  consumer can see during a batch.
\<close>

inductive ingest_step ::
  "(string \<Rightarrow> vec32) \<Rightarrow> ownership \<Rightarrow> bool \<Rightarrow> nat option \<Rightarrow> ((nat \<Rightarrow> u32 list) \<Rightarrow> bool) \<Rightarrow>
    ingest_state \<Rightarrow> flight_document list option \<Rightarrow> ingest_state \<Rightarrow> bool"
  for emb own rep max_polls seen where
  poll_send: "producing s \<Longrightarrow> may_poll max_polls s \<Longrightarrow> batch \<noteq> [] \<Longrightarrow> consuming s \<Longrightarrow> length (queue s) < CHANNEL \<Longrightarrow>
    ingest_step emb own rep max_polls seen s (Some batch) (s\<lparr>polls := polls s + 1, queue := queue s @ [batch]\<rparr>)"
| poll_gone: "producing s \<Longrightarrow> may_poll max_polls s \<Longrightarrow> \<not> consuming s \<Longrightarrow>
    ingest_step emb own rep max_polls seen s None (s\<lparr>producing := False\<rparr>)"
| poll_nothing: "producing s \<Longrightarrow> may_poll max_polls s \<Longrightarrow>
    ingest_step emb own rep max_polls seen s None (s\<lparr>polls := polls s + 1\<rparr>)"
| poll_limit: "producing s \<Longrightarrow> \<not> may_poll max_polls s \<Longrightarrow>
    ingest_step emb own rep max_polls seen s None (s\<lparr>producing := False\<rparr>)"
| consume: "consuming s \<Longrightarrow> queue s = batch # rest \<Longrightarrow> i_store s = Some st \<Longrightarrow> seen view \<Longrightarrow>
    consume_docs emb own rep view 0 batch st = Some (st', indexed) \<Longrightarrow>
    ingest_step emb own rep max_polls seen s None
      (s\<lparr>queue := rest, i_store := Some st', forwarded := (if rep then forwarded s @ [indexed] else forwarded s)\<rparr>)"
| consume_panic: "consuming s \<Longrightarrow> queue s = batch # rest \<Longrightarrow> i_store s = Some st \<Longrightarrow> seen view \<Longrightarrow>
    consume_docs emb own rep view 0 batch st = None \<Longrightarrow>
    ingest_step emb own rep max_polls seen s None (s\<lparr>queue := rest, i_store := None, consuming := False\<rparr>)"
| consume_poisoned: "consuming s \<Longrightarrow> queue s = batch # rest \<Longrightarrow> i_store s = None \<Longrightarrow>
    ingest_step emb own rep max_polls seen s None (s\<lparr>queue := rest, consuming := False\<rparr>)"
| drained: "consuming s \<Longrightarrow> queue s = [] \<Longrightarrow> \<not> producing s \<Longrightarrow>
    ingest_step emb own rep max_polls seen s None (s\<lparr>consuming := False\<rparr>)"

inductive ingest_run ::
  "(string \<Rightarrow> vec32) \<Rightarrow> ownership \<Rightarrow> bool \<Rightarrow> nat option \<Rightarrow> ((nat \<Rightarrow> u32 list) \<Rightarrow> bool) \<Rightarrow> shard_store \<Rightarrow>
    flight_document list list \<Rightarrow> ingest_state \<Rightarrow> bool"
  for emb own rep max_polls seen st0 where
  run_start: "ingest_run emb own rep max_polls seen st0 [] (ingest_start st0)"
| run_step: "ingest_run emb own rep max_polls seen st0 sent s \<Longrightarrow> ingest_step emb own rep max_polls seen s lab s' \<Longrightarrow>
    ingest_run emb own rep max_polls seen st0 (case lab of Some b \<Rightarrow> sent @ [b] | None \<Rightarrow> sent) s'"

section \<open>Who owns a document\<close>

lemma owns_mapped:
  fixes table :: "u32 list"
  shows "owns (Mapped g) table key \<longleftrightarrow>
    (of_len table :: u32) \<noteq> 0 \<and> table ! unat (vshard_for key (of_len table)) = g"
proof -
  have "unat (vshard_for key (of_len table)) < length table" if "(of_len table :: u32) \<noteq> 0"
  proof -
    have "vshard_for key (of_len table) < (of_len table :: u32)"
      unfolding vshard_for_def using that by (intro shard_for_less) (simp add: word_neq_0_conv)
    then have "unat (vshard_for key (of_len table)) < unat (of_len table :: u32)" by (simp add: word_less_nat_alt)
    also have "\<dots> \<le> length table" by (simp add: unat_of_nat)
    finally show ?thesis .
  qed
  then show ?thesis by (auto simp: owns_def Let_def)
qed

lemma vshard_in_table:
  fixes table :: "u32 list"
  shows "(of_len table :: u32) \<noteq> 0 \<Longrightarrow> table ! unat (vshard_for key (of_len table)) \<in> set table"
  using owns_mapped [of "table ! unat (vshard_for key (of_len table))" table key]
  by (auto simp: owns_def Let_def split: if_splits)

text \<open>
  Placement is a partition. Under the table of a well-formed registry every document is owned
  by exactly one group, and that group is one of the configured ones; before a table is
  fetched no group owns anything; under plain modulo placement exactly one of the \<open>n\<close> shards
  owns it. So nodes that filter the same stream by the same placement index every document
  once.
\<close>

theorem ownership_partition:
  assumes "registry_inv reg" and "0 < n"
  shows "(if (of_len (vshards reg) :: u32) = 0 then \<forall>g. \<not> owns (Mapped g) (vshards reg) key
      else \<exists>!g. owns (Mapped g) (vshards reg) key)
    \<and> (\<forall>g. owns (Mapped g) (vshards reg) key \<longrightarrow> g < shard_count reg)
    \<and> (\<exists>!i. owns (Modulo \<lparr>sa_index = i, sa_count = n\<rparr>) table key)
    \<and> (\<forall>i. owns (Modulo \<lparr>sa_index = i, sa_count = n\<rparr>) table key \<longrightarrow> i < n)"
proof -
  have "g < shard_count reg" if "owns (Mapped g) (vshards reg) key" for g
    using assms(1) that vshard_in_table [of "vshards reg" key] by (auto simp: owns_mapped registry_inv_def)
  moreover have "owns (Modulo \<lparr>sa_index = i, sa_count = n\<rparr>) table key \<longleftrightarrow> i = shard_for key n" for i
    by (auto simp: owns_def assignment_owns_def)
  ultimately show ?thesis using shard_for_less [OF assms(2)] by (auto simp: owns_mapped)
qed

theorem ownership_partition_witness:
  "\<exists>!g. owns (Mapped g) (vshards (the (with_vshards (registry_new 3) 12))) ''a1b2c3''"
proof -
  let ?reg = "the (with_vshards (registry_new 3) 12)"
  have "with_vshards (registry_new 3) 12 = Some ?reg" by (simp add: with_vshards_def registry_new_def)
  then have "registry_inv ?reg" by (rule with_vshards_inv)
  moreover have "(of_len (vshards ?reg) :: u32) \<noteq> 0" by (simp add: with_vshards_def registry_new_def)
  ultimately show ?thesis using ownership_partition [of ?reg 1 "''a1b2c3''" "[]"] by (simp only: if_False) simp
qed

section \<open>What the loop indexes\<close>

definition put_docs :: "(string \<rightharpoonup> flight_document) \<Rightarrow> flight_document list \<Rightarrow> (string \<rightharpoonup> flight_document)" where
  "put_docs c ds = foldl (\<lambda>c d. c(icao24 d \<mapsto> d)) c ds"

lemma consume_docs_spec:
  assumes "store_inv emb st"
  shows "\<exists>st'. consume_docs emb own rep (\<lambda>_. table) i ds st =
      Some (st', if rep then filter (\<lambda>d. owns own table (icao24 d)) ds else [])
    \<and> store_inv emb st' \<and> store_content st' = put_docs (store_content st) (filter (\<lambda>d. owns own table (icao24 d)) ds)"
  using assms
proof (induction ds arbitrary: st i)
  case (Cons d ds)
  obtain s1 where s1: "store_insert emb st d = Some s1" "store_inv emb s1" "store_content s1 = (store_content st)(icao24 d \<mapsto> d)"
    using store_insert_spec [OF Cons.prems] by blast
  show ?case
  proof (cases "owns own table (icao24 d)")
    case True
    have "put_docs (store_content s1) xs = put_docs (store_content st) (d # xs)" for xs
      unfolding put_docs_def s1(3) by simp
    with True Cons.IH [OF s1(2), of "Suc i"] s1(1) show ?thesis by auto
  next
    case False
    with Cons.IH [OF Cons.prems, of "Suc i"] show ?thesis by auto
  qed
qed (simp add: put_docs_def)

text \<open>What holds in every state of a run under one table; \<open>ok\<close> are the batches consumed so far.\<close>

definition ingest_inv ::
  "(string \<Rightarrow> vec32) \<Rightarrow> ownership \<Rightarrow> u32 list \<Rightarrow> bool \<Rightarrow> nat option \<Rightarrow> shard_store \<Rightarrow> flight_document list list \<Rightarrow>
    flight_document list list \<Rightarrow> ingest_state \<Rightarrow> bool" where
  "ingest_inv emb own table rep max_polls st0 sent ok s \<longleftrightarrow>
     sent = ok @ queue s \<and> length (queue s) \<le> CHANNEL
     \<and> (\<exists>st. i_store s = Some st \<and> store_inv emb st
        \<and> store_content st = put_docs (store_content st0) (filter (\<lambda>d. owns own table (icao24 d)) (concat ok)))
     \<and> forwarded s = (if rep then map (filter (\<lambda>d. owns own table (icao24 d))) ok else [])
     \<and> (\<forall>limit. max_polls = Some limit \<longrightarrow> polls s \<le> limit)
     \<and> (consuming s \<or> queue s = [] \<and> \<not> producing s)"

lemma put_docs_append: "put_docs (put_docs c xs) ys = put_docs c (xs @ ys)"
  by (simp add: put_docs_def)

lemma ingest_step_inv:
  assumes "ingest_step emb own rep max_polls (\<lambda>v. v = (\<lambda>_. table)) s lab s'"
    and "ingest_inv emb own table rep max_polls st0 sent ok s"
  shows "\<exists>ok. ingest_inv emb own table rep max_polls st0 (case lab of Some b \<Rightarrow> sent @ [b] | None \<Rightarrow> sent) ok s'"
  using assms
proof (cases rule: ingest_step.cases)
  case (consume batch rest st view st' indexed)
  then have "store_inv emb st" using assms(2) by (auto simp: ingest_inv_def)
  from consume_docs_spec [OF this, of own rep table 0 batch] consume assms(2) show ?thesis
    by (intro exI [of _ "ok @ [batch]"]) (auto simp: ingest_inv_def put_docs_append [symmetric])
next
  case (consume_panic batch rest st view)
  then have "store_inv emb st" using assms(2) by (auto simp: ingest_inv_def)
  from consume_docs_spec [OF this, of own rep table 0 batch] consume_panic show ?thesis by auto
qed (use assms(2) in \<open>auto simp: ingest_inv_def may_poll_def split: option.splits\<close>)

lemma ingest_run_inv:
  assumes "ingest_run emb own rep max_polls (\<lambda>v. v = (\<lambda>_. table)) st0 sent s" and "store_inv emb st0"
  shows "\<exists>ok. ingest_inv emb own table rep max_polls st0 sent ok s"
  using assms
proof (induction rule: ingest_run.induct)
  case run_start
  then show ?case by (intro exI [of _ "[]"]) (simp add: ingest_inv_def ingest_start_def put_docs_def)
next
  case (run_step sent s lab s')
  then show ?case using ingest_step_inv by blast
qed

lemma ingest_step_decreases:
  "ingest_step emb own rep (Some limit) seen s lab s' \<Longrightarrow>
    3 * (limit - polls s') + length (queue s') + (if producing s' then 1 else 0) + (if consuming s' then 1 else 0)
    < 3 * (limit - polls s) + length (queue s) + (if producing s then 1 else 0) + (if consuming s then 1 else 0)"
  by (erule ingest_step.cases) (auto simp: may_poll_def)

lemma ingest_wf: "wf {(s', s). \<exists>lab. ingest_step emb own rep (Some limit) seen s lab s'}"
proof (rule wf_subset [OF wf_measure])
  show "{(s', s). \<exists>lab. ingest_step emb own rep (Some limit) seen s lab s'}
    \<subseteq> measure (\<lambda>s. 3 * (limit - polls s) + length (queue s) + (if producing s then 1 else 0) + (if consuming s then 1 else 0))"
    using ingest_step_decreases by (auto simp only: in_measure mem_Collect_eq case_prod_conv)
qed

lemma ingest_progress:
  assumes "ingest_inv emb own table rep max_polls st0 sent ok s" and "producing s \<or> consuming s"
  shows "\<exists>lab s'. ingest_step emb own rep max_polls (\<lambda>v. v = (\<lambda>_. table)) s lab s'"
proof (cases "producing s")
  case True
  then show ?thesis using poll_nothing poll_limit by blast
next
  case False
  then have c: "consuming s" using assms(2) by simp
  obtain st where st: "i_store s = Some st" "store_inv emb st" using assms(1) by (auto simp: ingest_inv_def)
  show ?thesis
  proof (cases "queue s")
    case Nil
    then show ?thesis using drained [OF c _ False] by blast
  next
    case (Cons batch rest)
    from consume_docs_spec [OF st(2), of own rep table 0 batch] obtain st' ix where
      "consume_docs emb own rep (\<lambda>_. table) 0 batch st = Some (st', ix)" by blast
    from consume [OF c Cons st(1) _ this, of "\<lambda>v. v = (\<lambda>_. table)"] show ?thesis by blast
  qed
qed



section \<open>Keys of the synthetic sources\<close>

definition hex_value :: "string \<Rightarrow> nat" where
  "hex_value ds = foldl (\<lambda>n c. 16 * n + (if code c < 58 then code c - 48 else code c - 87)) 0 ds"

lemma hex_digit: "n < 16 \<Longrightarrow> (if code (''0123456789abcdef'' ! n) < 58 then code (''0123456789abcdef'' ! n) - 48 else code (''0123456789abcdef'' ! n) - 87) = n"
proof -
  assume "n < 16"
  then have "n \<in> {0..<16}" by simp
  moreover have "\<forall>n \<in> {0..<16}. (if code (''0123456789abcdef'' ! n) < 58 then code (''0123456789abcdef'' ! n) - 48 else code (''0123456789abcdef'' ! n) - 87) = n"
    by code_simp
  ultimately show ?thesis by blast
qed

lemma hex_value_digits: "hex_value (hex_digits n) = n"
proof (induction n rule: hex_digits.induct)
  case (1 n)
  have snoc: "hex_value (ds @ [c]) = 16 * hex_value ds + (if code c < 58 then code c - 48 else code c - 87)" for ds c
    by (simp add: hex_value_def)
  show ?case
  proof (cases "n < 16")
    case True
    then show ?thesis using hex_digit [OF True] by (simp add: hex_digits.simps [of n] hex_value_def)
  next
    case False
    with 1 hex_digit [of "n mod 16"] show ?thesis by (simp only: hex_digits.simps [of n] snoc if_False) simp
  qed
qed

lemma hex_value_pad: "hex_value (pad_left w ds) = hex_value ds"
proof -
  have "foldl (\<lambda>n c. 16 * n + (if code c < 58 then code c - 48 else code c - 87)) 0 (replicate k (CHR ''0'')) = 0" for k
    by (induction k) simp_all
  then show ?thesis by (simp add: hex_value_def pad_left_def)
qed

lemma length_hex_digits: "0 < k \<Longrightarrow> n < 16 ^ k \<Longrightarrow> length (hex_digits n) \<le> k"
proof (induction k arbitrary: n)
  case (Suc k)
  show ?case
  proof (cases "n < 16")
    case False
    then have "0 < k" using Suc.prems(2) by (cases k) simp_all
    moreover have "n div 16 < 16 ^ k" using Suc.prems(2) by (simp add: less_mult_imp_div_less mult.commute)
    ultimately show ?thesis using Suc.IH [of "n div 16"] False by (simp add: hex_digits.simps [of n])
  qed (simp add: hex_digits.simps [of n])
qed simp

lemma hex_pad_inj: "hex_pad w x = hex_pad w y \<longleftrightarrow> x = y"
  by (metis hex_pad_def hex_value_digits hex_value_pad word_unat_eq_iff)

lemma length_hex_pad6: "unat s < 2 ^ 24 \<Longrightarrow> length (hex_pad 6 s) = 6"
  using length_hex_digits [of 6 "unat s"] by (simp add: hex_pad_def pad_left_def)

text \<open>
  The documents of the synthetic sources have distinct keys: up to the \<open>2^24\<close>th document of
  a producer, two documents with the same key come from producers with the same seed at the
  same position of the sequence. Past that the keys of different producers can meet, because
  the paddings are minimal widths.
\<close>

theorem synthetic_keys_unique:
  assumes "unat s < 2 ^ 24" and "unat s' < 2 ^ 24"
  shows "(icao24 (synthetic_doc sd s) = icao24 (synthetic_doc sd' s') \<longleftrightarrow> sd = sd' \<and> s = s')
    \<and> (icao24 (security_doc sd s) = icao24 (security_doc sd' s') \<longleftrightarrow> sd = sd' \<and> s = s')
    \<and> icao24 (synthetic_doc 0x1234 0x5678901) = icao24 (synthetic_doc 0x12345 0x678901)"
proof -
  have "hex_pad 4 sd @ hex_pad 6 s = hex_pad 4 sd' @ hex_pad 6 s' \<longleftrightarrow> sd = sd' \<and> s = s'"
    using length_hex_pad6 [OF assms(1)] length_hex_pad6 [OF assms(2)] by (simp add: hex_pad_inj)
  moreover have "synthetic_key 0x1234 0x5678901 = synthetic_key 0x12345 0x678901"
    by (simp add: synthetic_key_def hex_pad_def pad_left_def hex_digits.simps)
  ultimately show ?thesis by (simp add: synthetic_doc_def security_doc_def synthetic_key_def Let_def)
qed

theorem synthetic_keys_unique_witness:
  "icao24 (synthetic_doc 1 2) \<noteq> icao24 (synthetic_doc 1 3)"
  using synthetic_keys_unique [of 2 3 1 1] by simp

section \<open>Dotted names\<close>

text \<open>A member whose name contains a dot and a nested member can flatten to the same field.\<close>

lemma dotted_names_collide:
  "text_fields (flatten_into [] [(''a.b'', JString ''x''), (''a'', JObject [(''b'', JString ''y'')])] default_document) = [(''a.b'', ''y'')]"
  by (simp add: field_key_def default_document_def)

end
