(* ===== verification/Shard_App.thy ===== *)
theory Shard_App
  imports Store Raft_Sm
begin

text \<open>
  The state machine of a shard's raft group (\<open>crates/shard-node/src/raft/mod.rs\<close>): committed
  payloads are shard commands, decoded by the protobuf codec (an argument), and applied to
  the document store; a snapshot is the encoded list of documents. The store sits behind a
  lock: a panic while it is held poisons it and every later use panics, so the state is an
  option and \<open>None\<close> is the poisoned store.
\<close>

datatype shard_command = Batch "flight_document list" | Evict u32 u32

definition shard_apply ::
  "(string \<Rightarrow> vec32) \<Rightarrow> (u8 list \<Rightarrow> shard_command option) \<Rightarrow> shard_store option \<Rightarrow> u8 list \<Rightarrow>
    shard_store option \<times> u32" where
  "shard_apply emb decC st payload =
     (case st of
        None \<Rightarrow> (None, 0)
      | Some s \<Rightarrow>
          (case decC payload of
             None \<Rightarrow> (st, 0)
           | Some (Batch ds) \<Rightarrow> (store_insert_all emb s ds, of_len ds)
           | Some (Evict vshard v) \<Rightarrow>
               (case evict_vshard emb s vshard v of
                  None \<Rightarrow> (None, 0)
                | Some (s', removed) \<Rightarrow> (Some s', word_of_nat removed))))"

definition shard_snapshot_bytes :: "(flight_document list \<Rightarrow> u8 list) \<Rightarrow> shard_store option \<Rightarrow> u8 list" where
  "shard_snapshot_bytes encR st = (case st of None \<Rightarrow> [] | Some s \<Rightarrow> encR (store_documents s))"

definition shard_restore ::
  "(string \<Rightarrow> vec32) \<Rightarrow> (u8 list \<Rightarrow> flight_document list option) \<Rightarrow> shard_store option \<Rightarrow> u8 list \<Rightarrow>
    shard_store option \<times> u32" where
  "shard_restore emb decR st bytes =
     (let decoded = (case decR bytes of Some ds \<Rightarrow> ds | None \<Rightarrow> [])
      in (Option.bind st (\<lambda>s. replace_all emb s decoded), of_len decoded))"

section \<open>Replicas converge\<close>

definition shard_ok ::
  "(string \<Rightarrow> vec32) \<Rightarrow> (flight_document list \<Rightarrow> u8 list) \<Rightarrow> (u8 list \<Rightarrow> flight_document list option) \<Rightarrow>
    shard_store option \<Rightarrow> bool" where
  "shard_ok emb encR decR st \<longleftrightarrow> (\<exists>s. st = Some s \<and> store_inv emb s) \<and> (\<forall>ds. decR (encR ds) = Some ds)"

definition same_documents :: "shard_store option \<Rightarrow> shard_store option \<Rightarrow> bool" where
  "same_documents st st' \<longleftrightarrow> (\<exists>s s'. st = Some s \<and> st' = Some s' \<and> store_content s = store_content s')"

lemma shard_apply_spec:
  assumes "store_inv emb s"
  shows "\<exists>s'. shard_apply emb decC (Some s) p = (Some s', case decC p of
        None \<Rightarrow> 0 | Some (Batch ds) \<Rightarrow> of_len ds
      | Some (Evict vs v) \<Rightarrow> word_of_nat (if v = 0 then 0 else card {k \<in> dom (store_content s). vshard_for k v = vs}))
    \<and> store_inv emb s'
    \<and> store_content s' = (case decC p of None \<Rightarrow> store_content s
      | Some (Batch ds) \<Rightarrow> foldl (\<lambda>c d. c(icao24 d \<mapsto> d)) (store_content s) ds
      | Some (Evict vs v) \<Rightarrow> if v = 0 then store_content s else store_content s |` {k. vshard_for k v \<noteq> vs})"
proof (cases "decC p")
  case None
  with assms show ?thesis by (simp add: shard_apply_def)
next
  case (Some c)
  then show ?thesis
  proof (cases c)
    case (Batch ds)
    with Some store_insert_all_spec [OF assms, of ds] show ?thesis by (auto simp: shard_apply_def)
  next
    case (Evict vs v)
    from evict_vshard_spec [OF assms, of vs v] obtain s' where
      "evict_vshard emb s vs v = Some (s', if v = 0 then 0 else card {k \<in> dom (store_content s). vshard_for k v = vs})"
      "store_inv emb s'" "store_content s' = (if v = 0 then store_content s else store_content s |` {k. vshard_for k v \<noteq> vs})"
      by blast
    with Some Evict show ?thesis by (simp add: shard_apply_def)
  qed
qed

lemma shard_restore_spec:
  assumes "shard_ok emb encR decR (Some s)" and "store_inv emb t"
  shows "\<exists>t'. fst (shard_restore emb decR (Some t) (shard_snapshot_bytes encR (Some s))) = Some t'
    \<and> store_inv emb t' \<and> store_content t' = store_content s"
proof -
  have s: "index_inv (keyword s)" and codec: "decR (encR (store_documents s)) = Some (store_documents s)"
    using assms(1) by (auto simp: shard_ok_def store_inv_def)
  have "distinct (map icao24 (store_documents s))" by (simp add: store_documents_def documents_content(2) [OF s])
  from replace_all_spec [OF assms(2) this] obtain t' where t': "replace_all emb t (store_documents s) = Some t'"
    "store_inv emb t'" "\<forall>k d. store_content t' k = Some d \<longleftrightarrow> d \<in> set (store_documents s) \<and> icao24 d = k" by blast
  have "store_content t' k = store_content s k" for k
  proof (rule option_eq_by_Some)
    fix d
    have "d \<in> set (store_documents s) \<longleftrightarrow> d \<in> ran (store_content s)"
      by (simp add: store_documents_def documents_content(1) [OF s])
    then show "store_content t' k = Some d \<longleftrightarrow> store_content s k = Some d"
      using t'(3) content_icao24 [OF s] by (auto simp: ran_def)
  qed
  then have "store_content t' = store_content s" by (rule ext)
  with t' codec show ?thesis by (simp add: shard_restore_def shard_snapshot_bytes_def)
qed

interpretation shard: state_machine_app "shard_ok emb encR decR" same_documents "shard_apply emb decC"
  "shard_snapshot_bytes encR" "shard_restore emb decR" for emb encR decR decC
proof unfold_locales
  fix st st' :: "shard_store option" and p
  assume ok: "shard_ok emb encR decR st"
  then obtain s where s: "st = Some s" "store_inv emb s" and codec: "\<forall>ds. decR (encR ds) = Some ds"
    unfolding shard_ok_def by blast
  show "same_documents st st" by (simp add: same_documents_def s)
  show "shard_ok emb encR decR (fst (shard_apply emb decC st p))"
    using shard_apply_spec [OF s(2), of decC p] codec by (auto simp: shard_ok_def s(1))
  assume ok': "shard_ok emb encR decR st'"
  then obtain s' where s': "st' = Some s'" "store_inv emb s'" unfolding shard_ok_def by blast
  show "shard_ok emb encR decR (fst (shard_restore emb decR st' (shard_snapshot_bytes encR st)))"
    "same_documents (fst (shard_restore emb decR st' (shard_snapshot_bytes encR st))) st"
    using shard_restore_spec [OF ok [unfolded s(1)] s'(2)] codec
    by (auto simp: shard_ok_def same_documents_def s(1) s'(1))
  assume "same_documents st st'"
  then have same: "store_content s = store_content s'" by (simp add: same_documents_def s(1) s'(1))
  show "same_documents (fst (shard_apply emb decC st p)) (fst (shard_apply emb decC st' p))"
    "snd (shard_apply emb decC st p) = snd (shard_apply emb decC st' p)"
    using shard_apply_spec [OF s(2), of decC p] shard_apply_spec [OF s'(2), of decC p] unfolding same
    by (auto simp: same_documents_def s(1) s'(1))
qed

text \<open>
  C10: A shard replica that installs another member's snapshot and applies the rest of the
  log serves the same documents, in both indexes, as the member that applied everything, and
  answered every entry alike; this holds whatever documents, slots, tombstones and rebuilds
  either of them had before.
\<close>

theorem shard_replicas_converge:
  assumes "\<forall>ds. decR (encR ds) = Some ds"
    and "sm_app leader = Some a" "store_inv emb a" and "sm_app follower = Some b" "store_inv emb b"
  shows "let joined = sm_apply (shard_apply emb decC) (install_snapshot enc (shard_restore emb decR) follower
           (snd (build_snapshot enc (shard_snapshot_bytes encR) leader))) tail1;
         direct = sm_apply (shard_apply emb decC) leader tail1
     in same_documents (sm_app (fst joined)) (sm_app (fst direct)) \<and> snd joined = snd direct
        \<and> store_inv emb (the (sm_app (fst joined)))"
proof -
  have ok: "shard_ok emb encR decR (sm_app leader)" "shard_ok emb encR decR (sm_app follower)"
    using assms by (auto simp: shard_ok_def)
  have "snd (sm_apply (shard_apply emb decC) (install_snapshot enc (shard_restore emb decR) follower
           (snd (build_snapshot enc (shard_snapshot_bytes encR) leader))) tail1)
      = snd (sm_apply (shard_apply emb decC) leader tail1)"
    using shard.sm_apply_eqv [OF shard.install_eqv [OF ok]] by blast
  with shard.snapshot_then_tail [OF ok, of decC enc tail1] show ?thesis
    by (auto simp: Let_def shard.sm_eqv_def shard_ok_def)
qed

section \<open>A concrete codec\<close>

text \<open>Documents are countable, which gives an encoding into bytes that can be undone.\<close>

instance f64 :: countable
  by countable_datatype

definition doc_fields :: "flight_document \<Rightarrow> _" where
  "doc_fields d = ((icao24 d, callsign d, observed_at d, latitude d, longitude d, altitude d, origin d, destination d),
     (aircraft_type d, velocity d, heading d, vertical_rate d, on_ground d, tenant_id d, text_fields d, number_fields d))"

lemma doc_fields_inj: "inj doc_fields"
  by (rule injI) (auto simp: doc_fields_def intro!: flight_document.equality)

definition enc_docs :: "flight_document list \<Rightarrow> u8 list" where
  "enc_docs ds = replicate (to_nat (map doc_fields ds)) 1"

definition dec_docs :: "u8 list \<Rightarrow> flight_document list option" where
  "dec_docs bs = Some (map (inv doc_fields) (from_nat (length bs)))"

lemma dec_enc_docs: "dec_docs (enc_docs ds) = Some ds"
  by (simp add: dec_docs_def enc_docs_def comp_def inv_f_f [OF doc_fields_inj])

theorem shard_replicas_converge_witness:
  "let dec = (\<lambda>bs. Some (Batch [sample_doc ''c'' ''UAL'']));
       leader = sm_new (store_insert hash_embed store_new (sample_doc ''a'' ''DAL''));
       follower = sm_new (store_insert hash_embed store_new (sample_doc ''b'' ''SWA''));
       es = [\<lparr>entry_id = \<lparr>li_term = 1, li_node = 1, li_index = 2\<rparr>, entry_payload = Normal []\<rparr>];
       joined = sm_apply (shard_apply hash_embed dec) (install_snapshot (\<lambda>_. []) (shard_restore hash_embed dec_docs) follower
           (snd (build_snapshot (\<lambda>_. []) (shard_snapshot_bytes enc_docs) leader))) es;
       direct = sm_apply (shard_apply hash_embed dec) leader es
   in same_documents (sm_app (fst joined)) (sm_app (fst direct))"
proof -
  have new: "store_inv hash_embed store_new"
    using vec_empty_inv [of with_embedder hash_embed] by (simp add: store_inv_def store_new_def index_new_inv with_embedder_def)
  obtain a b where "store_insert hash_embed store_new (sample_doc ''a'' ''DAL'') = Some a" "store_inv hash_embed a"
    "store_insert hash_embed store_new (sample_doc ''b'' ''SWA'') = Some b" "store_inv hash_embed b"
    using store_insert_spec [OF new] by blast
  then show ?thesis
    unfolding Let_def
    by (intro shard_replicas_converge [of dec_docs enc_docs _ a hash_embed _ b, unfolded Let_def, THEN conjunct1])
      (simp_all add: dec_enc_docs sm_new_def)
qed

end
