(* ===== verification/Shard_Group.thy ===== *)
theory Shard_Group
  imports Ingest Shard_App
begin

text \<open>
  The life of a shard's raft group: registration and heartbeats with the coordinators
  (\<open>crates/shard-node/src/cluster.rs\<close>), group formation and leadership-gated ingestion
  (\<open>raft/bootstrap.rs\<close>), membership reconciliation (\<open>raft/reconcile.rs\<close>) and the eviction
  watcher (\<open>raft/eviction.rs\<close>). The periodic loops are modelled by their ticks. What the
  network, the clock and the consensus library answer are arguments; what a tick asks the
  library for is its result.
\<close>

section \<open>Coordinators\<close>

definition split_addrs :: "string \<Rightarrow> string list" where
  "split_addrs raw = filter (\<lambda>s. s \<noteq> []) (map trim (split_pred (\<lambda>c. c = CHR '','') raw))"

definition coordinators_new :: "string list \<Rightarrow> string list option" where
  "coordinators_new addrs = (if addrs = [] then None else Some addrs)"

definition coordinators_from_env :: "(string \<Rightarrow> string option) \<Rightarrow> string list option" where
  "coordinators_from_env var =
     Option.bind (case var ''AETHER_COORDINATOR_ADDRS'' of Some raw \<Rightarrow> Some raw | None \<Rightarrow> var ''AETHER_COORDINATOR_ADDR'')
       (\<lambda>raw. coordinators_new (split_addrs raw))"

text \<open>\<open>reach a\<close> says whether a connection to \<open>a\<close> is accepted.\<close>

fun first_healthy :: "(string \<Rightarrow> bool) \<Rightarrow> string list \<Rightarrow> string option" where
  "first_healthy reach [] = None"
| "first_healthy reach (a # addrs) = (if reach a then Some a else first_healthy reach addrs)"

definition CONNECT_ATTEMPTS :: nat where
  "CONNECT_ATTEMPTS = 20"

text \<open>
  Registration with one coordinator: the connection is tried twenty times (\<open>attempts i\<close> is the
  outcome of the \<open>i\<close>th try), then the call is made once.
\<close>

fun connect_retry :: "(nat \<Rightarrow> string + unit) \<Rightarrow> nat \<Rightarrow> nat \<Rightarrow> string + unit" where
  "connect_retry attempts i 0 = Inl ''unreachable''"
| "connect_retry attempts i (Suc n) =
     (case attempts i of
        Inr u \<Rightarrow> Inr u
      | Inl e \<Rightarrow> if n = 0 then Inl e else connect_retry attempts (Suc i) n)"

definition register_with_coordinator ::
  "(nat \<Rightarrow> string + unit) \<Rightarrow> (register_node_request \<Rightarrow> string + register_node_response) \<Rightarrow> register_node_request \<Rightarrow> string + u32" where
  "register_with_coordinator attempts rpc req =
     (case connect_retry attempts 0 CONNECT_ATTEMPTS of
        Inl e \<Rightarrow> Inl e
      | Inr _ \<Rightarrow>
          (case rpc req of
             Inl e \<Rightarrow> Inl e
           | Inr resp \<Rightarrow>
               if \<not> accepted resp then Inl (''coordinator rejected registration: '' @ resp_message resp)
               else Inr (cluster_size resp)))"

fun register_fold :: "(string \<Rightarrow> string + u32) \<Rightarrow> u32 option \<Rightarrow> string list \<Rightarrow> u32 option" where
  "register_fold reg1 n [] = n"
| "register_fold reg1 n (a # addrs) = register_fold reg1 (case reg1 a of Inr k \<Rightarrow> Some k | Inl _ \<Rightarrow> n) addrs"

definition register_all :: "(string \<Rightarrow> string + u32) \<Rightarrow> string list \<Rightarrow> string + u32" where
  "register_all reg1 addrs =
     (case register_fold reg1 None addrs of
        Some n \<Rightarrow> Inr n
      | None \<Rightarrow> Inl ''no coordinator accepted the registration'')"

section \<open>Heartbeats\<close>

text \<open>
  One tick: every coordinator is told, in order. \<open>beat a\<close> is the answer of the coordinator at
  \<open>a\<close>, if it is reached and answers; a registration to be sent is recorded with its role.
\<close>

record beat_state =
  current_role :: node_role
  reregistered :: "(string \<times> node_role) list"

definition beat_step ::
  "bool \<Rightarrow> (string \<Rightarrow> (bool \<times> node_role) option) \<Rightarrow> beat_state \<Rightarrow> string \<Rightarrow> beat_state" where
  "beat_step raft beat s addr =
     (case beat addr of
        None \<Rightarrow> s
      | Some (known, r) \<Rightarrow>
          if known then
            (if \<not> raft \<and> r \<noteq> RoleUnspecified then s\<lparr>current_role := r\<rparr> else s)
          else s\<lparr>reregistered := reregistered s @ [(addr, if raft then RoleFollower else current_role s)]\<rparr>)"

definition raft_leading :: "(nat option \<times> nat) option \<Rightarrow> bool" where
  "raft_leading raft = (case raft of Some (current_leader, my_id) \<Rightarrow> current_leader = Some my_id | None \<Rightarrow> False)"

definition heartbeat_tick ::
  "(nat option \<times> nat) option \<Rightarrow> (string \<Rightarrow> bool \<Rightarrow> (bool \<times> node_role) option) \<Rightarrow> string list \<Rightarrow> node_role \<Rightarrow> beat_state" where
  "heartbeat_tick raft rpc addrs role1 =
     foldl (beat_step (raft \<noteq> None) (\<lambda>a. rpc a (raft_leading raft))) \<lparr>current_role = role1, reregistered = []\<rparr> addrs"

section \<open>Group formation\<close>

definition raft_node_id :: "string \<Rightarrow> u64" where
  "raft_node_id nid = fnv1a_64 (as_bytes nid)"

text \<open>A map from raft ids to addresses, later members overwriting earlier ones.\<close>

definition member_map :: "node_snapshot list \<Rightarrow> (u64, string) hashmap" where
  "member_map members = foldl (\<lambda>m n. hm_insert (raft_node_id (snap_node_id n)) (snap_address n) m) [] members"

text \<open>
  Polling for the group: \<open>answers i\<close> is what the \<open>i\<close>th poll gets, if anything. The loop may run
  forever, so it has fuel; \<open>None\<close> is not having returned.
\<close>

fun wait_for_group :: "(nat \<Rightarrow> node_snapshot list option) \<Rightarrow> nat \<Rightarrow> nat \<Rightarrow> nat \<Rightarrow> (u64, string) hashmap option" where
  "wait_for_group answers group_size i 0 = None"
| "wait_for_group answers group_size i (Suc fuel) =
     (case answers i of
        Some members \<Rightarrow>
          if length members \<ge> group_size then Some (member_map members)
          else wait_for_group answers group_size (Suc i) fuel
      | None \<Rightarrow> wait_for_group answers group_size (Suc i) fuel)"

definition bootstraps :: "u64 \<Rightarrow> (u64, string) hashmap \<Rightarrow> bool" where
  "bootstraps me members \<longleftrightarrow> members \<noteq> [] \<and> Min (set (hm_keys members)) = me"

text \<open>
  One poll of the leadership-gated ingestion: the command proposed to the group for the owned
  documents of what was fetched, if there are any.
\<close>

definition leader_ingest_poll ::
  "ownership \<Rightarrow> u32 list \<Rightarrow> string + flight_document list \<Rightarrow> shard_command option" where
  "leader_ingest_poll own table fetched =
     (case fetched of
        Inl _ \<Rightarrow> None
      | Inr batch \<Rightarrow>
          (let ds = filter (\<lambda>d. owns own table (icao24 d)) batch
           in if batch = [] \<or> ds = [] then None else Some (Batch ds)))"

section \<open>Membership reconciliation\<close>

datatype membership_change = RemoveVoters u64 | RemoveNodes u64 | AddLearner u64 string | AddVoterIds u64

definition draining_ids :: "node_snapshot list \<Rightarrow> u64 list" where
  "draining_ids members = sorted_list_of_set (set (map (\<lambda>m. raft_node_id (snap_node_id m)) (filter snap_draining members)))"

definition desired_nodes :: "node_snapshot list \<Rightarrow> (u64 \<times> string) list" where
  "desired_nodes members =
     (let m = member_map (filter (\<lambda>m. \<not> snap_draining m) members)
      in map (\<lambda>k. (k, the (hm_get m k))) (sorted_list_of_set (set (hm_keys m))))"

definition removal_for :: "u64 set \<Rightarrow> u64 set \<Rightarrow> u64 \<Rightarrow> membership_change list" where
  "removal_for in_group voters i =
     (if i \<notin> in_group then []
      else if i \<in> voters then (if card voters \<le> 3 then [] else [RemoveVoters i])
      else [RemoveNodes i])"

definition admission_for :: "u64 set \<Rightarrow> u64 set \<Rightarrow> u64 \<times> string \<Rightarrow> membership_change list" where
  "admission_for in_group voters node =
     (if fst node \<notin> in_group then [AddLearner (fst node) (snd node)]
      else if fst node \<notin> voters then [AddVoterIds (fst node)]
      else [])"

text \<open>
  The changes asked for in one tick. The sets are read once before the loops, and a refused
  change only ends its own iteration, so the list does not depend on the answers.
\<close>

definition reconcile_tick :: "bool \<Rightarrow> node_snapshot list option \<Rightarrow> u64 set \<Rightarrow> u64 set \<Rightarrow> membership_change list" where
  "reconcile_tick leading answer in_group voters =
     (if \<not> leading then []
      else case answer of
             None \<Rightarrow> []
           | Some members \<Rightarrow>
               concat (map (removal_for in_group voters) (draining_ids members))
               @ concat (map (admission_for in_group voters) (desired_nodes members)))"

section \<open>Eviction\<close>

definition held_vshards :: "shard_store \<Rightarrow> u32 \<Rightarrow> u32 list" where
  "held_vshards st v = sorted_list_of_set (set (map (\<lambda>d. vshard_for (icao24 d) v) (store_documents st)))"

text \<open>The commands proposed in one tick; \<open>accept n\<close> says whether the \<open>n\<close>th is accepted.\<close>

fun propose_until :: "(nat \<Rightarrow> bool) \<Rightarrow> nat \<Rightarrow> shard_command list \<Rightarrow> shard_command list" where
  "propose_until accept n [] = []"
| "propose_until accept n (c # cs) = (if accept n then c # propose_until accept (Suc n) cs else [])"

definition eviction_tick :: "bool \<Rightarrow> u32 \<Rightarrow> u32 list \<Rightarrow> shard_store \<Rightarrow> (nat \<Rightarrow> bool) \<Rightarrow> shard_command list" where
  "eviction_tick leading g table st accept =
     (let v = of_len table
      in if \<not> leading \<or> v = 0 then []
         else propose_until accept 0
           (map (\<lambda>vshard. Evict vshard v)
             (filter (\<lambda>vshard. \<not> (unat vshard < length table \<and> table ! unat vshard = g)) (held_vshards st v))))"

section \<open>What eviction leaves\<close>

definition commit_all ::
  "(string \<Rightarrow> vec32) \<Rightarrow> (u8 list \<Rightarrow> shard_command option) \<Rightarrow> (shard_command \<Rightarrow> u8 list) \<Rightarrow> shard_store \<Rightarrow> shard_command list \<Rightarrow>
    shard_store option" where
  "commit_all emb decC encC st cs = foldl (\<lambda>s c. fst (shard_apply emb decC s (encC c))) (Some st) cs"

lemma commit_evictions:
  assumes codec: "\<And>c. decC (encC c) = Some c" and "v \<noteq> 0" and "store_inv emb st"
  shows "\<exists>st'. commit_all emb decC encC st (map (\<lambda>vs. Evict vs v) vss) = Some st' \<and> store_inv emb st'
    \<and> store_content st' = store_content st |` {k. vshard_for k v \<notin> set vss}"
  using assms(3)
proof (induction vss arbitrary: st)
  case (Cons vs vss)
  from shard_apply_spec [OF Cons.prems, of decC "encC (Evict vs v)"] obtain s1 where
    s1: "fst (shard_apply emb decC (Some st) (encC (Evict vs v))) = Some s1" "store_inv emb s1"
      "store_content s1 = store_content st |` {k. vshard_for k v \<noteq> vs}"
    using codec assms(2) by auto
  have "{k. vshard_for k v \<noteq> vs} \<inter> {k. vshard_for k v \<notin> set vss} = {k. vshard_for k v \<notin> set (vs # vss)}" by auto
  with Cons.IH [OF s1(2)] s1 show ?case by (simp add: commit_all_def)
qed (simp add: commit_all_def restrict_map_def)

lemma propose_until_take: "\<exists>n. propose_until accept i cs = take n cs \<and> ((\<forall>j. accept j) \<longrightarrow> length cs \<le> n)"
proof (induction cs arbitrary: i)
  case (Cons c cs)
  from Cons.IH [of "Suc i"] obtain n where "propose_until accept (Suc i) cs = take n cs" "(\<forall>j. accept j) \<longrightarrow> length cs \<le> n" by blast
  then show ?case by (intro exI [of _ "if accept i then Suc n else 0"]) auto
qed simp

lemma held_vshards_set:
  assumes "store_inv emb st" shows "set (held_vshards st v) = (\<lambda>k. vshard_for k v) ` dom (store_content st)"
proof -
  have inv: "index_inv (keyword st)" using assms by (simp add: store_inv_def)
  have "set (held_vshards st v) = (\<lambda>k. vshard_for k v) ` icao24 ` set (store_documents st)"
    by (simp add: held_vshards_def image_image)
  also have "icao24 ` set (store_documents st) = dom (store_content st)"
    unfolding store_documents_def documents_content(1) [OF inv] using content_icao24 [OF inv]
    by (force simp: ran_def image_iff)
  finally show ?thesis .
qed

text \<open>
  C6: The eviction watcher never costs a document the group owns, and heals placement. Whatever
  prefix of the proposals of a tick is committed, the store keeps every owned document
  unchanged and gains none; and when all of them commit on the leader, exactly the documents
  that the table still assigns to the group remain.
\<close>

theorem eviction_restores_ownership:
  assumes codec: "\<forall>c. decC (encC c) = Some c" and inv: "store_inv emb st"
  shows "\<exists>st'. commit_all emb decC encC st (eviction_tick leading g table st accept) = Some st' \<and> store_inv emb st'
    \<and> (\<forall>k. owns (Mapped g) table k \<longrightarrow> store_content st' k = store_content st k)
    \<and> (\<forall>k. store_content st' k = None \<or> store_content st' k = store_content st k)
    \<and> (leading \<and> (\<forall>n. accept n) \<and> (of_len table :: u32) \<noteq> 0 \<longrightarrow>
        dom (store_content st') = {k \<in> dom (store_content st). owns (Mapped g) table k})"
proof (cases "\<not> leading \<or> (of_len table :: u32) = 0")
  case True
  then have "eviction_tick leading g table st accept = []" by (auto simp: eviction_tick_def)
  with inv True show ?thesis by (auto simp: commit_all_def)
next
  case False
  let ?v = "of_len table :: u32"
  let ?vss = "filter (\<lambda>vs. \<not> (unat vs < length table \<and> table ! unat vs = g)) (held_vshards st ?v)"
  obtain n where n: "eviction_tick leading g table st accept = map (\<lambda>vs. Evict vs ?v) (take n ?vss)"
    and all: "(\<forall>j. accept j) \<longrightarrow> length ?vss \<le> n"
    using propose_until_take [of accept 0 "map (\<lambda>vs. Evict vs ?v) ?vss"] False
    by (auto simp: eviction_tick_def Let_def take_map)
  obtain st' where st': "commit_all emb decC encC st (map (\<lambda>vs. Evict vs ?v) (take n ?vss)) = Some st'" "store_inv emb st'"
    "store_content st' = store_content st |` {k. vshard_for k ?v \<notin> set (take n ?vss)}"
    using commit_evictions [of decC encC ?v emb st "take n ?vss"] codec inv False by auto
  have kept: "vshard_for k ?v \<notin> set (take n ?vss)" if "owns (Mapped g) table k" for k
    using that set_take_subset [of n ?vss] by (auto simp: owns_def Let_def split: if_splits)
  have gone: "vshard_for k ?v \<in> set ?vss" if "k \<in> dom (store_content st)" "\<not> owns (Mapped g) table k" for k
    using that False held_vshards_set [OF inv, of ?v] by (auto simp: owns_def Let_def)
  have "dom (store_content st') = {k \<in> dom (store_content st). owns (Mapped g) table k}" if "\<forall>j. accept j"
  proof -
    have "set (take n ?vss) = set ?vss" using all that by simp
    then have "k \<in> dom (store_content st) \<Longrightarrow> vshard_for k ?v \<notin> set (take n ?vss) \<longleftrightarrow> owns (Mapped g) table k" for k
      using kept gone by blast
    then show ?thesis unfolding st'(3) dom_restrict by blast
  qed
  with st' kept n show ?thesis by (auto simp: restrict_map_def)
qed

definition enc_command :: "shard_command \<Rightarrow> u8 list" where
  "enc_command c = replicate (to_nat (case c of Batch ds \<Rightarrow> Inl (map doc_fields ds) | Evict a b \<Rightarrow> Inr (unat a, unat b))) 1"

definition dec_command :: "u8 list \<Rightarrow> shard_command option" where
  "dec_command bs = Some (case from_nat (length bs) of Inl fs \<Rightarrow> Batch (map (inv doc_fields) fs) | Inr (a, b) \<Rightarrow> Evict (word_of_nat a) (word_of_nat b))"

lemma dec_enc_command: "dec_command (enc_command c) = Some c"
  by (cases c) (simp_all add: dec_command_def enc_command_def comp_def inv_f_f [OF doc_fields_inj])

theorem eviction_restores_ownership_witness:
  "\<exists>st st'. store_insert hash_embed store_new (sample_doc ''a'' ''UAL'') = Some st \<and> dom (store_content st) = {''a''}
    \<and> commit_all hash_embed dec_command enc_command st (eviction_tick True 0 [1] st (\<lambda>_. True)) = Some st'
    \<and> dom (store_content st') = {}"
proof -
  have new: "store_inv hash_embed store_new"
    using vec_empty_inv [of with_embedder hash_embed] by (simp add: store_inv_def store_new_def index_new_inv with_embedder_def)
  obtain st where st: "store_insert hash_embed store_new (sample_doc ''a'' ''UAL'') = Some st" "store_inv hash_embed st"
    "store_content st = (store_content store_new)(icao24 (sample_doc ''a'' ''UAL'') \<mapsto> sample_doc ''a'' ''UAL'')"
    using store_insert_spec [OF new] by blast
  have "dom (store_content st) = {''a''}" by (simp add: st(3) store_new_def index_new_inv sample_doc_def)
  moreover have "\<not> owns (Mapped 0) [1] k" for k
    unfolding owns_mapped using shard_for_less [of 1 k] by (simp add: vshard_for_def word_less_nat_alt)
  ultimately show ?thesis
    using eviction_restores_ownership [of dec_command enc_command hash_embed st True 0 "[1]" "\<lambda>_. True"] st dec_enc_command
    by auto
qed

section \<open>The voter floor\<close>

definition removed_voters :: "membership_change list \<Rightarrow> u64 set" where
  "removed_voters plan = {i. RemoveVoters i \<in> set plan}"

lemma plan_removed:
  "removed_voters (reconcile_tick True (Some members) in_group voters) =
    (if card voters \<le> 3 then {} else {i \<in> set (draining_ids members). i \<in> in_group \<and> i \<in> voters})"
  by (auto simp: removed_voters_def reconcile_tick_def removal_for_def admission_for_def split: if_splits)

lemma draining_ids_set: "set (draining_ids members) = raft_node_id ` snap_node_id ` {m \<in> set members. snap_draining m}"
  by (auto simp: draining_ids_def)


definition sample_member :: "string \<Rightarrow> bool \<Rightarrow> node_snapshot" where
  "sample_member nid drain = \<lparr>snap_node_id = nid, snap_address = ''h'', snap_role = RoleFollower, snap_shard_id = 0, since_seen = 0, snap_draining = drain\<rparr>"

lemma sample_ids: "raft_node_id ''a'' = 0xaf63dc4c8601ec8c" "raft_node_id ''b'' = 0xaf63df4c8601f1a5"
  by (simp_all add: raft_node_id_def as_bytes_def fnv1a_64_def fnv_step_def FNV_OFFSET_BASIS_def FNV_PRIME_def)


end
