(* ===== verification/Client.thy ===== *)
theory Client
  imports Service
begin

text \<open>
  Client-side helpers (\<open>crates/common/src/client.rs\<close>, the token of \<open>crates/common/src/net.rs\<close>)
  and federation across clusters (\<open>crates/federation/src/lib.rs\<close>). Parsing a float is the
  argument \<open>parse_f64\<close>; text is UTF-8 bytes, so the middle dot is two characters.
\<close>

section \<open>Addresses\<close>

definition comma_list :: "string \<Rightarrow> string list" where
  "comma_list raw = filter (\<lambda>s. s \<noteq> []) (map trim (split_pred (\<lambda>c. c = CHR '','') raw))"

definition parse_addr_list :: "string \<Rightarrow> string \<Rightarrow> string list" where
  "parse_addr_list raw dflt = (if comma_list raw = [] then [dflt] else comma_list raw)"

definition coordinator_addrs :: "(string \<Rightarrow> string option) \<Rightarrow> string \<Rightarrow> string list" where
  "coordinator_addrs var dflt =
     parse_addr_list
       (case var ''AETHER_COORDINATOR_ADDRS'' of
          Some raw \<Rightarrow> raw
        | None \<Rightarrow> (case var ''AETHER_COORDINATOR_ADDR'' of Some raw \<Rightarrow> raw | None \<Rightarrow> dflt)) dflt"

definition join :: "string \<Rightarrow> string list \<Rightarrow> string" where
  "join sep parts = (case parts of [] \<Rightarrow> [] | p # ps \<Rightarrow> foldl (\<lambda>acc x. acc @ sep @ x) p ps)"

text \<open>\<open>reach a\<close> says whether a connection to \<open>a\<close> is accepted.\<close>

fun first_reachable :: "(string \<Rightarrow> bool) \<Rightarrow> string list \<Rightarrow> string option" where
  "first_reachable reach [] = None"
| "first_reachable reach (a # addrs) = (if reach a then Some a else first_reachable reach addrs)"

definition connect_first_healthy :: "(string \<Rightarrow> bool) \<Rightarrow> string list \<Rightarrow> string + string" where
  "connect_first_healthy reach addrs =
     (case first_reachable reach addrs of
        Some a \<Rightarrow> Inr a
      | None \<Rightarrow> Inl (''no coordinator reachable (tried: '' @ join '', '' addrs @ '')''))"

text \<open>The authorization header an outgoing request carries; \<open>header_ok\<close> is what the transport
  accepts as a header value.\<close>

definition with_token :: "(string \<Rightarrow> bool) \<Rightarrow> string option \<Rightarrow> string option" where
  "with_token header_ok token =
     (case token of
        Some t \<Rightarrow> if header_ok (''Bearer '' @ t) then Some (''Bearer '' @ t) else None
      | None \<Rightarrow> None)"

section \<open>Manifest summaries\<close>

definition show_int :: "int \<Rightarrow> string" where
  "show_int i = (if i < 0 then ''-'' @ show_nat (nat (- i)) else show_nat (nat i))"

definition i64_saturating_sub :: "int \<Rightarrow> int \<Rightarrow> int" where
  "i64_saturating_sub a b = max (- (2 ^ 63)) (min (2 ^ 63 - 1) (a - b))"

definition trunc_div :: "int \<Rightarrow> int \<Rightarrow> int" where
  "trunc_div a b = sgn a * sgn b * (\<bar>a\<bar> div \<bar>b\<bar>)"

definition middle_dot :: string where
  "middle_dot = [CHR 0x20, CHR 0xC2, CHR 0xB7, CHR 0x20]"

definition manifest_summary :: "int \<Rightarrow> query_manifest \<Rightarrow> string" where
  "manifest_summary now m =
     join middle_dot
       ([''answered '' @ show_u32 (m_shards_answered m) @ ''/'' @ show_u32 (m_shards_queried m) @ '' shards'']
        @ (if m_omitted m \<noteq> [] then
             [''omitted: '' @ join '', '' (map (\<lambda>x. omitted_address x @ '' ('' @ omitted_reason x @ '')'') (m_omitted m))] else [])
        @ (if m_deduped m > 0 then [show_u32 (m_deduped m) @ '' cross-shard duplicates dropped''] else [])
        @ (if m_freshest m > 0 then
             [''freshest '' @ show_int (trunc_div (i64_saturating_sub now (m_freshest m)) 1000) @ ''s old''] else [])
        @ [''placement v'' @ show_nat (unat (m_placement_version m)), show_nat (unat (m_elapsed_ms m)) @ ''ms''])"

section \<open>Filter arguments\<close>

fun split_once_str :: "string \<Rightarrow> string \<Rightarrow> (string \<times> string) option" where
  "split_once_str sep s =
     (if take (length sep) s = sep then Some ([], drop (length sep) s)
      else case s of
             [] \<Rightarrow> None
           | c # cs \<Rightarrow> map_option (\<lambda>(a, b). (c # a, b)) (split_once_str sep cs))"

declare split_once_str.simps [simp del]

definition parse_bound :: "(string \<Rightarrow> f64 option) \<Rightarrow> string \<Rightarrow> string \<Rightarrow> string + f64 option" where
  "parse_bound parse_f64 arg s =
     (if s = [] then Inr None
      else case parse_f64 s of
             Some x \<Rightarrow> Inr (Some x)
           | None \<Rightarrow> Inl (quote s @ '' is not a number in '' @ quote arg))"

definition parse_filter_arg :: "(string \<Rightarrow> f64 option) \<Rightarrow> string \<Rightarrow> string + filter_condition" where
  "parse_filter_arg parse_f64 arg =
     (case split_once (CHR ''='') arg of
        None \<Rightarrow> Inl (''filter '' @ quote arg @ '' must look like field=value or field=min..max'')
      | Some (field, val) \<Rightarrow>
          (case split_once_str ''..'' val of
             Some (lo, hi) \<Rightarrow>
               (case parse_bound parse_f64 arg lo of
                  Inl e \<Rightarrow> Inl e
                | Inr mn \<Rightarrow>
                    (case parse_bound parse_f64 arg hi of
                       Inl e \<Rightarrow> Inl e
                     | Inr mx \<Rightarrow> Inr \<lparr>fc_field = field, fc_test = Some (Range mn mx)\<rparr>))
           | None \<Rightarrow>
               Inr \<lparr>fc_field = field,
                 fc_test = Some (if val = ''true'' \<or> val = ''false'' then Is (val = ''true'') else Equals val)\<rparr>))"

fun parse_filter_list :: "(string \<Rightarrow> f64 option) \<Rightarrow> string list \<Rightarrow> string + filter_condition list" where
  "parse_filter_list parse_f64 [] = Inr []"
| "parse_filter_list parse_f64 (arg # args) =
     (case parse_filter_arg parse_f64 arg of
        Inl e \<Rightarrow> Inl e
      | Inr c \<Rightarrow> (case parse_filter_list parse_f64 args of Inl e \<Rightarrow> Inl e | Inr cs \<Rightarrow> Inr (c # cs)))"

definition parse_filter_args :: "(string \<Rightarrow> f64 option) \<Rightarrow> string list \<Rightarrow> string + filter_msg option" where
  "parse_filter_args parse_f64 args =
     (case parse_filter_list parse_f64 args of
        Inl e \<Rightarrow> Inl e
      | Inr cs \<Rightarrow> Inr (if cs = [] then None else Some \<lparr>conditions = cs\<rparr>))"

section \<open>Federation\<close>

definition cluster_timeout :: "string option \<Rightarrow> nat" where
  "cluster_timeout env = (case Option.bind env (parse_unsigned 64) of Some ms \<Rightarrow> ms | None \<Rightarrow> 3000)"

definition federate_search ::
  "(string \<Rightarrow> search_request \<Rightarrow> search_response rpc_outcome) \<Rightarrow> (string list \<Rightarrow> string list) \<Rightarrow>
    (search_hit list \<Rightarrow> search_hit list) \<Rightarrow> u64 \<Rightarrow> string list \<Rightarrow> search_request \<Rightarrow> search_response" where
  "federate_search net sched ord elapsed clusters req =
     (let fo = scatter_gather net sched clusters req;
          queried = of_len clusters;
          answered = of_len (responses fo);
          merged = merge_search_responses ord fo (unat (sr_limit req)) queried 0 0;
          (freshest, stalest) = (case resp_manifest merged of Some m \<Rightarrow> (m_freshest m, m_stalest m) | None \<Rightarrow> (0, 0))
      in merged\<lparr>resp_shard_id := ''federation'', resp_shards_queried := queried, resp_shards_answered := answered,
           resp_manifest := Some
             \<lparr>m_shards_queried = queried, m_shards_answered = answered, m_omitted = omitted fo,
              m_deduped = (case resp_manifest merged of Some m \<Rightarrow> m_deduped m | None \<Rightarrow> 0),
              m_freshest = freshest, m_stalest = stalest, m_elapsed_ms = elapsed, m_placement_version = 0\<rparr>\<rparr>)"

text \<open>
  A cluster behind the federation: its coordinator answers the search that carries no
  authorization header (\<open>federate_search\<close> does not attach the token).
\<close>

definition cluster_net ::
  "(string \<Rightarrow> svc_env) \<Rightarrow> (string \<Rightarrow> coordinator_service) \<Rightarrow> string \<Rightarrow> search_request \<Rightarrow> search_response rpc_outcome" where
  "cluster_net envs services addr req =
     (case snd (search_rpc (envs addr) (services addr) None req 0) of Inr resp \<Rightarrow> Answered resp | Inl _ \<Rightarrow> Unreachable)"

text \<open>So clusters that require a token are always reported as unreachable.\<close>

lemma federation_needs_open_clusters:
  assumes "\<And>a. a \<in> set clusters \<Longrightarrow> enabled (sv_auth (services a))" and "iteration_order sched"
  shows "federate_search (cluster_net envs services) sched ord elapsed clusters req =
    (federate_search (\<lambda>_ _. Unreachable) sched ord elapsed clusters req)"
proof -
  have "cluster_net envs services a req = Unreachable" if "a \<in> set clusters" for a
    using assms(1) [OF that] by (simp add: cluster_net_def search_rpc_def require_def)
  then have "map (\<lambda>a. query_leader (cluster_net envs services) a req) (sched clusters)
      = map (\<lambda>a. query_leader (\<lambda>_ _. Unreachable) a req) (sched clusters)"
    by (simp add: query_leader_def iteration_order_set [OF assms(2)])
  then have "scatter_gather (cluster_net envs services) sched clusters req = scatter_gather (\<lambda>_ _. Unreachable) sched clusters req"
    unfolding scatter_gather_def by (simp only:)
  then show ?thesis by (simp only: federate_search_def)
qed

lemma federate_hits:
  "resp_hits (federate_search net sched ord elapsed clusters req)
    = resp_hits (merge_search_responses ord (scatter_gather net sched clusters req) (unat (sr_limit req)) (of_len clusters) 0 0)"
  by (simp add: federate_search_def Let_def split: prod.split)

end
