(* ===== verification/Startup.thy ===== *)
theory Startup
  imports Shard_Group Client Control
begin

text \<open>
  How the two servers are put together at start-up: the shard node
  (\<open>crates/shard-node/src/main.rs\<close>) and the coordinator (\<open>crates/coordinator/src/main.rs\<close>).
  Starting a node is a function from its environment to an error or to a plan: the role it
  registers with, what it owns, and the background tasks and services it runs. The answers of
  the coordinators, the opening of storage, the parsing of socket addresses and the ONNX
  loader are part of the environment.
\<close>

section \<open>Environment variables\<close>

definition env_or :: "(string \<Rightarrow> string option) \<Rightarrow> nat \<Rightarrow> string \<Rightarrow> nat \<Rightarrow> nat" where
  "env_or var w key d = (case Option.bind (var key) (parse_unsigned w) of Some n \<Rightarrow> n | None \<Rightarrow> d)"

definition env_is :: "(string \<Rightarrow> string option) \<Rightarrow> string \<Rightarrow> string \<Rightarrow> bool" where
  "env_is var key v = (case var key of Some s \<Rightarrow> eq_ignore_ascii_case s v | None \<Rightarrow> False)"

section \<open>The shard node\<close>

datatype flight_source = Synthetic synthetic_source | Security synthetic_source | Http http_source | S3Objects s3_source
  | OpenSky "(string \<times> string) option"

definition build_source :: "(string \<Rightarrow> string option) \<Rightarrow> string \<Rightarrow> flight_source" where
  "build_source var nid =
     (let sd = ucast (fnv1a_64 (as_bytes nid)) :: u32
      in case var ''AETHER_SOURCE'' of
           None \<Rightarrow> OpenSky (opensky_auth var)
         | Some s \<Rightarrow>
             if s = ''synthetic'' then Synthetic (synthetic_new sd 5)
             else if s = ''security'' then Security (synthetic_new sd 5)
             else if s = ''http'' then Http (http_from_env var)
             else if s = ''s3'' then S3Objects (s3_from_env var)
             else OpenSky (opensky_auth var))"

text \<open>\<open>onnx\<close> is the loader of the model directory, in a build that has it; the result says
  whether the embedder is the learned one.\<close>

definition build_store :: "(string \<Rightarrow> string option) \<Rightarrow> (string \<Rightarrow> string + unit) option \<Rightarrow> string + (bool \<times> shard_store)" where
  "build_store var onnx =
     (let quantized = (var ''AETHER_VECTOR'' = Some ''quantized'')
      in if var ''AETHER_EMBEDDER'' = Some ''onnx'' then
           (case onnx of
              None \<Rightarrow> Inl ''AETHER_EMBEDDER=onnx, but this binary was built without --features onnx''
            | Some load \<Rightarrow>
                (case var ''AETHER_ONNX_MODEL_DIR'' of
                   None \<Rightarrow> Inl ''AETHER_EMBEDDER=onnx requires AETHER_ONNX_MODEL_DIR''
                 | Some dir \<Rightarrow>
                     (case load dir of
                        Inl e \<Rightarrow> Inl e
                      | Inr _ \<Rightarrow> Inr (True, with_quantized store_new quantized))))
         else Inr (False, with_quantized store_new quantized))"

text \<open>Ten polls for the placement: the first answer decides, an empty table included.\<close>

fun detect_placement :: "(nat \<Rightarrow> u32 list option) \<Rightarrow> nat \<Rightarrow> nat \<Rightarrow> u32 list option" where
  "detect_placement answers i 0 = None"
| "detect_placement answers i (Suc n) =
     (case answers i of
        Some table \<Rightarrow> if table = [] then None else Some table
      | None \<Rightarrow> detect_placement answers (Suc i) n)"

definition choose_ownership :: "bool \<Rightarrow> (nat \<Rightarrow> u32 list option) \<Rightarrow> u32 \<Rightarrow> u32 \<Rightarrow> ownership" where
  "choose_ownership has_coordinators answers idx cnt =
     (case (if has_coordinators then detect_placement answers 0 10 else None) of
        Some table \<Rightarrow> Mapped idx
      | None \<Rightarrow> if cnt > 1 then Modulo \<lparr>sa_index = idx, sa_count = cnt\<rparr> else OwnAll)"

datatype task =
  Heartbeat node_role nat
| VShardView
| BootstrapGroup nat
| MembershipReconciler
| EvictionWatcher
| LeaderIngestion flight_source ownership
| Replication string
| DirectIngestion flight_source ownership bool

record node_env =
  ne_var :: "string \<Rightarrow> string option"
  ne_addr_ok :: "string \<Rightarrow> bool"
  ne_onnx :: "(string \<Rightarrow> string + unit) option"
  ne_storage :: "string option \<Rightarrow> string + unit"
  ne_placement :: "nat \<Rightarrow> u32 list option"

record node_plan =
  plan_node_id :: string
  plan_advertise :: string
  plan_registers :: "(node_role \<times> string list) option"
  plan_ownership :: ownership
  plan_tasks :: "task list"
  plan_search_label :: string
  plan_raft_transport :: bool

definition node_role_of :: "(string \<Rightarrow> string option) \<Rightarrow> node_role" where
  "node_role_of var =
     (if env_is var ''AETHER_CONSENSUS'' ''raft'' \<or> env_is var ''AETHER_ROLE'' ''follower'' then RoleFollower else RoleLeader)"

definition ingest_on :: "(string \<Rightarrow> string option) \<Rightarrow> bool" where
  "ingest_on var \<longleftrightarrow> \<not> env_is var ''AETHER_INGEST'' ''off''"

definition raft_tasks :: "(string \<Rightarrow> string option) \<Rightarrow> string \<Rightarrow> ownership \<Rightarrow> task list" where
  "raft_tasks var nid own =
     (if var ''AETHER_RAFT_JOIN'' = Some ''1'' then [] else [BootstrapGroup (env_or var 64 ''AETHER_GROUP_SIZE'' 3)])
     @ [MembershipReconciler]
     @ (if own_assignments own [] \<noteq> None then [EvictionWatcher] else [])
     @ (if ingest_on var then [LeaderIngestion (build_source var nid) own] else [])"

definition legacy_tasks :: "(string \<Rightarrow> string option) \<Rightarrow> string \<Rightarrow> ownership \<Rightarrow> string list option \<Rightarrow> task list" where
  "legacy_tasks var nid own coords =
     (if node_role_of var = RoleLeader \<and> ingest_on var then
        (case coords of Some addrs \<Rightarrow> [Replication (hd addrs)] | None \<Rightarrow> [])
        @ [DirectIngestion (build_source var nid) own (coords \<noteq> None)]
      else [])"

definition node_start :: "node_env \<Rightarrow> string + node_plan" where
  "node_start env =
     (let var = ne_var env;
          addr = (case var ''AETHER_SHARD_ADDR'' of Some a \<Rightarrow> a | None \<Rightarrow> ''127.0.0.1:50051'');
          idx = word_of_nat (env_or var 32 ''AETHER_SHARD_INDEX'' 0) :: u32;
          cnt = word_of_nat (env_or var 32 ''AETHER_SHARD_COUNT'' 1) :: u32;
          nid = (case var ''AETHER_NODE_ID'' of Some s \<Rightarrow> s | None \<Rightarrow> ''node-'' @ show_u32 idx);
          raft = env_is var ''AETHER_CONSENSUS'' ''raft'';
          coords = coordinators_from_env var;
          own = choose_ownership (coords \<noteq> None) (ne_placement env) idx cnt
      in if \<not> ne_addr_ok env addr then Inl ''invalid socket address''
         else case build_store var (ne_onnx env) of
           Inl e \<Rightarrow> Inl e
         | Inr _ \<Rightarrow>
             (case (if raft then ne_storage env (var ''AETHER_DATA_DIR'') else Inr ()) of
                Inl e \<Rightarrow> Inl e
              | Inr _ \<Rightarrow>
                  if raft \<and> coords = None then Inl ''AETHER_CONSENSUS=raft requires AETHER_COORDINATOR_ADDR(S)''
                  else Inr
                    \<lparr>plan_node_id = nid,
                     plan_advertise = (case var ''AETHER_ADVERTISE_ADDR'' of Some a \<Rightarrow> a | None \<Rightarrow> addr),
                     plan_registers = map_option (\<lambda>addrs. (node_role_of var, addrs)) coords,
                     plan_ownership = own,
                     plan_tasks =
                       (if coords \<noteq> None then [Heartbeat (node_role_of var) (env_or var 64 ''AETHER_HEARTBEAT_SECS'' 5)] else [])
                       @ (if own_assignments own [] \<noteq> None then [VShardView] else [])
                       @ (if raft then raft_tasks var nid own else legacy_tasks var nid own coords),
                     plan_search_label = ''shard-'' @ show_u32 idx,
                     plan_raft_transport = raft\<rparr>))"

section \<open>The coordinator\<close>

text \<open>The registry a coordinator starts with; \<open>None\<close> is the panic of a placement over no shards.\<close>

definition coordinator_registry :: "(string \<Rightarrow> string option) \<Rightarrow> registry option" where
  "coordinator_registry var =
     (let reg = with_liveness_timeout (registry_new (word_of_nat (env_or var 32 ''AETHER_SHARD_COUNT'' 3)))
                  (1000 * env_or var 64 ''AETHER_LIVENESS_TIMEOUT_SECS'' 15);
          v = word_of_nat (env_or var 32 ''AETHER_VSHARDS'' 0) :: u32
      in map_option (\<lambda>r. if var ''AETHER_CONTROL_ID'' \<noteq> None then with_replicated_authority r else r)
           (if v > 0 then with_vshards reg v else Some reg))"

text \<open>The reaper's period, in nanoseconds.\<close>

definition reap_every :: "(string \<Rightarrow> string option) \<Rightarrow> nat" where
  "reap_every var = max (10 ^ 9 * env_or var 64 ''AETHER_LIVENESS_TIMEOUT_SECS'' 15 div 3) (10 ^ 9)"

definition metrics_addr :: "(string \<Rightarrow> string option) \<Rightarrow> (string \<Rightarrow> bool) \<Rightarrow> string option" where
  "metrics_addr var addr_ok =
     (let a = (case var ''AETHER_METRICS_ADDR'' of Some a \<Rightarrow> a | None \<Rightarrow> ''127.0.0.1:9090'')
      in if a \<noteq> ''off'' \<and> addr_ok a then Some a else None)"

section \<open>Placement at start-up\<close>

lemma detect_placement_hit:
  "(\<forall>j<k. answers (i + j) = None) \<Longrightarrow> answers (i + k) = Some table \<Longrightarrow> k < n \<Longrightarrow>
    detect_placement answers i n = (if table = [] then None else Some table)"
proof (induction n arbitrary: i k)
  case (Suc n)
  show ?case
  proof (cases k)
    case 0
    then show ?thesis using Suc.prems by simp
  next
    case (Suc k')
    have "answers i = None" using Suc.prems(1) Suc by (metis add.right_neutral zero_less_Suc)
    moreover have "\<forall>j<k'. answers (Suc i + j) = None" using Suc.prems(1) Suc by auto
    moreover have "answers (Suc i + k') = Some table" using Suc.prems(2) Suc by simp
    ultimately show ?thesis using Suc.IH [of k' "Suc i"] Suc.prems(3) Suc by simp
  qed
qed simp

definition placement_seen :: "node_env \<Rightarrow> u32 list \<Rightarrow> bool" where
  "placement_seen env table \<longleftrightarrow>
     coordinators_from_env (ne_var env) \<noteq> None
     \<and> (\<exists>k<10. (\<forall>j<k. ne_placement env j = None) \<and> ne_placement env k = Some table)"

text \<open>A node keeps a document when one of its ingestion tasks owns the key.\<close>

fun task_ownership :: "task \<Rightarrow> ownership option" where
  "task_ownership (LeaderIngestion src own) = Some own"
| "task_ownership (DirectIngestion src own rep) = Some own"
| "task_ownership _ = None"

definition node_keeps :: "node_plan \<Rightarrow> u32 list \<Rightarrow> string \<Rightarrow> bool" where
  "node_keeps p table key \<longleftrightarrow> list_ex (\<lambda>own. owns own table key) (List.map_filter task_ownership (plan_tasks p))"

lemma node_start_plan:
  assumes "node_start env = Inr p"
  shows "plan_ownership p = choose_ownership (coordinators_from_env (ne_var env) \<noteq> None) (ne_placement env)
      (word_of_nat (env_or (ne_var env) 32 ''AETHER_SHARD_INDEX'' 0)) (word_of_nat (env_or (ne_var env) 32 ''AETHER_SHARD_COUNT'' 1))"
    and "\<exists>nid ts. plan_tasks p = ts
      @ (if env_is (ne_var env) ''AETHER_CONSENSUS'' ''raft'' then raft_tasks (ne_var env) nid (plan_ownership p)
         else legacy_tasks (ne_var env) nid (plan_ownership p) (coordinators_from_env (ne_var env)))
      \<and> List.map_filter task_ownership ts = []"
proof -
  define nid where "nid = (case ne_var env ''AETHER_NODE_ID'' of Some s \<Rightarrow> s
    | None \<Rightarrow> ''node-'' @ show_u32 (word_of_nat (env_or (ne_var env) 32 ''AETHER_SHARD_INDEX'' 0)))"
  define own where "own = choose_ownership (coordinators_from_env (ne_var env) \<noteq> None) (ne_placement env)
      (word_of_nat (env_or (ne_var env) 32 ''AETHER_SHARD_INDEX'' 0)) (word_of_nat (env_or (ne_var env) 32 ''AETHER_SHARD_COUNT'' 1))"
  define ts where "ts =
    (if coordinators_from_env (ne_var env) \<noteq> None
     then [Heartbeat (node_role_of (ne_var env)) (env_or (ne_var env) 64 ''AETHER_HEARTBEAT_SECS'' 5)] else [])
    @ (if own_assignments own [] \<noteq> None then [VShardView] else [])"
  have p: "plan_ownership p = own \<and> plan_tasks p = ts
      @ (if env_is (ne_var env) ''AETHER_CONSENSUS'' ''raft'' then raft_tasks (ne_var env) nid own
         else legacy_tasks (ne_var env) nid own (coordinators_from_env (ne_var env)))"
    using assms unfolding node_start_def Let_def nid_def [symmetric] own_def [symmetric]
    by (simp add: ts_def split: if_splits sum.splits) fastforce+
  then show "plan_ownership p = choose_ownership (coordinators_from_env (ne_var env) \<noteq> None) (ne_placement env)
      (word_of_nat (env_or (ne_var env) 32 ''AETHER_SHARD_INDEX'' 0)) (word_of_nat (env_or (ne_var env) 32 ''AETHER_SHARD_COUNT'' 1))"
    by (simp add: own_def)
  have "List.map_filter task_ownership ts = []" by (simp add: ts_def List.map_filter_def)
  with p show "\<exists>nid ts. plan_tasks p = ts
      @ (if env_is (ne_var env) ''AETHER_CONSENSUS'' ''raft'' then raft_tasks (ne_var env) nid (plan_ownership p)
         else legacy_tasks (ne_var env) nid (plan_ownership p) (coordinators_from_env (ne_var env)))
      \<and> List.map_filter task_ownership ts = []"
    by blast
qed

lemma task_ownerships:
  "ingest_on var \<Longrightarrow> List.map_filter task_ownership (raft_tasks var nid own) = [own]"
  "ingest_on var \<Longrightarrow> \<not> env_is var ''AETHER_CONSENSUS'' ''raft'' \<Longrightarrow> \<not> env_is var ''AETHER_ROLE'' ''follower'' \<Longrightarrow>
    List.map_filter task_ownership (legacy_tasks var nid own coords) = [own]"
  by (simp_all add: List.map_filter_def raft_tasks_def legacy_tasks_def node_role_of_def split: option.split)

lemma node_start_ingests:
  assumes "node_start env = Inr p" and "ingest_on (ne_var env)"
    and "env_is (ne_var env) ''AETHER_CONSENSUS'' ''raft'' \<or> \<not> env_is (ne_var env) ''AETHER_ROLE'' ''follower''"
  shows "node_keeps p table key \<longleftrightarrow> owns (plan_ownership p) table key"
proof -
  have "List.map_filter task_ownership (plan_tasks p) = [plan_ownership p]"
    using node_start_plan(2) [OF assms(1)] task_ownerships [OF assms(2)] assms(3) by (auto simp: List.map_filter_def)
  then show ?thesis by (simp add: node_keeps_def)
qed

lemma node_start_ownership:
  assumes "node_start env = Inr p" and "placement_seen env table"
  shows "plan_ownership p =
    (if table = [] then
       if word_of_nat (env_or (ne_var env) 32 ''AETHER_SHARD_COUNT'' 1) > (1 :: u32)
       then Modulo \<lparr>sa_index = word_of_nat (env_or (ne_var env) 32 ''AETHER_SHARD_INDEX'' 0),
              sa_count = word_of_nat (env_or (ne_var env) 32 ''AETHER_SHARD_COUNT'' 1)\<rparr>
       else OwnAll
     else Mapped (word_of_nat (env_or (ne_var env) 32 ''AETHER_SHARD_INDEX'' 0)))"
proof -
  from assms(2) obtain k where "k < 10" "\<forall>j<k. ne_placement env (0 + j) = None" "ne_placement env (0 + k) = Some table"
    and c: "coordinators_from_env (ne_var env) \<noteq> None"
    by (auto simp: placement_seen_def)
  from detect_placement_hit [OF this(2,3,1)]
  have "detect_placement (ne_placement env) 0 10 = (if table = [] then None else Some table)" .
  with c show ?thesis unfolding node_start_plan(1) [OF assms(1)] by (simp add: choose_ownership_def)
qed

lemma coordinator_registry_placement:
  assumes "coordinator_registry var = Some reg"
  shows "set (vshards reg) \<subseteq> {g. g < shard_count reg} \<and> (vshards reg = [] \<longleftrightarrow> (of_len (vshards reg) :: u32) = 0)"
proof (cases "word_of_nat (env_or var 32 ''AETHER_VSHARDS'' 0) > (0 :: u32)")
  case False
  then show ?thesis using assms
    by (auto simp: coordinator_registry_def Let_def with_liveness_timeout_def registry_new_def with_replicated_authority_def)
next
  case True
  let ?v = "word_of_nat (env_or var 32 ''AETHER_VSHARDS'' 0) :: u32"
  have v: "0 < unat ?v" using True by (simp add: word_less_nat_alt)
  have "shard_count reg \<noteq> 0" "vshards reg = map (\<lambda>i. word_of_nat i mod shard_count reg) [0..<unat ?v]"
    using assms True v
    by (auto simp: coordinator_registry_def Let_def with_vshards_def with_liveness_timeout_def registry_new_def
        with_replicated_authority_def split: if_splits)
  then show ?thesis using v by (auto simp: word_mod_less_divisor word_gt_0)
qed

text \<open>Reassignments of virtual shards by an operator, some of them refused.\<close>

definition reassignments :: "(u32 \<times> u32) list \<Rightarrow> registry \<Rightarrow> registry" where
  "reassignments moves reg = foldl (\<lambda>r (v, g). fst (reassign_vshard r v g)) reg moves"

lemma reassign_placement:
  "shard_count (fst (reassign_vshard reg v g)) = shard_count reg"
  "length (vshards (fst (reassign_vshard reg v g))) = length (vshards reg)"
  "set (vshards reg) \<subseteq> {g. g < shard_count reg} \<Longrightarrow> set (vshards (fst (reassign_vshard reg v g))) \<subseteq> {g. g < shard_count reg}"
  by (auto simp: reassign_vshard_def dest!: subsetD [OF set_update_subset_insert])

lemma reassignments_placement:
  assumes "set (vshards reg) \<subseteq> {g. g < shard_count reg}"
  shows "shard_count (reassignments moves reg) = shard_count reg \<and> length (vshards (reassignments moves reg)) = length (vshards reg)
    \<and> set (vshards (reassignments moves reg)) \<subseteq> {g. g < shard_count reg}"
proof (induction moves rule: rev_induct)
  case (snoc m moves)
  then show ?case
    using reassign_placement [of "reassignments moves reg" "fst m" "snd m"]
    by (simp add: reassignments_def split: prod.split) (metis fst_conv snd_conv)
qed (use assms in \<open>simp add: reassignments_def\<close>)

text \<open>
  C21: A cluster covers every document once. Take a coordinator started with some number of
  shards, with or without virtual shards, after any reassignments of them, and for every shard a
  node started with its index and that number, ingesting, that got the coordinator's placement
  within its ten polls. Then every document key is kept by exactly one of these nodes, whichever
  placement is in force.
\<close>

theorem startup_partition:
  assumes started: "coordinator_registry var = Some reg0" and moved: "reg = reassignments moves reg0" and "0 < shard_count reg"
    and nodes: "\<And>i. i < shard_count reg \<Longrightarrow>
      node_start (env i) = Inr (plan i) \<and> placement_seen (env i) (vshards reg) \<and> ingest_on (ne_var (env i))
      \<and> (env_is (ne_var (env i)) ''AETHER_CONSENSUS'' ''raft'' \<or> \<not> env_is (ne_var (env i)) ''AETHER_ROLE'' ''follower'')
      \<and> env_or (ne_var (env i)) 32 ''AETHER_SHARD_INDEX'' 0 = unat i
      \<and> env_or (ne_var (env i)) 32 ''AETHER_SHARD_COUNT'' 1 = unat (shard_count reg)"
  shows "\<exists>!i. i < shard_count reg \<and> node_keeps (plan i) (vshards reg) key"
proof -
  let ?n = "shard_count reg" and ?t = "vshards reg"
  from coordinator_registry_placement [OF started] reassignments_placement [of reg0 moves]
  have placed: "set ?t \<subseteq> {g. g < ?n} \<and> (?t = [] \<longleftrightarrow> (of_len ?t :: u32) = 0)"
    unfolding moved by (metis length_0_conv)
  have keeps: "node_keeps (plan i) ?t key \<longleftrightarrow>
      owns (if ?t = [] then if ?n > 1 then Modulo \<lparr>sa_index = i, sa_count = ?n\<rparr> else OwnAll else Mapped i) ?t key"
    if "i < ?n" for i
    using node_start_ingests [of "env i" "plan i" ?t key] node_start_ownership [of "env i" "plan i" ?t] nodes [OF that]
    by simp
  show ?thesis
  proof (cases "?t = []")
    case False
    then have nz: "(of_len ?t :: u32) \<noteq> 0" using placed by blast
    then have "?t ! unat (vshard_for key (of_len ?t)) < ?n" using vshard_in_table placed by blast
    then show ?thesis using keeps nz False by (auto simp: owns_mapped)
  next
    case True
    show ?thesis
    proof (cases "?n > 1")
      case True
      with \<open>?t = []\<close> keeps have "node_keeps (plan i) ?t key \<longleftrightarrow> shard_for key ?n = i" if "i < ?n" for i
        using that by (simp add: owns_def assignment_owns_def)
      then show ?thesis using shard_for_less [OF assms(3), of key] by auto
    next
      case False
      then have "unat ?n = 1" using assms(3) by (simp add: word_less_nat_alt)
      then have "?n = 1" by (simp add: word_unat_eq_iff)
      then show ?thesis using keeps True False by (auto simp: owns_def)
    qed
  qed
qed

text \<open>A replica id without the list of peers: the coordinator gives up local authority, and there is
  no group to take it.\<close>

lemma control_id_without_peers:
  assumes "coordinator_registry var = Some reg" "var ''AETHER_CONTROL_ID'' \<noteq> None" "var ''AETHER_CONTROL_PEERS'' = None"
  shows "authority_replicated reg \<and> control_from_env (var ''AETHER_CONTROL_ID'') (var ''AETHER_CONTROL_PEERS'') = Inr None"
  using assms
  by (auto simp: coordinator_registry_def Let_def with_replicated_authority_def control_from_env_def split: if_splits)

text \<open>A node that misses the coordinator's answer in all ten polls falls back to the fixed slice and
  keeps it: with virtual shards in force elsewhere, two nodes then keep the same document.\<close>

lemma missed_placement_overlaps:
  "owns (choose_ownership True (\<lambda>_. None) 1 2) [0, 1, 0] ''a1'' \<and> owns (choose_ownership True (\<lambda>_. Some [0, 1, 0]) 0 2) [0, 1, 0] ''a1''"
  by code_simp

text \<open>Two shards with four virtual shards.\<close>

definition sample_vars :: "string \<Rightarrow> string option" where
  "sample_vars k =
     (if k = ''AETHER_SHARD_COUNT'' then Some ''2''
      else if k = ''AETHER_VSHARDS'' then Some ''4''
      else if k = ''AETHER_COORDINATOR_ADDR'' then Some ''c:1''
      else None)"

definition sample_env :: "u32 \<Rightarrow> node_env" where
  "sample_env i =
     \<lparr>ne_var = sample_vars(''AETHER_SHARD_INDEX'' \<mapsto> show_u32 i), ne_addr_ok = \<lambda>_. True, ne_onnx = None,
      ne_storage = \<lambda>_. Inr (), ne_placement = \<lambda>k. if k = 0 then None else Some [0, 1, 0, 1]\<rparr>"

lemma sample_cluster:
  "\<exists>reg. coordinator_registry sample_vars = Some reg \<and> shard_count reg = 2 \<and> vshards reg = [0, 1, 0, 1]"
proof -
  have "env_or sample_vars 32 ''AETHER_SHARD_COUNT'' 3 = 2" "env_or sample_vars 32 ''AETHER_VSHARDS'' 0 = 4"
    "sample_vars ''AETHER_CONTROL_ID'' = None"
    by (simp_all add: env_or_def sample_vars_def parse_unsigned_def digits_value_def is_digit_def)
  moreover have "[0..<4] = [0, 1, 2, 3 :: nat]" by code_simp
  ultimately show ?thesis
    by (simp add: coordinator_registry_def with_vshards_def with_liveness_timeout_def registry_new_def)
qed

lemma sample_node:
  assumes "i < 2"
  shows "\<exists>p. node_start (sample_env i) = Inr p"
    and "placement_seen (sample_env i) [0, 1, 0, 1]" and "ingest_on (ne_var (sample_env i))"
    and "\<not> env_is (ne_var (sample_env i)) ''AETHER_ROLE'' ''follower''"
    and "env_or (ne_var (sample_env i)) 32 ''AETHER_SHARD_INDEX'' 0 = unat i"
    and "env_or (ne_var (sample_env i)) 32 ''AETHER_SHARD_COUNT'' 1 = 2"
proof -
  have v: "ne_var (sample_env i) k = (if k = ''AETHER_SHARD_INDEX'' then Some (show_u32 i) else sample_vars k)" for k
    by (simp add: sample_env_def)
  show "ingest_on (ne_var (sample_env i))" "\<not> env_is (ne_var (sample_env i)) ''AETHER_ROLE'' ''follower''"
    by (simp_all add: ingest_on_def env_is_def v sample_vars_def)
  have "unat i < 2 ^ 32" using unsigned_less [of i] by simp
  then show "env_or (ne_var (sample_env i)) 32 ''AETHER_SHARD_INDEX'' 0 = unat i"
    by (simp add: env_or_def v show_u32_def parse_show_nat)
  have "env_or sample_vars 32 ''AETHER_SHARD_COUNT'' 1 = 2"
    by (simp add: env_or_def sample_vars_def parse_unsigned_def digits_value_def is_digit_def)
  then show "env_or (ne_var (sample_env i)) 32 ''AETHER_SHARD_COUNT'' 1 = 2" by (simp add: env_or_def v)
  have "coordinators_from_env sample_vars \<noteq> None" by code_simp
  then have c: "coordinators_from_env (ne_var (sample_env i)) \<noteq> None" by (simp add: coordinators_from_env_def v cong: option.case_cong)
  then show "placement_seen (sample_env i) [0, 1, 0, 1]"
    by (auto simp: placement_seen_def sample_env_def intro!: exI [of _ "1 :: nat"])
  show "\<exists>p. node_start (sample_env i) = Inr p"
    by (simp add: node_start_def Let_def v sample_vars_def env_is_def build_store_def) (simp add: sample_env_def)
qed

theorem startup_partition_witness:
  "\<exists>!i. i < 2 \<and> node_keeps (projr (node_start (sample_env i))) [0, 1, 0, 1] ''a1b2c3''"
proof -
  obtain reg where reg: "coordinator_registry sample_vars = Some reg" "shard_count reg = 2" "vshards reg = [0, 1, 0, 1]"
    using sample_cluster by blast
  have kept: "reg = reassignments [(7, 0)] reg" using reg(2,3) by (simp add: reassignments_def reassign_vshard_def)
  have started: "node_start (sample_env i) = Inr (projr (node_start (sample_env i)))" if "i < 2" for i
    using sample_node(1) [OF that] by force
  show ?thesis
    using startup_partition [OF reg(1) kept, of sample_env "\<lambda>i. projr (node_start (sample_env i))" "''a1b2c3''", unfolded reg(2,3)]
      started sample_node(2-6)
    by simp
qed

end
