(* ===== verification/Wal_Runs.thy ===== *)
theory Wal_Runs
  imports Wal
begin

text \<open>
  Runs of the write-ahead log on concrete directories: the instances on which the properties
  of \<open>Wal\<close> are applied, and three directories on which recovery does not give back the log
  that was in memory.
\<close>

section \<open>Concrete logs\<close>

abbreviation sample_lid :: "nat \<Rightarrow> log_id" where
  "sample_lid i \<equiv> \<lparr>li_term = 1, li_node = 1, li_index = i\<rparr>"

abbreviation sample_entry :: "nat \<Rightarrow> entry" where
  "sample_entry i \<equiv> \<lparr>entry_id = sample_lid i, entry_payload = Blank\<rparr>"

text \<open>A codec for these records, with entries padded to a chosen size.\<close>

definition sample_enc :: "nat \<Rightarrow> wal_record \<Rightarrow> u8 list" where
  "sample_enc pad r = (case r of
     Entry e \<Rightarrow> [1, word_of_nat (entry_index e)] @ replicate pad 0
   | TruncateFrom i \<Rightarrow> [2, word_of_nat i] | Purge l \<Rightarrow> [3, word_of_nat (li_index l)]
   | Committed c \<Rightarrow> [4, 0] | Checkpoint lp c \<Rightarrow> [5, 0])"

definition sample_dec :: "u8 list \<Rightarrow> wal_record option" where
  "sample_dec bs = (let i = unat (bs ! 1) in
     if bs ! 0 = 1 then Some (Entry (sample_entry i)) else if bs ! 0 = 2 then Some (TruncateFrom i)
     else if bs ! 0 = 3 then Some (Purge (sample_lid i)) else if bs ! 0 = 4 then Some (Committed None)
     else if bs ! 0 = 5 then Some (Checkpoint None None) else None)"

definition no_crc :: "u8 list \<Rightarrow> u32" where
  "no_crc bs = 0"

definition wal_of :: "(wal_record \<Rightarrow> u8 list) \<Rightarrow> (nat \<times> wal_record list) list \<Rightarrow> wal" where
  "wal_of enc segs =
     \<lparr>w_dir = map (\<lambda>(s, rs). (segment_path s, frames enc no_crc rs)) segs, seg_seq = fst (last segs),
      seg_bytes = length (frames enc no_crc (snd (last segs))),
      seg_max_index = foldl bump_max None (snd (last segs)),
      w_closed = map closed_entry (butlast segs), w_state = replay (concat (map snd segs))\<rparr>"

lemma wal_of_repr:
  assumes "segs \<noteq> []" and "sorted_wrt (<) (map fst segs)" and "\<forall>s \<in> fst ` set segs. s < 2 ^ 64"
    and "framable enc (concat (map snd segs))"
  shows "wal_repr enc no_crc (wal_of enc segs) segs"
proof -
  have "inj_on segment_path (fst ` set segs)"
    using assms(3) segment_path_inj by (intro inj_onI) blast
  moreover have "distinct (map fst segs)" using assms(2) by (simp add: strict_sorted_iff)
  ultimately have "distinct (map segment_path (map fst segs))"
    by (subst distinct_map) simp
  then have wf: "hm_wf (w_dir (wal_of enc segs))" by (simp add: wal_of_def o_def split_beta)
  have "framable enc rs" if "(s, rs) \<in> set segs" for s rs
    using that assms(4) by (force simp: framable_def)
  moreover have "hm_get (w_dir (wal_of enc segs)) (segment_path s) = Some (frames enc no_crc rs)"
    if "(s, rs) \<in> set segs" for s rs
    using that by (subst map_of_eq_Some_iff [OF wf]) (force simp: wal_of_def)
  ultimately have "\<forall>(s, rs) \<in> set segs.
      hm_get (w_dir (wal_of enc segs)) (segment_path s) = Some (frames enc no_crc rs) \<and> framable enc rs"
    by blast
  moreover have "\<forall>n \<in> fst ` set (w_dir (wal_of enc segs)). \<forall>t. segment_seq n = Some t \<longrightarrow>
      n = segment_path t \<and> t \<in> fst ` set segs"
  proof (intro ballI allI impI)
    fix n t assume n: "n \<in> fst ` set (w_dir (wal_of enc segs))" "segment_seq n = Some t"
    obtain s where "s \<in> fst ` set segs" "n = segment_path s" using n(1) by (force simp: wal_of_def)
    with n(2) assms(3) segment_seq_path [of s] show "n = segment_path t \<and> t \<in> fst ` set segs" by auto
  qed
  moreover note assms(1-3) wf
  ultimately show ?thesis
    unfolding wal_repr_def wal_files_def by (intro conjI) (assumption | simp (no_asm) add: wal_of_def)+
qed

lemma sample_codec:
  assumes "\<forall>r \<in> set rs. r \<in> (\<lambda>i. Entry (sample_entry i)) ` {..<256} \<union> TruncateFrom ` {..<256}
      \<union> (\<lambda>i. Purge (sample_lid i)) ` {..<256} \<union> {Committed None, Checkpoint None None}"
  shows "codec_ok (sample_enc pad) sample_dec rs"
  unfolding codec_ok_def
proof
  fix r assume "r \<in> set rs"
  with assms show "sample_dec (sample_enc pad r) = Some r"
    by (auto simp: sample_enc_def sample_dec_def unsigned_of_nat take_bit_nat_eq_self)
qed

lemma sample_small: "small_checkpoints (sample_enc pad)"
  by (simp add: small_checkpoints_def sample_enc_def FRAME_HEADER_def SEGMENT_MAX_BYTES_def)

lemma sample_framable: "pad < 2 ^ 31 \<Longrightarrow> framable (sample_enc pad) rs"
  by (auto simp: framable_def sample_enc_def split: wal_record.split)

section \<open>Instances of the properties\<close>

abbreviation two_segments :: "(nat \<times> wal_record list) list" where
  "two_segments \<equiv> [(0, [Entry (sample_entry 1), Entry (sample_entry 2)]),
     (1, [Checkpoint None None, Entry (sample_entry 3)])]"

lemma two_segments_repr: "wal_repr (sample_enc 0) no_crc (wal_of (sample_enc 0) two_segments) two_segments"
  by (rule wal_of_repr) (simp_all add: sample_framable)

lemma two_segments_codec: "codec_ok (sample_enc 0) sample_dec (concat (map snd two_segments))"
  by (rule sample_codec) simp

theorem wal_open_torn_tail_witness:
  "\<exists>w' rs' rest. wal_open sample_dec no_crc
      (hm_insert (segment_path 1) (take 15 (frames (sample_enc 0) no_crc [Checkpoint None None, Entry (sample_entry 3)]))
        (w_dir (wal_of (sample_enc 0) two_segments))) = Some w'
    \<and> [Checkpoint None None, Entry (sample_entry 3)] = rs' @ rest"
  using wal_open_torn_tail [of "sample_enc 0" sample_dec "[(0, [Entry (sample_entry 1), Entry (sample_entry 2)])]" 1
      "[Checkpoint None None, Entry (sample_entry 3)]" no_crc "wal_of (sample_enc 0) two_segments", OF _ _ refl, of 15]
    two_segments_codec two_segments_repr by auto

theorem append_entries_durable_witness:
  "\<exists>w'. append_entries (sample_enc 0) no_crc (wal_of (sample_enc 0) two_segments) [sample_entry 4] = Some w'"
  using append_entries_durable [OF two_segments_repr sample_small, of "[sample_entry 4]"]
  by (auto simp: sample_enc_def wal_of_def)

theorem save_vote_atomic_witness:
  "let v = \<lparr>vote_term = 7, vote_node = 42, vote_committed = False\<rparr>;
       encv = (\<lambda>v. [word_of_nat (vote_term v), word_of_nat (vote_node v)]);
       decv = (\<lambda>bs. Some \<lparr>vote_term = unat (bs ! 0), vote_node = unat (bs ! 1), vote_committed = False\<rparr>)
   in read_vote decv (save_vote encv [] v) = Some v"
  unfolding Let_def by (rule save_vote_atomic [THEN conjunct2]) simp

lemma two_segments_checkpointed: "checkpointed two_segments"
proof -
  have "replay [Entry (sample_entry 1), Entry (sample_entry 2)]
      = \<lparr>ws_entries = fmupd 2 (sample_entry 2) (fmupd 1 (sample_entry 1) fmempty), ws_last_purged = None, ws_committed = None\<rparr>"
    by (simp add: replay_def wal_state_default_def)
  then show ?thesis
    unfolding checkpointed_def by (auto simp: Cons_eq_append_conv)
qed


abbreviation sample_store :: wal_log_store where
  "sample_store \<equiv> \<lparr>wls_wal = wal_of (sample_enc 0) two_segments, wls_dir = [], wls_vote = None\<rparr>"

lemma sample_append:
  "\<exists>w. log_record (sample_enc 0) no_crc r w0 = Some w"
  by (simp add: log_record_def wal_append_eq [OF sample_small])

lemma sample_truncate:
  "\<exists>s1. wls_truncate (sample_enc 0) no_crc s0 l = Some s1" "\<exists>s1. wls_append (sample_enc 0) no_crc s0 [e] = Some s1"
  "\<exists>s1. wls_purge (sample_enc 0) no_crc s0 l = Some s1"
  by (simp_all add: wls_truncate_def truncate_from_def wls_append_def wls_purge_def wal_purge_def
      log_record_def wal_append_eq [OF sample_small])

theorem wal_replace_suffix_witness:
  "\<exists>s1 s2. wls_truncate (sample_enc 0) no_crc sample_store (sample_lid 2) = Some s1
    \<and> wls_append (sample_enc 0) no_crc s1 [sample_entry 2] = Some s2
    \<and> fmlookup (log (wls_abs s2)) 2 = Some (sample_entry 2) \<and> fmlookup (log (wls_abs s2)) 3 = None"
proof -
  obtain s1 where s1: "wls_truncate (sample_enc 0) no_crc sample_store (sample_lid 2) = Some s1"
    using sample_truncate by blast
  obtain s2 where s2: "wls_append (sample_enc 0) no_crc s1 [sample_entry 2] = Some s2"
    using sample_truncate by blast
  have ok: "mem_ok (wls_abs sample_store)"
    by (auto simp: wls_abs_def wal_of_def replay_def wal_state_default_def split: if_splits)
  have "fmlookup (log (wls_abs s2)) 2 = Some (sample_entry 2)" "fmlookup (log (wls_abs s2)) 3 = None"
    using wal_replace_suffix [OF ok s1 s2, of 2] wal_replace_suffix [OF ok s1 s2, of 3] by simp_all
  with s1 s2 show ?thesis by blast
qed


section \<open>Directories that do not give the log back\<close>

lemma sample_paths: "segment_path 0 \<noteq> segment_path 1" "segment_path 0 \<noteq> segment_path 2"
    "segment_path 1 \<noteq> segment_path 2"
  by (simp_all add: segment_path_inj)

text \<open>
  Reclaiming by highest index alone can remove a segment from the middle. Segment 0
  holds an entry 10 that segment 1 voids with a truncation before writing 8 and 9; a purge
  at 9 removes segment 1 and keeps segment 0, and reopening brings entry 10 back although
  the log in memory is empty.
\<close>

theorem purge_resurrects_entry:
  "let segs = [(0, [Entry (sample_entry 10)]),
        (1, [Checkpoint None None, TruncateFrom 8, Entry (sample_entry 8), Entry (sample_entry 9)]),
        (2, [Checkpoint None None])];
       w = wal_of (sample_enc 0) segs
   in wal_repr (sample_enc 0) no_crc w segs
    \<and> (\<exists>w' w''. wal_purge (sample_enc 0) no_crc w (sample_lid 9) = Some w' \<and> ws_entries (w_state w') = fmempty
        \<and> wal_open sample_dec no_crc (w_dir w') = Some w''
        \<and> fmlookup (ws_entries (w_state w'')) 10 = Some (sample_entry 10))"
proof -
  let ?e = "sample_enc 0"
  let ?segs = "[(0, [Entry (sample_entry 10)]),
    (1, [Checkpoint None None, TruncateFrom 8, Entry (sample_entry 8), Entry (sample_entry 9)]),
    (2, [Checkpoint None None])] :: (nat \<times> wal_record list) list"
  let ?kept = "[(0, [Entry (sample_entry 10)]), (2, [Checkpoint None None, Purge (sample_lid 9)])] :: (nat \<times> wal_record list) list"
  let ?w = "wal_of ?e ?segs"
  have fits: "\<not> fills_segment ?e ?w (Purge (sample_lid 9))"
    by (simp add: fills_segment_def wal_of_def sample_enc_def length_frame FRAME_HEADER_def SEGMENT_MAX_BYTES_def)
  let ?w1 = "fold_record (write_record ?e no_crc (Purge (sample_lid 9)) ?w) (Purge (sample_lid 9))"
  define w' where "w' = ?w1\<lparr>w_dir := foldl (\<lambda>d (_, path, m). if removable (sample_lid 9) m then hm_remove path d else d)
      (w_dir ?w1) (w_closed ?w1), w_closed := filter (\<lambda>(_, _, m). \<not> removable (sample_lid 9) m) (w_closed ?w1)\<rparr>"
  have w': "wal_purge ?e no_crc ?w (sample_lid 9) = Some w'"
    using fits by (simp add: wal_purge_def log_record_def wal_append_eq [OF sample_small] w'_def)
  have st: "w_state w' = wal_state_apply (w_state ?w) (Purge (sample_lid 9))"
    by (simp add: w'_def fold_record_def)
  have dir: "w_dir w' = w_dir (wal_of ?e ?kept)"
    using sample_paths
    by (simp add: w'_def fold_record_def write_record_def wal_of_def bump_max_def removable_def Let_def)
  have "ws_entries (w_state w') = fmempty"
    unfolding st by (simp add: wal_of_def replay_def wal_state_default_def) (rule fmap_ext, simp)
  moreover have "wal_open sample_dec no_crc (w_dir w') = Some (wal_of ?e ?kept)"
    unfolding dir by (rule wal_open_repr [OF sample_codec wal_of_repr]) (simp_all add: sample_framable)
  moreover have "fmlookup (ws_entries (w_state (wal_of ?e ?kept))) 10 = Some (sample_entry 10)"
    by (simp add: wal_of_def replay_def wal_state_default_def)
  moreover have "wal_repr ?e no_crc ?w ?segs" by (rule wal_of_repr) (simp_all add: sample_framable)
  ultimately show ?thesis unfolding Let_def using w' by blast
qed

text \<open>
  A purge marker that fills the active segment is lost. The rotation writes the
  checkpoint of the next segment before the purge is folded into the state, and the purge
  then reclaims the segment that holds its own marker: reopening knows no purge point.
\<close>

theorem purge_marker_lost:
  "let pad = SEGMENT_MAX_BYTES - 11; segs = [(0, [Entry (sample_entry 1)])]; w = wal_of (sample_enc pad) segs
   in wal_repr (sample_enc pad) no_crc w segs
    \<and> (\<exists>w' w''. wal_purge (sample_enc pad) no_crc w (sample_lid 1) = Some w'
        \<and> ws_last_purged (w_state w') = Some (sample_lid 1)
        \<and> wal_open sample_dec no_crc (w_dir w') = Some w'' \<and> ws_last_purged (w_state w'') = None)"
proof -
  let ?e = "sample_enc (SEGMENT_MAX_BYTES - 11)" and ?p = "Purge (sample_lid 1)"
  let ?w = "wal_of ?e [(0, [Entry (sample_entry 1)])]" and ?kept = "[(1, [Checkpoint None None])] :: (nat \<times> wal_record list) list"
  have pad: "SEGMENT_MAX_BYTES - 11 < 2 ^ 31" by (simp add: SEGMENT_MAX_BYTES_def)
  have fills: "fills_segment ?e ?w ?p"
    by (simp add: fills_segment_def wal_of_def sample_enc_def length_frame FRAME_HEADER_def SEGMENT_MAX_BYTES_def)
  have ckpt: "pointer_checkpoint ?w = Checkpoint None None"
    by (simp add: pointer_checkpoint_def wal_of_def replay_def wal_state_default_def)
  let ?w1 = "fold_record (write_record ?e no_crc (Checkpoint None None) (next_segment (write_record ?e no_crc ?p ?w))) ?p"
  define w' where "w' = ?w1\<lparr>w_dir := foldl (\<lambda>d (_, path, m). if removable (sample_lid 1) m then hm_remove path d else d)
      (w_dir ?w1) (w_closed ?w1), w_closed := filter (\<lambda>(_, _, m). \<not> removable (sample_lid 1) m) (w_closed ?w1)\<rparr>"
  have w': "wal_purge ?e no_crc ?w (sample_lid 1) = Some w'"
    using fills ckpt by (simp add: wal_purge_def log_record_def wal_append_eq [OF sample_small] w'_def)
  have st: "ws_last_purged (w_state w') = Some (sample_lid 1)" by (simp add: w'_def fold_record_def)
  have dir: "w_dir w' = w_dir (wal_of ?e ?kept)"
    using sample_paths
    by (simp add: w'_def fold_record_def write_record_def next_segment_def wal_of_def bump_max_def removable_def Let_def)
  have "wal_open sample_dec no_crc (w_dir w') = Some (wal_of ?e ?kept)"
    unfolding dir by (rule wal_open_repr [OF sample_codec wal_of_repr]) (use pad in \<open>simp_all add: sample_framable\<close>)
  moreover have "ws_last_purged (w_state (wal_of ?e ?kept)) = None"
    by (simp add: wal_of_def replay_def wal_state_default_def)
  moreover have "wal_repr ?e no_crc ?w [(0, [Entry (sample_entry 1)])]"
    by (rule wal_of_repr) (use pad in \<open>simp_all add: sample_framable\<close>)
  ultimately show ?thesis unfolding Let_def using w' st by blast
qed

lemma wal_repr_dir:
  assumes "wal_repr enc crc w segs" and "hm_wf d" and "hm_get d = hm_get (w_dir w)"
  shows "wal_repr enc crc (w\<lparr>w_dir := d\<rparr>) segs"
proof -
  have "fst ` set d = fst ` set (w_dir w)" using assms(3) by (metis dom_map_of_conv_image_fst)
  with assms show ?thesis by (simp add: wal_repr_def wal_files_def)
qed

lemma scan_trailing_byte:
  assumes "codec_ok enc dec rs" and "framable enc rs"
  shows "scan_frames dec crc (frames enc crc rs @ [b]) 0 = (rs, Some (length (frames enc crc rs)))"
  using scan_frames_prefix [OF assms, of crc "[]" "[b]"]
  by (simp add: scan_frames.simps [of dec crc _ "length (frames enc crc rs)"] FRAME_HEADER_def)

text \<open>
  After corruption in a segment that is not the last, recovery appends to segment 0
  instead of the segment it repaired. What is written next is replayed first: here a
  truncation from index 1 empties the log in memory, and reopening brings entry 1 back.
\<close>

theorem corrupt_middle_reorders:
  "let e = sample_enc 0;
       dir = [(segment_path 1, frames e no_crc [Entry (sample_entry 1)] @ [0]),
              (segment_path 2, frames e no_crc [Checkpoint None None, Entry (sample_entry 2)])]
   in \<exists>w w' w''. wal_open sample_dec no_crc dir = Some w \<and> seg_seq w = 0
        \<and> truncate_from e no_crc w 1 = Some w' \<and> ws_entries (w_state w') = fmempty
        \<and> wal_open sample_dec no_crc (w_dir w') = Some w''
        \<and> fmlookup (ws_entries (w_state w'')) 1 = Some (sample_entry 1)"
proof -
  let ?e = "sample_enc 0" and ?one = "[Entry (sample_entry 1)]"
  let ?f = "frames ?e no_crc ?one" and ?t = "TruncateFrom 1"
  let ?dir = "[(segment_path 1, ?f @ [0]), (segment_path 2, frames ?e no_crc [Checkpoint None None, Entry (sample_entry 2)])]"
  note paths = sample_paths sample_paths [symmetric] segment_seq_path
  have one: "scan_frames sample_dec no_crc (?f @ [0]) 0 = (?one, Some (length ?f))"
    by (rule scan_trailing_byte) (simp_all add: sample_framable sample_codec)
  define w where "w = \<lparr>w_dir = [(segment_path 1, ?f), (segment_path 0, [])], seg_seq = 0, seg_bytes = 0,
    seg_max_index = None, w_closed = [(1, segment_path 1, Some 1)], w_state = replay ?one\<rparr>"
  have seqs: "sort (List.map_filter segment_seq (hm_keys ?dir)) = [1, 2]" using paths by simp
  have scan: "open_scan sample_dec no_crc ?dir [1, 2] wal_state_default []
      = Some (replay ?one, [(1, segment_path 1, Some 1)], Some (1, length ?f))"
    using one by (simp add: replay_def bump_max_def del: frames_simps)
  have w: "wal_open sample_dec no_crc ?dir = Some w"
    unfolding wal_open_def Let_def seqs scan using paths
    by (simp add: w_def truncate_corrupt_def del: frames_simps)
  define w' where "w' = fold_record (write_record ?e no_crc ?t w) ?t"
  have w': "truncate_from ?e no_crc w 1 = Some w'"
    by (simp add: truncate_from_def log_record_def wal_append_eq [OF sample_small] w'_def fills_segment_def
        w_def sample_enc_def FRAME_HEADER_def SEGMENT_MAX_BYTES_def)
  have st: "ws_entries (w_state w') = fmempty"
    by (rule fmap_ext) (simp add: w'_def w_def fold_record_def replay_def wal_state_default_def)
  let ?segs = "[(0, [?t]), (1, ?one)] :: (nat \<times> wal_record list) list"
  have dir: "w_dir w' = [(segment_path 1, ?f), (segment_path 0, frames ?e no_crc [?t])]"
    using paths by (simp add: w'_def w_def fold_record_def write_record_def Let_def del: frames_simps) simp
  have "wal_repr ?e no_crc ((wal_of ?e ?segs)\<lparr>w_dir := w_dir w'\<rparr>) ?segs"
  proof (rule wal_repr_dir [OF wal_of_repr])
    show "hm_wf (w_dir w')" "hm_get (w_dir w') = hm_get (w_dir (wal_of ?e ?segs))"
      using paths by (auto simp: dir wal_of_def fun_eq_iff)
  qed (simp_all add: sample_framable)
  from wal_open_repr [OF sample_codec this]
  have "wal_open sample_dec no_crc (w_dir w') = Some ((wal_of ?e ?segs)\<lparr>w_dir := w_dir w'\<rparr>)" by simp
  moreover have "fmlookup (ws_entries (w_state ((wal_of ?e ?segs)\<lparr>w_dir := w_dir w'\<rparr>))) 1 = Some (sample_entry 1)"
    by (simp add: wal_of_def replay_def wal_state_default_def)
  moreover have "seg_seq w = 0" by (simp add: w_def)
  ultimately show ?thesis unfolding Let_def using w w' st by blast
qed

end
