(* ===== verification/Control_Node.thy ===== *)
theory Control_Node
  imports Startup Auth Wal_Runs
begin

text \<open>
  The coordinator process as its \<^verbatim>\<open>main\<close> puts it together
  (\<^verbatim>\<open>src/crates/coordinator/src/main.rs\<close> and \<^verbatim>\<open>ControlPlane::from_env\<close> of
  \<^verbatim>\<open>src/crates/coordinator/src/control.rs\<close>): the initial registry, the storage of the state
  group on disk or in memory, authorization and the metrics address, with every error in the order
  the code reports it. On top of the write-ahead log, the snapshot directory and the replicated
  application this gives what a restart recovers. The disk is a parameter that says what a data
  directory holds; the codecs, the checksum and the parsing of socket addresses are parameters too.
\<close>

section \<open>The state group's storage\<close>

record raft_disk =
  disk_wal :: wal_dir
  disk_data :: wal_dir
  disk_snapshots :: wal_dir

datatype log_backend = DurableLog wal_log_store | MemoryLog log_inner

datatype control_error = BadControlConfig string | LogUnreadable

text \<open>The codecs a durable group reads with.\<close>
record group_codecs =
  gc_record :: "u8 list \<Rightarrow> wal_record option"
  gc_vote :: "u8 list \<Rightarrow> raft_vote option"
  gc_crc :: "u8 list \<Rightarrow> u32"
  gc_snapshot :: "u8 list \<Rightarrow> stored_snapshot option"
  gc_authority :: "u8 list \<Rightarrow> authority_state option"

definition control_storage ::
  "group_codecs \<Rightarrow> (string \<Rightarrow> raft_disk) \<Rightarrow> string option \<Rightarrow> registry \<Rightarrow> control_error + log_backend \<times> registry sm_store" where
  "control_storage gc disk data_dir reg =
     (case data_dir of
        Some dir \<Rightarrow>
          (case wls_open (gc_record gc) (gc_vote gc) (gc_crc gc) (disk_wal (disk dir)) (disk_data (disk dir)) of
             None \<Rightarrow> Inl LogUnreadable
           | Some log_store \<Rightarrow>
               Inr (DurableLog log_store,
                 with_snapshot_dir (gc_snapshot gc) (control_restore (gc_authority gc)) reg (disk_snapshots (disk dir))))
      | None \<Rightarrow> Inr (MemoryLog log_default, sm_new reg))"

record control_plane =
  cp_plan :: control_plan
  cp_log :: log_backend
  cp_sm :: "registry sm_store"

definition control_start ::
  "group_codecs \<Rightarrow> (string \<Rightarrow> raft_disk) \<Rightarrow> (string \<Rightarrow> string option) \<Rightarrow> registry \<Rightarrow> control_error + control_plane option" where
  "control_start gc disk var reg =
     (case control_from_env (var ''AETHER_CONTROL_ID'') (var ''AETHER_CONTROL_PEERS'') of
        Inl e \<Rightarrow> Inl (BadControlConfig e)
      | Inr None \<Rightarrow> Inr None
      | Inr (Some plan) \<Rightarrow>
          (case control_storage gc disk (var ''AETHER_DATA_DIR'') reg of
             Inl e \<Rightarrow> Inl e
           | Inr (lg, sm) \<Rightarrow> Inr (Some \<lparr>cp_plan = plan, cp_log = lg, cp_sm = sm\<rparr>)))"

section \<open>The coordinator process\<close>

datatype start_error = BadAddress string | PlacementPanic | ControlFailed control_error | AuthFailed string

text \<open>
  The registry is shared with the state group, so what the group restored is what the coordinator
  serves. The raft transport is served exactly when there is a group.
\<close>
record coordinator_node =
  cn_addr :: string
  cn_registry :: registry
  cn_reap_every :: nat
  cn_control :: "control_plane option"
  cn_auth :: auth
  cn_metrics :: "string option"
  cn_transport :: bool

definition coordinator_start ::
  "group_codecs \<Rightarrow> (string \<Rightarrow> raft_disk) \<Rightarrow> (string \<Rightarrow> bool) \<Rightarrow> (string \<Rightarrow> string + string) \<Rightarrow>
    (string \<Rightarrow> string option) \<Rightarrow> start_error + coordinator_node" where
  "coordinator_start gc disk addr_ok read_file var =
     (let addr = (case var ''AETHER_COORDINATOR_ADDR'' of Some a \<Rightarrow> a | None \<Rightarrow> ''127.0.0.1:50050'')
      in if \<not> addr_ok addr then Inl (BadAddress addr)
         else case coordinator_registry var of
           None \<Rightarrow> Inl PlacementPanic
         | Some reg \<Rightarrow>
             (case control_start gc disk var reg of
                Inl e \<Rightarrow> Inl (ControlFailed e)
              | Inr control \<Rightarrow>
                  (case auth_from_env (var ''AETHER_TOKENS_FILE'') read_file of
                     Inl e \<Rightarrow> Inl (AuthFailed e)
                   | Inr au \<Rightarrow>
                       Inr \<lparr>cn_addr = addr,
                            cn_registry = (case control of Some cp \<Rightarrow> sm_app (cp_sm cp) | None \<Rightarrow> reg),
                            cn_reap_every = reap_every var, cn_control = control, cn_auth = au,
                            cn_metrics = metrics_addr var addr_ok, cn_transport = (control \<noteq> None)\<rparr>)))"

section \<open>What a restart recovers\<close>

lemma coordinator_registry_fresh:
  assumes "coordinator_registry var = Some reg"
  shows "shard_count reg = word_of_nat (env_or var 32 ''AETHER_SHARD_COUNT'' 3)" and "finite (draining reg)"
  using assms by (auto simp: coordinator_registry_def Let_def with_vshards_def with_liveness_timeout_def
      registry_new_def with_replicated_authority_def split: if_splits)

lemma wls_open_repr:
  assumes "codec_ok enc dec (concat (map snd segs))" and "wal_repr enc crc (wls_wal s) segs"
    and "wls_vote s = read_vote decv (wls_dir s)"
  shows "wls_open dec decv crc (w_dir (wls_wal s)) (wls_dir s) = Some s"
  using wal_open_repr [OF assms(1,2)] assms(3) by (simp add: wls_open_def)

lemma control_storage_recovers:
  assumes "wls_open (gc_record gc) (gc_vote gc) (gc_crc gc) (disk_wal (disk d)) (disk_data (disk d)) = Some s"
    and snaps: "disk_snapshots (disk d) = the (snap_dir (fst (build_snapshot encS (control_snapshot_bytes encA) sm)))"
    and "snap_dir sm = Some d0" and "\<forall>l. sm_last_applied sm = Some l \<longrightarrow> li_index l < 2 ^ 64"
    and "gc_snapshot gc (encS (snd (build_snapshot encS (control_snapshot_bytes encA) sm)))
      = Some (snd (build_snapshot encS (control_snapshot_bytes encA) sm))"
    and "control_ok encA (gc_authority gc) n (sm_app sm)" and "control_ok encA (gc_authority gc) n fresh"
  shows "\<exists>sm'. control_storage gc disk (Some d) fresh = Inr (DurableLog s, sm')
    \<and> ctl.sm_eqv encA (gc_authority gc) n sm' sm"
proof -
  from ctl.restart_eqv [OF assms(6,7,3), of "gc_snapshot gc" encS] assms(4,5)
  have "ctl.sm_eqv encA (gc_authority gc) n
      (with_snapshot_dir (gc_snapshot gc) (control_restore (gc_authority gc)) fresh (disk_snapshots (disk d))) sm"
    unfolding snaps by blast
  then show ?thesis using assms(1) by (simp add: control_storage_def)
qed

text \<open>
  C23: a coordinator restarts where it stopped. Let a member of the state group with a log store
  \<open>s\<close>, in step with its files, have built a snapshot of its state machine \<open>sm\<close>. A process started
  on that disk with the same number of shards, with valid settings, comes up with the same log
  store, vote included; it serves the raft transport and resumes with the placement table and the
  drain set of the snapshot, not with the initial ones; and applying the entries the log still
  holds over any range gives the authority, the applied position and the membership that applying
  them before the crash gave.
\<close>
theorem coordinator_restart_recovers:
  assumes env: "control_from_env (var ''AETHER_CONTROL_ID'') (var ''AETHER_CONTROL_PEERS'') = Inr (Some plan)"
      "var ''AETHER_DATA_DIR'' = Some d" "addr_ok (case var ''AETHER_COORDINATOR_ADDR'' of Some a \<Rightarrow> a | None \<Rightarrow> ''127.0.0.1:50050'')"
      "coordinator_registry var = Some fresh" "auth_from_env (var ''AETHER_TOKENS_FILE'') read_file = Inr au"
    and lg: "codec_ok enc (gc_record gc) (concat (map snd segs))" "wal_repr enc (gc_crc gc) (wls_wal s) segs"
      "wls_vote s = read_vote (gc_vote gc) (wls_dir s)"
    and sm: "snap_dir sm = Some d0" "\<forall>l. sm_last_applied sm = Some l \<longrightarrow> li_index l < 2 ^ 64"
      "shard_count (sm_app sm) = shard_count fresh" "finite (draining (sm_app sm))"
    and codecs: "gc_snapshot gc (encS (snd (build_snapshot encS (control_snapshot_bytes encA) sm)))
        = Some (snd (build_snapshot encS (control_snapshot_bytes encA) sm))" "\<forall>a. gc_authority gc (encA a) = Some a"
    and disk: "disk d = \<lparr>disk_wal = w_dir (wls_wal s), disk_data = wls_dir s,
      disk_snapshots = the (snap_dir (fst (build_snapshot encS (control_snapshot_bytes encA) sm)))\<rparr>"
  shows "\<exists>node cp. coordinator_start gc disk addr_ok read_file var = Inr node \<and> cn_control node = Some cp
    \<and> cp_plan cp = plan \<and> cp_log cp = DurableLog s \<and> cn_transport node
    \<and> same_authority (cn_registry node) (sm_app sm)
    \<and> (let es = wls_try_get_log_entries s lo hi;
           before = fst (sm_apply (control_apply decC) sm es);
           after = fst (sm_apply (control_apply decC) (cp_sm cp) es)
       in same_authority (sm_app after) (sm_app before) \<and> sm_last_applied after = sm_last_applied before
          \<and> sm_membership after = sm_membership before)"
proof -
  let ?n = "shard_count fresh"
  have ok: "control_ok encA (gc_authority gc) ?n (sm_app sm)" "control_ok encA (gc_authority gc) ?n fresh"
    using sm(3,4) codecs(2) coordinator_registry_fresh(2) [OF env(4)] by (simp_all add: control_ok_def)
  have "wls_open (gc_record gc) (gc_vote gc) (gc_crc gc) (disk_wal (disk d)) (disk_data (disk d)) = Some s"
    using wls_open_repr [OF lg] by (simp add: disk)
  from control_storage_recovers [where disk = disk and d = d, OF this _ sm(1,2) codecs(1) ok] obtain sm' where
    opened: "control_storage gc disk (Some d) fresh = Inr (DurableLog s, sm')"
    and eqv: "ctl.sm_eqv encA (gc_authority gc) ?n sm' sm" by (auto simp: disk)
  have "control_start gc disk var fresh = Inr (Some \<lparr>cp_plan = plan, cp_log = DurableLog s, cp_sm = sm'\<rparr>)"
    using env(1,2) opened by (simp add: control_start_def)
  moreover have "ctl.sm_eqv encA (gc_authority gc) ?n
      (fst (sm_apply (control_apply decC) sm' es)) (fst (sm_apply (control_apply decC) sm es))" for es
    using ctl.sm_apply_eqv [OF eqv] by blast
  ultimately show ?thesis
    using env(3-5) eqv by (simp add: coordinator_start_def Let_def ctl.sm_eqv_def)
qed

text \<open>
  A group of one with two shards and four virtual ones: the first virtual shard was moved to group
  1 and a node drained before the snapshot, three entries are in the log.
\<close>
definition sample_settings :: "string \<Rightarrow> string option" where
  "sample_settings = map_of [(''AETHER_CONTROL_ID'', ''1''), (''AETHER_CONTROL_PEERS'', ''1=h:1''),
     (''AETHER_DATA_DIR'', ''/data''), (''AETHER_SHARD_COUNT'', ''2''), (''AETHER_VSHARDS'', ''4'')]"

definition sample_initial :: registry where
  "sample_initial = with_replicated_authority
     ((with_liveness_timeout (registry_new 2) 15000)\<lparr>vshards := [0, 1, 0, 1]\<rparr>)"

definition sample_machine :: "registry sm_store" where
  "sample_machine = (sm_new (sample_initial\<lparr>vshards := [1, 1, 0, 1], draining := {''n0''}\<rparr>))\<lparr>snap_dir := Some []\<rparr>"

definition sample_store :: wal_log_store where
  "sample_store = \<lparr>wls_wal = wal_of (sample_enc 0) two_segments, wls_dir = [], wls_vote = None\<rparr>"

definition sample_codecs :: group_codecs where
  "sample_codecs = \<lparr>gc_record = sample_dec, gc_vote = (\<lambda>_. None), gc_crc = no_crc,
     gc_snapshot = (\<lambda>_. Some (snd (build_snapshot (\<lambda>_. [9]) (control_snapshot_bytes enc_authority) sample_machine))),
     gc_authority = dec_authority\<rparr>"

definition sample_disk :: "string \<Rightarrow> raft_disk" where
  "sample_disk = (\<lambda>_. \<lparr>disk_wal = w_dir (wls_wal sample_store), disk_data = wls_dir sample_store,
     disk_snapshots = the (snap_dir (fst (build_snapshot (\<lambda>_. [9]) (control_snapshot_bytes enc_authority) sample_machine)))\<rparr>)"

lemma sample_control: "\<exists>plan. control_from_env (sample_settings ''AETHER_CONTROL_ID'') (sample_settings ''AETHER_CONTROL_PEERS'') = Inr (Some plan)"
proof -
  have "filter (\<lambda>s. s \<noteq> []) (map trim (split_pred (\<lambda>c. c = CHR '','') ''1=h:1'')) = [''1=h:1'']"
    "split_once (CHR ''='') ''1=h:1'' = Some (''1'', ''h:1'')" "trim ''1'' = ''1''" "trim ''h:1'' = ''h:1''"
    by code_simp+
  moreover have "parse_unsigned 64 ''1'' = Some 1"
    by (simp add: parse_unsigned_def digits_value_def is_digit_def)
  ultimately show ?thesis by (simp add: sample_settings_def control_from_env_def)
qed

lemma sample_fresh: "coordinator_registry sample_settings = Some sample_initial"
proof -
  have "env_or sample_settings 32 ''AETHER_SHARD_COUNT'' 3 = 2" "env_or sample_settings 32 ''AETHER_VSHARDS'' 0 = 4"
    "env_or sample_settings 64 ''AETHER_LIVENESS_TIMEOUT_SECS'' 15 = 15"
    by (simp_all add: env_or_def sample_settings_def parse_unsigned_def digits_value_def is_digit_def)
  moreover have "[0..<4] = [0, 1, 2, 3 :: nat]" by code_simp
  ultimately show ?thesis
    by (simp add: coordinator_registry_def sample_settings_def with_vshards_def with_liveness_timeout_def
        registry_new_def sample_initial_def)
qed

theorem coordinator_restart_recovers_witness:
  "\<exists>node. coordinator_start sample_codecs sample_disk (\<lambda>_. True) Inr sample_settings = Inr node
    \<and> vshards (cn_registry node) = [1, 1, 0, 1] \<and> draining (cn_registry node) = {''n0''}"
proof -
  obtain plan where plan: "control_from_env (sample_settings ''AETHER_CONTROL_ID'') (sample_settings ''AETHER_CONTROL_PEERS'') = Inr (Some plan)"
    using sample_control by blast
  have var: "sample_settings ''AETHER_DATA_DIR'' = Some ''/data''"
    and au: "auth_from_env (sample_settings ''AETHER_TOKENS_FILE'') Inr = Inr auth_default"
    by (simp_all add: sample_settings_def auth_from_env_def)
  have lg: "codec_ok (sample_enc 0) (gc_record sample_codecs) (concat (map snd two_segments))"
    "wal_repr (sample_enc 0) (gc_crc sample_codecs) (wls_wal sample_store) two_segments"
    unfolding sample_codecs_def sample_store_def group_codecs.simps wal_log_store.simps
    by (rule two_segments_codec, rule two_segments_repr)
  have sm: "snap_dir sample_machine = Some []" "shard_count (sm_app sample_machine) = shard_count sample_initial"
    "finite (draining (sm_app sample_machine))" "sm_last_applied sample_machine = None"
    by (simp_all add: sample_machine_def sm_new_def)
  have auth: "\<forall>a. gc_authority sample_codecs (enc_authority a) = Some a"
    by (simp add: sample_codecs_def dec_enc_authority)
  have "\<exists>node cp. coordinator_start sample_codecs sample_disk (\<lambda>_. True) Inr sample_settings = Inr node
      \<and> cn_control node = Some cp \<and> cp_plan cp = plan \<and> cp_log cp = DurableLog sample_store \<and> cn_transport node
      \<and> same_authority (cn_registry node) (sm_app sample_machine) \<and> True"
    using coordinator_restart_recovers [where addr_ok = "\<lambda>_. True" and disk = sample_disk and encS = "\<lambda>_. [9]",
        OF plan var TrueI sample_fresh au lg _ sm(1) _ sm(2,3) _ auth]
    by (fastforce simp: sample_store_def sample_codecs_def sample_disk_def read_vote_def sm(4))
  then show ?thesis by (auto simp: same_authority_def sample_machine_def sm_new_def)
qed

end
