(* ===== verification/Memory.thy ===== *)
theory Memory
  imports Text_Tokens
begin

text \<open>
  Agent memory (\<open>crates/memory/src/lib.rs\<close>): a namespaced store whose entries carry a writer
  and a time to live, with a quota per writer and namespace. Times are 64-bit words and
  wrap as they do in a release build. \<open>ord\<close> is the order in which the namespaces are swept.
\<close>

section \<open>The store\<close>

record memory_entry =
  me_id :: u64
  me_namespace :: string
  me_text :: string
  me_writer :: string
  created_ms :: u64
  ttl_secs :: u64

definition expired_at :: "memory_entry \<Rightarrow> u64 \<Rightarrow> bool" where
  "expired_at e now \<longleftrightarrow> ttl_secs e \<noteq> 0 \<and> now \<ge> created_ms e + ttl_secs e * 1000"

datatype write_error = QuotaExceeded string nat | Malformed string

record memory_store =
  by_ns :: "(string, memory_entry list) hashmap"
  next_id :: u64
  quota_per_writer :: nat

definition memory_new :: "nat \<Rightarrow> memory_store" where
  "memory_new quota = \<lparr>by_ns = [], next_id = 0, quota_per_writer = quota\<rparr>"

definition sweep_namespace :: "memory_store \<Rightarrow> string \<Rightarrow> u64 \<Rightarrow> memory_store \<times> nat" where
  "sweep_namespace ms ns now =
     (case hm_get (by_ns ms) ns of
        Some es \<Rightarrow>
          (let kept = filter (\<lambda>e. \<not> expired_at e now) es
           in (ms\<lparr>by_ns := hm_insert ns kept (by_ns ms)\<rparr>, length es - length kept))
      | None \<Rightarrow> (ms, 0))"

definition held_by :: "memory_store \<Rightarrow> string \<Rightarrow> string \<Rightarrow> nat" where
  "held_by ms ns writer =
     (case hm_get (by_ns ms) ns of Some es \<Rightarrow> length (filter (\<lambda>e. me_writer e = writer) es) | None \<Rightarrow> 0)"

definition remember ::
  "memory_store \<Rightarrow> string \<Rightarrow> string \<Rightarrow> string \<Rightarrow> u64 \<Rightarrow> u64 \<Rightarrow> memory_store \<times> (write_error + u64)" where
  "remember ms ns txt writer ttl now =
     (if trim ns = [] then (ms, Inl (Malformed ''namespace is required''))
      else if trim txt = [] then (ms, Inl (Malformed ''text is required''))
      else if trim writer = [] then (ms, Inl (Malformed ''writer attribution is required''))
      else
        (let ms1 = fst (sweep_namespace ms ns now)
         in if held_by ms1 ns writer \<ge> quota_per_writer ms1 then (ms1, Inl (QuotaExceeded writer (quota_per_writer ms1)))
            else
              (let e = \<lparr>me_id = next_id ms1, me_namespace = ns, me_text = txt, me_writer = writer, created_ms = now, ttl_secs = ttl\<rparr>
               in (ms1\<lparr>next_id := next_id ms1 + 1, by_ns := hm_insert ns (the_list (hm_get (by_ns ms1) ns) @ [e]) (by_ns ms1)\<rparr>,
                   Inr (next_id ms1)))))"

definition term_overlap :: "string list \<Rightarrow> memory_entry \<Rightarrow> nat" where
  "term_overlap terms e = length (filter (\<lambda>t. t \<in> set (tokenize (me_text e))) terms)"

definition cmp_recalled :: "nat \<times> memory_entry \<Rightarrow> nat \<times> memory_entry \<Rightarrow> ordering" where
  "cmp_recalled a b = ord_then (cmp_lin (fst b) (fst a)) (cmp_lin (created_ms (snd b)) (created_ms (snd a)))"

definition recall :: "memory_store \<Rightarrow> string \<Rightarrow> string \<Rightarrow> nat \<Rightarrow> u64 \<Rightarrow> memory_entry list" where
  "recall ms ns query limit now =
     (let terms = tokenize query;
          live_entries = filter (\<lambda>e. \<not> expired_at e now) (the_list (hm_get (by_ns ms) ns));
          hits = map (\<lambda>e. (term_overlap terms e, e)) (filter (\<lambda>e. terms = [] \<or> term_overlap terms e > 0) live_entries)
      in truncate_limit limit (map snd (sort_by cmp_recalled hits)))"

definition sweep_step :: "u64 \<Rightarrow> memory_store \<times> nat \<Rightarrow> string \<Rightarrow> memory_store \<times> nat" where
  "sweep_step now acc ns = (let (ms, n) = sweep_namespace (fst acc) ns now in (ms, snd acc + n))"

definition sweep :: "(string list \<Rightarrow> string list) \<Rightarrow> memory_store \<Rightarrow> u64 \<Rightarrow> memory_store \<times> nat" where
  "sweep ord ms now = foldl (sweep_step now) (ms, 0) (ord (hm_keys (by_ns ms)))"

definition memory_len :: "memory_store \<Rightarrow> string \<Rightarrow> u64 \<Rightarrow> nat" where
  "memory_len ms ns now =
     (case hm_get (by_ns ms) ns of Some es \<Rightarrow> length (filter (\<lambda>e. \<not> expired_at e now) es) | None \<Rightarrow> 0)"

section \<open>Governance\<close>

datatype memory_op = Remember string string string u64 u64 | Sweep u64

fun memory_step :: "(string list \<Rightarrow> string list) \<Rightarrow> memory_store \<Rightarrow> memory_op \<Rightarrow> memory_store" where
  "memory_step ord ms (Remember ns txt writer ttl now) = fst (remember ms ns txt writer ttl now)"
| "memory_step ord ms (Sweep now) = fst (sweep ord ms now)"

abbreviation memory_run :: "(string list \<Rightarrow> string list) \<Rightarrow> nat \<Rightarrow> memory_op list \<Rightarrow> memory_store" where
  "memory_run ord quota ops \<equiv> foldl (memory_step ord) (memory_new quota) ops"

abbreviation entries :: "memory_store \<Rightarrow> string \<Rightarrow> memory_entry list" where
  "entries ms ns \<equiv> the_list (hm_get (by_ns ms) ns)"

definition memory_inv :: "nat \<Rightarrow> memory_store \<Rightarrow> bool" where
  "memory_inv quota ms \<longleftrightarrow> quota_per_writer ms = quota
     \<and> (\<forall>ns. \<forall>e \<in> set (entries ms ns). me_namespace e = ns \<and> trim ns \<noteq> [] \<and> trim (me_text e) \<noteq> [] \<and> trim (me_writer e) \<noteq> [])
     \<and> (\<forall>ns w. length (filter (\<lambda>e. me_writer e = w) (entries ms ns)) \<le> quota)"

lemma held_by_entries: "held_by ms ns w = length (filter (\<lambda>e. me_writer e = w) (entries ms ns))"
  by (simp add: held_by_def split: option.split)

lemma sweep_namespace_entries:
  "entries (fst (sweep_namespace ms ns now)) ns' =
    (if ns' = ns then filter (\<lambda>e. \<not> expired_at e now) (entries ms ns) else entries ms ns')"
  "quota_per_writer (fst (sweep_namespace ms ns now)) = quota_per_writer ms"
  "next_id (fst (sweep_namespace ms ns now)) = next_id ms"
  by (auto simp: sweep_namespace_def Let_def hashmap_simps split: option.split)

lemma filtered_inv:
  assumes "memory_inv quota ms" and "quota_per_writer ms' = quota_per_writer ms"
    and "\<And>ns. \<exists>P. entries ms' ns = filter P (entries ms ns)"
  shows "memory_inv quota ms'"
proof -
  have "length (filter (\<lambda>e. me_writer e = w) (entries ms' ns)) \<le> quota" for ns w
  proof -
    obtain P where P: "entries ms' ns = filter P (entries ms ns)" using assms(3) by blast
    have "filter (\<lambda>e. me_writer e = w) (filter P (entries ms ns)) = filter P (filter (\<lambda>e. me_writer e = w) (entries ms ns))"
      by (simp add: conj_commute)
    then have "length (filter (\<lambda>e. me_writer e = w) (entries ms' ns)) \<le> length (filter (\<lambda>e. me_writer e = w) (entries ms ns))"
      unfolding P by (metis length_filter_le)
    also have "\<dots> \<le> quota" using assms(1) by (simp add: memory_inv_def)
    finally show ?thesis .
  qed
  moreover have "set (entries ms' ns) \<subseteq> set (entries ms ns)" for ns using assms(3) [of ns] by auto
  ultimately show ?thesis using assms(1,2) unfolding memory_inv_def by blast
qed

lemma sweep_namespace_inv: "memory_inv quota ms \<Longrightarrow> memory_inv quota (fst (sweep_namespace ms ns now))"
  by (rule filtered_inv) (auto simp: sweep_namespace_entries intro: exI [of _ "\<lambda>_. True"])

text \<open>A write, by its outcome.\<close>

definition well_formed :: "string \<Rightarrow> string \<Rightarrow> string \<Rightarrow> bool" where
  "well_formed ns txt writer \<longleftrightarrow> trim ns \<noteq> [] \<and> trim txt \<noteq> [] \<and> trim writer \<noteq> []"

definition live_by :: "memory_store \<Rightarrow> string \<Rightarrow> string \<Rightarrow> u64 \<Rightarrow> nat" where
  "live_by ms ns w now = length (filter (\<lambda>e. me_writer e = w \<and> \<not> expired_at e now) (entries ms ns))"

lemma live_by_swept: "held_by (fst (sweep_namespace ms ns now)) ns w = live_by ms ns w now"
  by (simp add: held_by_entries sweep_namespace_entries live_by_def conj_commute)

lemma remember_entries:
  "entries (fst (remember ms ns txt writer ttl now)) ns' =
    (if ns' \<noteq> ns \<or> \<not> well_formed ns txt writer then entries ms ns'
     else filter (\<lambda>e. \<not> expired_at e now) (entries ms ns) @
       (if live_by ms ns writer now < quota_per_writer ms
        then [\<lparr>me_id = next_id ms, me_namespace = ns, me_text = txt, me_writer = writer, created_ms = now, ttl_secs = ttl\<rparr>] else []))"
  using sweep_namespace_entries [of ms ns now]
  by (auto simp: remember_def Let_def well_formed_def live_by_swept hashmap_simps)

lemma remember_result:
  "snd (remember ms ns txt writer ttl now) = Inr n \<longleftrightarrow>
    well_formed ns txt writer \<and> live_by ms ns writer now < quota_per_writer ms \<and> n = next_id ms"
  using sweep_namespace_entries [of ms ns now]
  by (auto simp: remember_def Let_def well_formed_def live_by_swept)

lemma remember_quota: "quota_per_writer (fst (remember ms ns txt writer ttl now)) = quota_per_writer ms"
  using sweep_namespace_entries [of ms ns now] by (simp add: remember_def Let_def)

lemma remember_inv:
  assumes "memory_inv quota ms" shows "memory_inv quota (fst (remember ms ns txt writer ttl now))"
proof -
  let ?ms = "fst (remember ms ns txt writer ttl now)"
  have q: "quota_per_writer ms = quota" using assms by (simp add: memory_inv_def)
  note swept = sweep_namespace_inv [OF assms, of ns now]
  have "length (filter (\<lambda>e. me_writer e = w) (entries ?ms ns')) \<le> quota" for ns' w
  proof -
    have "length (filter (\<lambda>e. me_writer e = w) (filter (\<lambda>e. \<not> expired_at e now) (entries ms ns))) \<le> quota"
      using swept sweep_namespace_entries(1) [of ms ns now ns] unfolding memory_inv_def by (metis (full_types))
    moreover have "length (filter (\<lambda>e. me_writer e = w) (entries ms ns')) \<le> quota" using assms by (simp add: memory_inv_def)
    ultimately show ?thesis
      unfolding remember_entries using q by (auto simp: live_by_def conj_commute)
  qed
  moreover have "me_namespace e = ns' \<and> trim ns' \<noteq> [] \<and> trim (me_text e) \<noteq> [] \<and> trim (me_writer e) \<noteq> []"
    if "e \<in> set (entries ?ms ns')" for e ns'
    using that assms unfolding remember_entries memory_inv_def by (auto simp: well_formed_def split: if_splits)
  ultimately show ?thesis using q by (simp add: memory_inv_def remember_quota)
qed

lemma sweep_inv: "memory_inv quota ms \<Longrightarrow> memory_inv quota (fst (sweep ord ms now))"
proof -
  have "fst (sweep_step now acc ns) = fst (sweep_namespace (fst acc) ns now)" for acc ns
    by (simp add: sweep_step_def split: prod.split)
  then have "memory_inv quota (fst acc) \<Longrightarrow> memory_inv quota (fst (foldl (sweep_step now) acc nss))" for acc nss
    by (induction nss arbitrary: acc) (simp_all add: sweep_namespace_inv)
  then show "memory_inv quota ms \<Longrightarrow> memory_inv quota (fst (sweep ord ms now))" by (simp add: sweep_def)
qed

lemma memory_run_inv: "memory_inv quota (memory_run ord quota ops)"
proof (induction ops rule: rev_induct)
  case Nil
  show ?case by (simp add: memory_inv_def memory_new_def)
next
  case (snoc p ops)
  then show ?case by (cases p) (simp_all add: remember_inv sweep_inv)
qed

section \<open>Recall\<close>

lemma set_recall:
  "set (recall ms ns query 0 now) = {e \<in> set (entries ms ns). \<not> expired_at e now
    \<and> (tokenize query = [] \<or> set (tokenize query) \<inter> set (tokenize (me_text e)) \<noteq> {})}"
proof -
  have "0 < term_overlap ts e \<longleftrightarrow> set ts \<inter> set (tokenize (me_text e)) \<noteq> {}" for ts e
    by (auto simp: term_overlap_def filter_empty_conv)
  then show ?thesis by (auto simp: recall_def Let_def image_iff)
qed

interpretation recalled: comparator cmp_recalled UNIV
  by unfold_locales (auto simp: cmp_recalled_def cmp_lin_flip ord_then_not_Greater not_less)

lemma recall_prefix: "recall ms ns query limit now = truncate_limit limit (recall ms ns query 0 now)"
  by (simp add: recall_def Let_def)

lemma sorted_tagged: "map f ys = xs \<Longrightarrow> cmp_sorted c xs \<Longrightarrow> sorted_wrt (\<lambda>a b. c (f a) (f b) \<noteq> Greater) ys"
  by (auto simp: sorted_wrt_map)

lemma recall_sorted:
  "sorted_wrt (\<lambda>a b. cmp_recalled (term_overlap (tokenize query) a, a) (term_overlap (tokenize query) b, b) \<noteq> Greater)
    (recall ms ns query 0 now)"
proof -
  let ?f = "\<lambda>e. (term_overlap (tokenize query) e, e)"
  let ?hits = "map ?f (filter (\<lambda>e. tokenize query = [] \<or> term_overlap (tokenize query) e > 0)
      (filter (\<lambda>e. \<not> expired_at e now) (entries ms ns)))"
  have "?f (snd h) = h" if "h \<in> set (sort_by cmp_recalled ?hits)" for h using that by auto
  then have tagged: "map ?f (map snd (sort_by cmp_recalled ?hits)) = sort_by cmp_recalled ?hits"
    unfolding map_map comp_def by (rule map_idI)
  have "cmp_sorted cmp_recalled (sort_by cmp_recalled ?hits)" by (rule recalled.sort_sorted) simp
  then have "sorted_wrt (\<lambda>a b. cmp_recalled (?f a) (?f b) \<noteq> Greater) (map snd (sort_by cmp_recalled ?hits))"
    by (rule sorted_tagged [OF tagged])
  then show ?thesis by (simp add: recall_def Let_def)
qed



text \<open>A time to live so long that its milliseconds overflow makes an entry expire almost at once.\<close>

lemma ttl_overflow_expires:
  "expired_at \<lparr>me_id = 0, me_namespace = ''n'', me_text = ''t'', me_writer = ''w'', created_ms = 0, ttl_secs = 18446744073709552\<rparr> 384"
  by (simp add: expired_at_def)

end
