(* ===== verification/Supervisor.thy ===== *)
theory Supervisor
  imports Startup
begin

text \<open>
  The dashboard's process supervisor (\<open>crates/dashboard/src/supervisor.rs\<close>). Launching a
  process is the argument \<open>launch\<close>, which may fail. Beside the fields of the source the state
  has \<open>running\<close>: the processes launched and not killed, whether the supervisor still has a
  handle of them or not (a handle that is overwritten is dropped and its process runs on).
\<close>

type_synonym u16 = "16 word"

record child =
  child_program :: string
  child_port :: "u16 option"
  child_vars :: "(string \<times> string) list"

record supervisor =
  children :: "(string, child) hashmap"
  next_port :: u16
  follower_seq :: u32
  sup_shard_count :: u32
  sup_raft :: bool
  coordinator_addr :: string
  running :: "child list"

definition supervisor_new :: "u32 \<Rightarrow> string \<Rightarrow> bool \<Rightarrow> supervisor" where
  "supervisor_new n addr raft =
     \<lparr>children = [], next_port = 50051, follower_seq = 1, sup_shard_count = n, sup_raft = raft, coordinator_addr = addr,
      running = []\<rparr>"

definition launch_child :: "(child \<Rightarrow> string + unit) \<Rightarrow> supervisor \<Rightarrow> string \<Rightarrow> child \<Rightarrow> supervisor \<times> (string + unit)" where
  "launch_child launch sv nid c =
     (case launch c of
        Inl e \<Rightarrow> (sv, Inl e)
      | Inr _ \<Rightarrow> (sv\<lparr>children := hm_insert nid c (children sv), running := c # running sv\<rparr>, Inr ()))"

definition spawn_coordinator :: "(child \<Rightarrow> string + unit) \<Rightarrow> supervisor \<Rightarrow> supervisor \<times> (string + unit)" where
  "spawn_coordinator launch sv =
     launch_child launch sv ''coordinator''
       \<lparr>child_program = ''coordinator'', child_port = None,
        child_vars = [(''AETHER_COORDINATOR_ADDR'', coordinator_addr sv), (''AETHER_SHARD_COUNT'', show_u32 (sup_shard_count sv)),
          (''AETHER_LIVENESS_TIMEOUT_SECS'', ''6'')]\<rparr>"

definition passed_through :: "string list" where
  "passed_through =
     [''AETHER_SOURCE'', ''AETHER_HTTP_URL'', ''AETHER_HTTP_RECORDS_PATH'', ''AETHER_HTTP_ID_FIELD'', ''AETHER_HTTP_ID_PREFIX'',
      ''AETHER_S3_INGEST_BUCKET'', ''AETHER_S3_INGEST_PREFIX'', ''AETHER_S3_ENDPOINT'', ''AWS_ACCESS_KEY_ID'',
      ''AWS_SECRET_ACCESS_KEY'', ''AWS_REGION'']"

definition shard_node_vars ::
  "(string \<Rightarrow> string option) \<Rightarrow> supervisor \<Rightarrow> u16 \<Rightarrow> string \<Rightarrow> u32 \<Rightarrow> string \<Rightarrow> bool \<Rightarrow> (string \<times> string) list" where
  "shard_node_vars var sv port nid shard role1 joining =
     [(''AETHER_SHARD_ADDR'', ''127.0.0.1:'' @ show_nat (unat port)), (''AETHER_SHARD_INDEX'', show_u32 shard),
      (''AETHER_SHARD_COUNT'', show_u32 (sup_shard_count sv)), (''AETHER_ROLE'', role1),
      (''AETHER_COORDINATOR_ADDR'', coordinator_addr sv), (''AETHER_NODE_ID'', nid), (''AETHER_HEARTBEAT_SECS'', ''2''),
      (''AETHER_POLL_SECS'', case var ''AETHER_POLL_SECS'' of Some s \<Rightarrow> s | None \<Rightarrow> ''10'')]
     @ List.map_filter (\<lambda>k. map_option (\<lambda>v. (k, v)) (var k)) passed_through
     @ (if sup_raft sv then
          [(''AETHER_CONSENSUS'', ''raft''), (''AETHER_GROUP_SIZE'', ''3'')] @ (if joining then [(''AETHER_RAFT_JOIN'', ''1'')] else [])
        else [])"

definition spawn_shard_node ::
  "(string \<Rightarrow> string option) \<Rightarrow> (child \<Rightarrow> string + unit) \<Rightarrow> supervisor \<Rightarrow> string \<Rightarrow> u32 \<Rightarrow> string \<Rightarrow> bool \<Rightarrow> supervisor \<times> (string + unit)" where
  "spawn_shard_node var launch sv nid shard role1 joining =
     launch_child launch (sv\<lparr>next_port := next_port sv + 1\<rparr>) nid
       \<lparr>child_program = ''shard-node'', child_port = Some (next_port sv),
        child_vars = shard_node_vars var sv (next_port sv) nid shard role1 joining\<rparr>"

text \<open>The nodes of a shard in the initial topology, with their roles.\<close>

definition node_name :: "u32 \<Rightarrow> string \<Rightarrow> string" where
  "node_name shard suffix1 = ''shard'' @ show_u32 shard @ ''-'' @ suffix1"

definition shard_nodes :: "bool \<Rightarrow> u32 \<Rightarrow> (string \<times> u32 \<times> string) list" where
  "shard_nodes raft shard =
     (if raft then map (\<lambda>m. (node_name shard (''m'' @ show_nat m), shard, ''follower'')) [0..<3]
      else [(node_name shard ''leader'', shard, ''leader''), (node_name shard ''f0'', shard, ''follower'')])"

fun spawn_each ::
  "(string \<Rightarrow> string option) \<Rightarrow> (child \<Rightarrow> string + unit) \<Rightarrow> supervisor \<Rightarrow> (string \<times> u32 \<times> string) list \<Rightarrow> supervisor \<times> (string + string list)" where
  "spawn_each var launch sv [] = (sv, Inr [])"
| "spawn_each var launch sv ((nid, shard, role1) # ns) =
     (case spawn_shard_node var launch sv nid shard role1 False of
        (sup1, Inl e) \<Rightarrow> (sup1, Inl e)
      | (sup1, Inr _) \<Rightarrow>
          (case spawn_each var launch sup1 ns of (sup2, r) \<Rightarrow> (sup2, map_sum (\<lambda>e. e) (\<lambda>ids. nid # ids) r)))"

definition topology :: "supervisor \<Rightarrow> (string \<times> u32 \<times> string) list" where
  "topology sv = concat (map (\<lambda>s. shard_nodes (sup_raft sv) (word_of_nat s)) [0..<unat (sup_shard_count sv)])"

definition spawn_initial_topology ::
  "(string \<Rightarrow> string option) \<Rightarrow> (child \<Rightarrow> string + unit) \<Rightarrow> supervisor \<Rightarrow> supervisor \<times> (string + string list)" where
  "spawn_initial_topology var launch sv = spawn_each var launch sv (topology sv)"

definition add_follower ::
  "(string \<Rightarrow> string option) \<Rightarrow> (child \<Rightarrow> string + unit) \<Rightarrow> supervisor \<Rightarrow> u32 \<Rightarrow> supervisor \<times> (string + string)" where
  "add_follower var launch sv shard =
     (let nid = node_name shard (''f'' @ show_u32 (follower_seq sv))
      in case spawn_shard_node var launch (sv\<lparr>follower_seq := follower_seq sv + 1\<rparr>) nid shard ''follower'' (sup_raft sv) of
           (sup1, r) \<Rightarrow> (sup1, map_sum (\<lambda>e. e) (\<lambda>_. nid) r))"

definition kill :: "supervisor \<Rightarrow> string \<Rightarrow> supervisor \<times> bool" where
  "kill sv nid =
     (case hm_get (children sv) nid of
        Some c \<Rightarrow> (sv\<lparr>children := hm_remove nid (children sv), running := remove1 c (running sv)\<rparr>, True)
      | None \<Rightarrow> (sv, False))"

definition managed :: "(string list \<Rightarrow> string list) \<Rightarrow> supervisor \<Rightarrow> string list" where
  "managed ord sv = ord (hm_keys (children sv))"

definition kill_all :: "supervisor \<Rightarrow> supervisor" where
  "kill_all sv = sv\<lparr>children := [], running := foldl (\<lambda>ps c. remove1 c ps) (running sv) (hm_values (children sv))\<rparr>"

text \<open>The start of the local mode: the coordinator, then the topology; an error drops the
  supervisor, which kills everything.\<close>

definition supervisor_boot ::
  "(string \<Rightarrow> string option) \<Rightarrow> (child \<Rightarrow> string + unit) \<Rightarrow> u32 \<Rightarrow> string \<Rightarrow> bool \<Rightarrow> supervisor \<times> (string + string list)" where
  "supervisor_boot var launch n addr raft =
     (case spawn_coordinator launch (supervisor_new n addr raft) of
        (sup1, Inl e) \<Rightarrow> (kill_all sup1, Inl e)
      | (sup1, Inr _) \<Rightarrow>
          (case spawn_initial_topology var launch sup1 of
             (sup2, Inl e) \<Rightarrow> (kill_all sup2, Inl e)
           | (sup2, Inr ids) \<Rightarrow> (sup2, Inr ids)))"

section \<open>Names\<close>

lemma show_nat_dash: "show_nat a @ CHR ''-'' # u = show_nat b @ CHR ''-'' # v \<longleftrightarrow> a = b \<and> u = v"
proof
  assume eq: "show_nat a @ CHR ''-'' # u = show_nat b @ CHR ''-'' # v"
  have tw: "takeWhile is_digit (show_nat n @ CHR ''-'' # w) = show_nat n" for n w
    using show_nat_digits [of n] by (subst takeWhile_append2) (auto simp: list_all_iff is_digit_def)
  have "show_nat a = show_nat b" using arg_cong [OF eq, of "takeWhile is_digit"] by (simp only: tw)
  with eq show "a = b \<and> u = v" by (simp add: show_nat_inj)
qed simp

lemma node_name_eq: "node_name s x = node_name t y \<longleftrightarrow> s = t \<and> x = y"
  by (simp add: node_name_def show_u32_def show_nat_dash word_unat_eq_iff)

lemma node_name_coordinator: "node_name s x \<noteq> ''coordinator''"
  by (simp add: node_name_def)

definition used_suffixes :: "u32 \<Rightarrow> string set" where
  "used_suffixes q = insert ''leader'' (range (\<lambda>m. ''m'' @ show_nat m)) \<union> (\<lambda>i. ''f'' @ show_nat i) ` {..<unat q}"

definition known_names :: "u32 \<Rightarrow> string set" where
  "known_names q = insert ''coordinator'' (\<Union>s. node_name s ` used_suffixes q)"

definition names_ok :: "supervisor \<Rightarrow> bool" where
  "names_ok sv \<longleftrightarrow> fst ` set (children sv) \<subseteq> known_names (follower_seq sv) \<and> 0 < unat (follower_seq sv)"

lemma follower_suffix_fresh: "''f'' @ show_u32 q \<notin> used_suffixes q"
  by (auto simp: used_suffixes_def show_u32_def show_nat_inj)

lemma follower_name_fresh: "node_name s (''f'' @ show_u32 q) \<notin> known_names q"
  using follower_suffix_fresh [of q] node_name_coordinator [of s "''f'' @ show_u32 q"]
  by (auto simp del: append.simps simp: known_names_def node_name_eq)

lemma distinct_concat_map:
  "distinct ss \<Longrightarrow> (\<And>s. s \<in> set ss \<Longrightarrow> distinct (g s)) \<Longrightarrow>
    (\<And>s t k. s \<in> set ss \<Longrightarrow> t \<in> set ss \<Longrightarrow> k \<in> set (g s) \<Longrightarrow> k \<in> set (g t) \<Longrightarrow> s = t) \<Longrightarrow> distinct (concat (map g ss))"
proof (induction ss)
  case (Cons s ss)
  then have "distinct (concat (map g ss))" by (meson distinct.simps(2) list.set_intros(2))
  moreover have "k \<notin> set (g t)" if "k \<in> set (g s)" "t \<in> set ss" for k t
    using Cons.prems(1) Cons.prems(3) [of s t k] that by auto
  ultimately show ?case using Cons.prems(2) by auto
qed simp

definition initial_suffix :: "string \<Rightarrow> bool" where
  "initial_suffix x \<longleftrightarrow> x = ''leader'' \<or> x = ''f0'' \<or> (\<exists>m. x = ''m'' @ show_nat m)"

lemma topology_names:
  "distinct (map fst (topology sv))"
  "\<forall>n \<in> set (topology sv). \<exists>s x. fst n = node_name s x \<and> initial_suffix x"
proof -
  define g where "g s = map fst (shard_nodes (sup_raft sv) (word_of_nat s))" for s
  have each: "distinct (g s)" for s
    by (auto simp: g_def shard_nodes_def node_name_eq distinct_map inj_on_def show_nat_inj)
  have names: "k \<in> set (g s) \<Longrightarrow> \<exists>x. k = node_name (word_of_nat s) x" for k s
    by (auto simp: g_def shard_nodes_def split: if_splits)
  have "s = t" if "s < 2 ^ 32" "t < 2 ^ 32" "k \<in> set (g s)" "k \<in> set (g t)" for s t k
  proof -
    have "word_of_nat s = (word_of_nat t :: u32)" using names [OF that(3)] names [OF that(4)] by (metis node_name_eq)
    then show ?thesis using that(1,2) by (simp add: word_unat_eq_iff unat_of_nat)
  qed
  moreover have "unat (sup_shard_count sv) < 2 ^ 32" using unsigned_less [of "sup_shard_count sv"] by simp
  ultimately have "distinct (concat (map g [0..<unat (sup_shard_count sv)]))"
    using each by (intro distinct_concat_map) auto
  moreover have "map fst (topology sv) = concat (map g [0..<unat (sup_shard_count sv)])"
    by (simp add: topology_def map_concat comp_def g_def [abs_def])
  ultimately show "distinct (map fst (topology sv))" by simp
  show "\<forall>n \<in> set (topology sv). \<exists>s x. fst n = node_name s x \<and> initial_suffix x"
    by (auto simp: topology_def shard_nodes_def initial_suffix_def split: if_splits)
qed

section \<open>No process is lost\<close>

definition handles_ok :: "nat \<Rightarrow> supervisor \<Rightarrow> bool" where
  "handles_ok k sv \<longleftrightarrow>
     hm_wf (children sv) \<and> mset (running sv) = mset (hm_values (children sv))
     \<and> next_port sv = 50051 + word_of_nat k
     \<and> distinct (List.map_filter child_port (hm_values (children sv)))
     \<and> set (List.map_filter child_port (hm_values (children sv))) \<subseteq> (\<lambda>j. 50051 + word_of_nat j) ` {..<k}"

lemma port_eq: "j < 2 ^ 16 \<Longrightarrow> k < 2 ^ 16 \<Longrightarrow> (50051 + word_of_nat j :: u16) = 50051 + word_of_nat k \<longleftrightarrow> j = k"
proof -
  assume "j < 2 ^ 16" "k < 2 ^ 16"
  then have "(word_of_nat j :: u16) = word_of_nat k \<longleftrightarrow> j = k" by (simp add: word_unat_eq_iff unat_of_nat)
  then show ?thesis by (simp only: add_left_cancel)
qed

lemma handles_spawn:
  assumes "handles_ok k sv" "nid \<notin> fst ` set (children sv)" "k < 2 ^ 16"
  shows "handles_ok (Suc k) (fst (spawn_shard_node var launch sv nid shard role1 joining))"
proof -
  let ?ports = "\<lambda>sv. List.map_filter child_port (hm_values (children sv))" and ?port = "\<lambda>j. 50051 + word_of_nat j :: u16"
  have np: "next_port sv = ?port k" and sub: "set (?ports sv) \<subseteq> ?port ` {..<k}" using assms(1) by (simp_all add: handles_ok_def)
  have new: "?port k \<notin> set (?ports sv)"
  proof
    assume "?port k \<in> set (?ports sv)"
    then obtain j where "j < k" "?port k = ?port j" using sub by blast
    then show False using port_eq [of k j] assms(3) by simp
  qed
  let ?c = "\<lparr>child_program = ''shard-node'', child_port = Some (next_port sv),
      child_vars = shard_node_vars var sv (next_port sv) nid shard role1 joining\<rparr>"
  have suc: "?port (Suc k) = ?port k + 1" by simp
  have grow: "?port ` {..<Suc k} = insert (?port k) (?port ` {..<k})" by (simp add: lessThan_Suc)
  show ?thesis
  proof (cases "launch ?c")
    case (Inl e)
    then show ?thesis using assms(1) sub np
      unfolding handles_ok_def grow suc by (auto simp: spawn_shard_node_def launch_child_def)
  next
    case (Inr u)
    have kids: "children (fst (spawn_shard_node var launch sv nid shard role1 joining)) = children sv @ [(nid, ?c)]"
      "running (fst (spawn_shard_node var launch sv nid shard role1 joining)) = ?c # running sv"
      "next_port (fst (spawn_shard_node var launch sv nid shard role1 joining)) = ?port k + 1"
      using Inr assms(2) np by (simp_all add: spawn_shard_node_def launch_child_def hm_insert_fresh)
    have ports: "?ports (fst (spawn_shard_node var launch sv nid shard role1 joining)) = ?ports sv @ [?port k]"
      by (simp add: kids List.map_filter_def np)
    show ?thesis using assms(1,2) new sub unfolding handles_ok_def ports grow suc by (auto simp: kids)
  qed
qed

lemma spawn_children:
  "fst ` set (children (fst (spawn_shard_node var launch sv nid shard role1 joining))) \<subseteq> insert nid (fst ` set (children sv))
    \<and> follower_seq (fst (spawn_shard_node var launch sv nid shard role1 joining)) = follower_seq sv"
  by (auto simp: spawn_shard_node_def launch_child_def hm_keys_insert split: sum.split)

lemma handles_mono:
  assumes "handles_ok k sv" shows "handles_ok k (sv\<lparr>follower_seq := q\<rparr>)"
  using assms by (simp add: handles_ok_def)

lemma spawn_each_ok:
  assumes "handles_ok k sv" "distinct (map fst ns)" "fst ` set (children sv) \<inter> fst ` set ns = {}" "k + length ns \<le> 2 ^ 16"
  shows "\<exists>k' \<le> k + length ns. handles_ok k' (fst (spawn_each var launch sv ns))
    \<and> fst ` set (children (fst (spawn_each var launch sv ns))) \<subseteq> fst ` set (children sv) \<union> fst ` set ns
    \<and> follower_seq (fst (spawn_each var launch sv ns)) = follower_seq sv"
  using assms
proof (induction var launch sv ns arbitrary: k rule: spawn_each.induct)
  case (1 var launch sv)
  then show ?case by auto
next
  case (2 var launch sv nid shard role1 ns)
  obtain sv1 r where sp: "spawn_shard_node var launch sv nid shard role1 False = (sv1, r)" by fastforce
  have h1: "handles_ok (Suc k) sv1"
    using handles_spawn [OF "2.prems"(1), of nid var launch shard role1 False] "2.prems" sp by auto
  have kids: "fst ` set (children sv1) \<subseteq> insert nid (fst ` set (children sv))" "follower_seq sv1 = follower_seq sv"
    using spawn_children [of var launch sv nid shard role1 False] sp by simp_all
  show ?case
  proof (cases r)
    case (Inl e)
    then show ?thesis using sp h1 kids by (auto intro!: exI [of _ "Suc k"])
  next
    case (Inr u)
    have "nid \<notin> fst ` set ns" "fst ` set (children sv) \<inter> fst ` set ns = {}" using "2.prems"(2,3) by simp_all
    then have "fst ` set (children sv1) \<inter> fst ` set ns = {}" using kids(1) by blast
    with "2.IH" [OF sp [symmetric] Inr h1] "2.prems"(2,4) obtain k' where
      "k' \<le> Suc k + length ns" "handles_ok k' (fst (spawn_each var launch sv1 ns))"
      "fst ` set (children (fst (spawn_each var launch sv1 ns))) \<subseteq> fst ` set (children sv1) \<union> fst ` set ns"
      "follower_seq (fst (spawn_each var launch sv1 ns)) = follower_seq sv1"
      by auto
    moreover have "fst (spawn_each var launch sv ((nid, shard, role1) # ns)) = fst (spawn_each var launch sv1 ns)"
      using sp Inr by (simp split: prod.split)
    ultimately show ?thesis using kids by (auto intro!: exI [of _ k'])
  qed
qed

lemma hm_remove_split:
  fixes m :: "('a, 'b) hashmap"
  assumes "hm_wf m" "hm_get m k = Some c"
  shows "\<exists>as bs. m = as @ (k, c) # bs \<and> hm_remove k m = as @ bs"
proof -
  obtain as bs where m: "m = as @ (k, c) # bs" using assms(2) by (meson map_of_SomeD split_list)
  then have "k \<notin> fst ` set as" "k \<notin> fst ` set bs" using assms(1) by auto
  moreover have "k \<notin> fst ` set xs \<Longrightarrow> hm_remove k xs = xs" for xs :: "('a \<times> 'b) list"
    by (force simp: AList.delete_eq filter_id_conv)
  ultimately have "hm_remove k m = as @ bs" by (simp add: m AList.delete_eq)
  with m show ?thesis by blast
qed

lemma kill_ok:
  assumes "handles_ok k sv"
  shows "handles_ok k (fst (kill sv nid)) \<and> fst ` set (children (fst (kill sv nid))) \<subseteq> fst ` set (children sv)
    \<and> follower_seq (fst (kill sv nid)) = follower_seq sv"
proof (cases "hm_get (children sv) nid")
  case (Some c)
  have "hm_wf (children sv)" using assms by (simp add: handles_ok_def)
  from hm_remove_split [OF this Some] obtain as bs
    where "children sv = as @ (nid, c) # bs" "hm_remove nid (children sv) = as @ bs" by blast
  then show ?thesis using assms Some
    by (cases "child_port c") (auto simp: handles_ok_def kill_def List.map_filter_def)
qed (use assms in \<open>simp add: kill_def\<close>)

lemma kill_all_none:
  assumes "mset (running sv) = mset (hm_values (children sv))"
  shows "running (kill_all sv) = []"
proof -
  have "mset (foldl (\<lambda>ps c. remove1 c ps) ps cs) = mset ps - mset cs" for ps cs :: "child list"
    by (induction cs arbitrary: ps) auto
  then have "mset (running (kill_all sv)) = {#}" using assms by (simp add: kill_all_def)
  then show ?thesis by simp
qed

lemma kill_all_ok: "handles_ok k sv \<Longrightarrow> handles_ok k (kill_all sv)"
  using kill_all_none [of sv] by (simp add: handles_ok_def kill_all_def List.map_filter_def)

lemma add_follower_ok:
  assumes "handles_ok k sv" "names_ok sv" "k < 2 ^ 16" "unat (follower_seq sv) \<le> Suc k" 
  shows "handles_ok (Suc k) (fst (add_follower var launch sv shard)) \<and> names_ok (fst (add_follower var launch sv shard))
    \<and> unat (follower_seq (fst (add_follower var launch sv shard))) = Suc (unat (follower_seq sv))"
proof -
  let ?q = "follower_seq sv" and ?sv = "sv\<lparr>follower_seq := follower_seq sv + 1\<rparr>"
  let ?nid = "node_name shard (''f'' @ show_u32 (follower_seq sv))"
  have q: "unat (?q + 1) = Suc (unat ?q)" using assms(3,4) by (simp add: unat_word_ariths(1))
  have fresh: "?nid \<notin> fst ` set (children ?sv)"
    using assms(2) follower_name_fresh [of shard ?q] by (auto simp del: append.simps simp: names_ok_def)
  have "used_suffixes (?q + 1) = insert (''f'' @ show_u32 ?q) (used_suffixes ?q)"
    by (auto simp: used_suffixes_def q lessThan_Suc show_u32_def)
  then have grow: "insert ?nid (known_names ?q) \<subseteq> known_names (?q + 1)" unfolding known_names_def by blast
  have sp: "fst (add_follower var launch sv shard) = fst (spawn_shard_node var launch ?sv ?nid shard ''follower'' (sup_raft sv))"
    by (simp add: add_follower_def Let_def split: prod.split)
  have kids: "fst ` set (children (fst (add_follower var launch sv shard))) \<subseteq> insert ?nid (fst ` set (children sv))"
    "follower_seq (fst (add_follower var launch sv shard)) = ?q + 1"
    using spawn_children [of var launch ?sv ?nid shard "''follower''" "sup_raft sv"] unfolding sp by simp_all
  have "fst ` set (children sv) \<subseteq> known_names ?q" using assms(2) by (simp add: names_ok_def)
  then have "names_ok (fst (add_follower var launch sv shard))"
    unfolding names_ok_def kids(2) q using kids(1) grow by (intro conjI) (blast, simp)
  then show ?thesis
    using handles_spawn [OF handles_mono [OF assms(1)] fresh assms(3), of var launch shard "''follower''" "sup_raft sv"] kids(2) q
    by (simp add: sp)
qed

section \<open>Histories\<close>

datatype sup_op = AddFollower u32 | Kill string

fun sup_step :: "(string \<Rightarrow> string option) \<Rightarrow> supervisor \<Rightarrow> (child \<Rightarrow> string + unit) \<times> sup_op \<Rightarrow> supervisor" where
  "sup_step var sv (launch, AddFollower shard) = fst (add_follower var launch sv shard)"
| "sup_step var sv (launch, Kill nid) = fst (kill sv nid)"

definition sup_inv :: "nat \<Rightarrow> supervisor \<Rightarrow> bool" where
  "sup_inv k sv \<longleftrightarrow> handles_ok k sv \<and> names_ok sv \<and> unat (follower_seq sv) \<le> Suc k"

lemma sup_step_inv: "sup_inv k sv \<Longrightarrow> k < 2 ^ 16 \<Longrightarrow> \<exists>k' \<le> Suc k. sup_inv k' (sup_step var sv op)"
proof (induction var sv op rule: sup_step.induct)
  case (1 var sv launch shard)
  then show ?case using add_follower_ok [of k sv var launch shard]
    by (intro exI [of _ "Suc k"]) (simp add: sup_inv_def)
next
  case (2 var sv launch nid)
  have "fst ` set (children (fst (kill sv nid))) \<subseteq> known_names (follower_seq sv)"
    using kill_ok [of k sv nid] 2 by (meson names_ok_def order_trans sup_inv_def)
  then show ?case using 2 kill_ok [of k sv nid]
    by (intro exI [of _ k]) (simp add: sup_inv_def names_ok_def)
qed

lemma sup_run_inv:
  "sup_inv k sv \<Longrightarrow> k + length ops \<le> 2 ^ 16 \<Longrightarrow> \<exists>k'. sup_inv k' (foldl (sup_step var) sv ops)"
proof (induction ops arbitrary: k sv)
  case (Cons op ops)
  from sup_step_inv [OF Cons.prems(1), of var op] Cons.prems(2) obtain k'
    where "k' \<le> Suc k" "sup_inv k' (sup_step var sv op)" by auto
  then show ?case using Cons.IH [of k' "sup_step var sv op"] Cons.prems(2) by simp
qed auto

lemma length_topology: "length (topology sv) \<le> 3 * unat (sup_shard_count sv)"
proof -
  have "length (concat (map f xs)) \<le> 3 * length xs" if "\<And>x. length (f x) \<le> 3" for f :: "nat \<Rightarrow> (string \<times> u32 \<times> string) list" and xs
    using that by (induction xs) (auto simp: add_mono)
  from this [of "\<lambda>s. shard_nodes (sup_raft sv) (word_of_nat s)" "[0..<unat (sup_shard_count sv)]"]
  show ?thesis by (simp add: topology_def shard_nodes_def)
qed

lemma initial_names: "fst ` set (topology sv) \<subseteq> known_names 1 - {''coordinator''}"
proof -
  have "show_nat 0 = ''0''" by code_simp
  then have "initial_suffix x \<Longrightarrow> x \<in> used_suffixes 1" for x by (auto simp: used_suffixes_def initial_suffix_def)
  then have "initial_suffix x \<Longrightarrow> node_name s x \<in> known_names 1 - {''coordinator''}" for s x
    unfolding known_names_def using node_name_coordinator by blast
  then show ?thesis using topology_names(2) [of sv] by fastforce
qed

lemma boot_inv:
  assumes "3 * unat n \<le> 2 ^ 16"
  shows "\<exists>k \<le> 3 * unat n. sup_inv k (fst (supervisor_boot var launch n addr raft))"
    and "snd (supervisor_boot var launch n addr raft) = Inl e \<Longrightarrow> running (fst (supervisor_boot var launch n addr raft)) = []"
proof -
  obtain sv1 r where sp: "spawn_coordinator launch (supervisor_new n addr raft) = (sv1, r)" by fastforce
  have h1: "handles_ok 0 sv1" and f1: "follower_seq sv1 = 1" "sup_shard_count sv1 = n"
    and c1: "fst ` set (children sv1) \<subseteq> {''coordinator''}"
    using sp
    by (auto simp: spawn_coordinator_def launch_child_def supervisor_new_def handles_ok_def List.map_filter_def split: sum.splits)
  obtain sv2 r2 where top: "spawn_initial_topology var launch sv1 = (sv2, r2)" by fastforce
  have len: "length (topology sv1) \<le> 3 * unat n" using length_topology [of sv1] f1 by simp
  note init = initial_names [of sv1]
  then have disj: "fst ` set (children sv1) \<inter> fst ` set (topology sv1) = {}" using c1 by blast
  have "0 + length (topology sv1) \<le> 2 ^ 16" using len assms by simp
  from spawn_each_ok [OF h1 topology_names(1) disj this, of var launch] obtain k
    where k: "k \<le> 3 * unat n" "handles_ok k sv2" "follower_seq sv2 = 1"
      "fst ` set (children sv2) \<subseteq> fst ` set (children sv1) \<union> fst ` set (topology sv1)"
    unfolding top [unfolded spawn_initial_topology_def] fst_conv f1 using len by (metis add_0 le_trans)
  have known: "fst ` set (children sv1) \<subseteq> known_names 1" "fst ` set (children sv2) \<subseteq> known_names 1"
  proof -
    show one: "fst ` set (children sv1) \<subseteq> known_names 1"
      using c1 by (rule order_trans) (simp add: known_names_def)
    have "fst ` set (topology sv1) \<subseteq> known_names 1" using init by (rule order_trans) (rule Diff_subset)
    with one k(4) show "fst ` set (children sv2) \<subseteq> known_names 1" by (meson Un_least order_trans)
  qed
  show "\<exists>k \<le> 3 * unat n. sup_inv k (fst (supervisor_boot var launch n addr raft))"
  proof (cases r)
    case (Inl e)
    then show ?thesis using sp kill_all_ok [OF h1] f1
      by (intro exI [of _ 0]) (simp add: supervisor_boot_def sup_inv_def names_ok_def kill_all_def)
  next
    case (Inr u)
    then show ?thesis using sp top k kill_all_ok [OF k(2)] known
      by (intro exI [of _ k]) (simp add: supervisor_boot_def sup_inv_def names_ok_def kill_all_def split: sum.split)
  qed
  show "running (fst (supervisor_boot var launch n addr raft)) = []"
    if "snd (supervisor_boot var launch n addr raft) = Inl e"
    using that sp top kill_all_none [of sv1] kill_all_none [of sv2] h1 k(2)
    by (auto simp: supervisor_boot_def handles_ok_def split: sum.splits)
qed

text \<open>
  C26: The supervisor loses no process. Whatever launches fail, after a start and any sequence of
  added followers and kills that together launch no more than 65536 processes, the processes
  that run are exactly those the supervisor has a handle of, they listen on different ports, and
  killing all leaves none running; a start that fails leaves none running either.
\<close>

theorem supervisor_no_orphans:
  assumes "3 * unat n + length ops \<le> 2 ^ 16"
  shows "(let sv = foldl (sup_step var) (fst (supervisor_boot var launch n addr raft)) ops in
      mset (running sv) = mset (hm_values (children sv)) \<and> distinct (List.map_filter child_port (running sv))
      \<and> running (kill_all sv) = [])
    \<and> (\<forall>e. snd (supervisor_boot var launch n addr raft) = Inl e \<longrightarrow> running (fst (supervisor_boot var launch n addr raft)) = [])"
proof -
  from boot_inv(1) [of n var launch addr raft] assms obtain k where
    "k \<le> 3 * unat n" "sup_inv k (fst (supervisor_boot var launch n addr raft))" by auto
  with sup_run_inv [of k _ ops var] assms obtain k' where
    inv: "sup_inv k' (foldl (sup_step var) (fst (supervisor_boot var launch n addr raft)) ops)" by fastforce
  let ?sv = "foldl (sup_step var) (fst (supervisor_boot var launch n addr raft)) ops"
  have eq: "mset (running ?sv) = mset (hm_values (children ?sv))"
    and d: "distinct (List.map_filter child_port (hm_values (children ?sv)))"
    using inv by (simp_all add: sup_inv_def handles_ok_def)
  have "mset (List.map_filter child_port (running ?sv)) = mset (List.map_filter child_port (hm_values (children ?sv)))"
    using arg_cong [OF eq, of "\<lambda>M. image_mset (\<lambda>c. the (child_port c)) (filter_mset (\<lambda>c. child_port c \<noteq> None) M)"]
    unfolding List.map_filter_def mset_map mset_filter comp_def by simp
  then have "distinct (List.map_filter child_port (running ?sv))" using d mset_eq_imp_distinct_iff by blast
  then show ?thesis
    using eq kill_all_none [OF eq] boot_inv(2) [of n var launch addr raft] assms by (simp add: Let_def)
qed

theorem supervisor_no_orphans_witness:
  "running (kill_all (foldl (sup_step (\<lambda>_. None)) (fst (supervisor_boot (\<lambda>_. None) (\<lambda>_. Inr ()) 2 ''127.0.0.1:50050'' True))
     [(\<lambda>_. Inr (), AddFollower 1), (\<lambda>_. Inl ''no memory'', AddFollower 0), (\<lambda>_. Inr (), Kill ''shard0-m1'')])) = []"
  using supervisor_no_orphans [of 2 "[(\<lambda>_. Inr (), AddFollower 1), (\<lambda>_. Inl ''no memory'', AddFollower 0), (\<lambda>_. Inr (), Kill ''shard0-m1'')]"
      "\<lambda>_. None" "\<lambda>_. Inr ()" "''127.0.0.1:50050''" True]
  unfolding Let_def by fastforce

end
