(* ===== verification/Agent_Tools.thy ===== *)
theory Agent_Tools
  imports Client Json
begin

text \<open>
  The read-only tools an agent may call (\<open>crates/agent-tools/src/lib.rs\<close>): parsing of the
  arguments, dispatch to the coordinator and rendering of the answers. The coordinator's
  answers, the clock, the printing of floats to a number of decimals and the iteration order
  of the bucket map are the record \<open>tool_env\<close>. The JSON schemas shown to a model are data and
  are not modelled.
\<close>

record tool_env =
  t_connect :: "string + unit"
  t_search :: "search_request \<Rightarrow> string + search_response"
  t_vector :: "vector_search_request \<Rightarrow> string + search_response"
  t_hybrid :: "search_request \<Rightarrow> string + search_response"
  t_cluster :: "string + cluster_state"
  t_aggregate :: "aggregate_request \<Rightarrow> string + (aggregate_partial option \<times> (f64 \<times> f64) list \<times> query_manifest option)"
  t_now :: int
  t_fixed :: "nat \<Rightarrow> f64 \<Rightarrow> string"
  t_show :: "f64 \<Rightarrow> string"
  t_ord :: "(string \<times> u64) list \<Rightarrow> (string \<times> u64) list"

section \<open>Rendering\<close>

definition provenance_line :: "int \<Rightarrow> query_manifest option \<Rightarrow> string" where
  "provenance_line now mf =
     (case mf of Some m \<Rightarrow> newline @ ''provenance: '' @ manifest_summary now m @ newline | None \<Rightarrow> [])"

definition hit_line :: "(nat \<Rightarrow> f64 \<Rightarrow> string) \<Rightarrow> search_hit \<Rightarrow> string" where
  "hit_line fixed hit =
     (let d = (case hit_document hit of Some d \<Rightarrow> d | None \<Rightarrow> default_document);
          via = (case hit_prov hit of Some p \<Rightarrow> source_group p | None \<Rightarrow> ''?'');
          how = (case map_option prov_index (hit_prov hit) of
                   Some IndexKeyword \<Rightarrow> '' keyword''
                 | Some IndexVector \<Rightarrow> '' vector''
                 | _ \<Rightarrow> [])
      in ''- '' @ icao24 d @ '' '' @ callsign d @ '' ('' @ origin d @ '' -> '' @ destination d @ '') '' @ aircraft_type d
         @ '' score='' @ fixed 3 (hit_score hit) @ '' [via '' @ via @ how @ '']'' @ newline)"

definition format_hits :: "tool_env \<Rightarrow> search_response \<Rightarrow> string" where
  "format_hits env resp =
     show_nat (unat (resp_total_matched resp)) @ '' matched across '' @ show_u32 (resp_shards_answered resp) @ ''/''
     @ show_u32 (resp_shards_queried resp) @ '' shards'' @ newline
     @ concat (map (hit_line (t_fixed env)) (resp_hits resp))
     @ provenance_line (t_now env) (resp_manifest resp)"

definition node_line :: "(nat \<Rightarrow> f64 \<Rightarrow> string) \<Rightarrow> node_snapshot \<Rightarrow> string" where
  "node_line fixed n =
     ''- shard '' @ show_u32 (snap_shard_id n) @ middle_dot @ snap_node_id n @ middle_dot @ show_role (snap_role n) @ middle_dot
     @ ''seen '' @ fixed 1 (fdiv binary64 (f64_of_nat (since_seen n)) (f64_of_int 1000)) @ ''s ago''
     @ (if snap_draining n then middle_dot @ ''draining'' else []) @ newline"

definition format_cluster :: "tool_env \<Rightarrow> cluster_state \<Rightarrow> string" where
  "format_cluster env cs =
     show_u32 (cs_shard_count cs) @ '' shard group(s)'' @ newline
     @ concat (map (node_line (t_fixed env)) (cs_nodes cs))
     @ (if cs_vshard_group cs \<noteq> [] then
          ''virtual shards -> groups: ['' @ join '', '' (map show_u32 (cs_vshard_group cs)) @ '']'' @ newline else [])"

definition cmp_buckets :: "string \<times> u64 \<Rightarrow> string \<times> u64 \<Rightarrow> ordering" where
  "cmp_buckets a b = ord_then (cmp_lin (snd b) (snd a)) (cmp_lin (fst a) (fst b))"

definition format_aggregate ::
  "tool_env \<Rightarrow> agg_kind \<Rightarrow> aggregate_partial option \<times> (f64 \<times> f64) list \<times> query_manifest option \<Rightarrow> string" where
  "format_aggregate env kind resp =
     (case fst resp of
        None \<Rightarrow> []
      | Some p \<Rightarrow>
          (case kind of
             AggCount \<Rightarrow> ''count: '' @ show_nat (unat (ap_count p)) @ newline
           | AggPercentiles \<Rightarrow>
               concat (map (\<lambda>(q, x). ''p'' @ t_show env q @ '': '' @ t_fixed env 2 x @ newline) (fst (snd resp)))
           | _ \<Rightarrow>
               concat (map (\<lambda>(k, n). k @ '': '' @ show_nat (unat n) @ newline)
                 (take 25 (sort_by cmp_buckets (t_ord env (ap_buckets p)))))
               @ ''('' @ show_nat (unat (ap_count p)) @ '' matched)'' @ newline))
     @ provenance_line (t_now env) (snd (snd resp))"

section \<open>Arguments\<close>

definition parse_filter_object :: "json \<Rightarrow> string + filter_condition" where
  "parse_filter_object c =
     (case get_str c ''field'' of
        None \<Rightarrow> Inl (''each filter needs a '' @ quote ''field'')
      | Some field \<Rightarrow>
          (case get_str c ''equals'' of
             Some eq \<Rightarrow> Inr \<lparr>fc_field = field, fc_test = Some (Equals eq)\<rparr>
           | None \<Rightarrow>
               if json_get c ''min'' \<noteq> None \<or> json_get c ''max'' \<noteq> None
               then Inr \<lparr>fc_field = field, fc_test = Some (Range (get_f64 c ''min'') (get_f64 c ''max''))\<rparr>
               else (case Option.bind (json_get c ''is'') as_bool of
                       Some b \<Rightarrow> Inr \<lparr>fc_field = field, fc_test = Some (Is b)\<rparr>
                     | None \<Rightarrow> Inl (''filter on '' @ quote field @ '' needs '' @ quote ''equals'' @ '', '' @ quote ''min'' @ ''/''
                         @ quote ''max'' @ '', or '' @ quote ''is''))))"

fun parse_filter_objects :: "json list \<Rightarrow> string + filter_condition list" where
  "parse_filter_objects [] = Inr []"
| "parse_filter_objects (c # cs) =
     (case parse_filter_object c of
        Inl e \<Rightarrow> Inl e
      | Inr t \<Rightarrow> (case parse_filter_objects cs of Inl e \<Rightarrow> Inl e | Inr ts \<Rightarrow> Inr (t # ts)))"

definition parse_filters :: "json \<Rightarrow> string + filter_msg option" where
  "parse_filters args =
     (case Option.bind (json_get args ''filters'') as_array of
        None \<Rightarrow> Inr None
      | Some cs \<Rightarrow>
          (case parse_filter_objects cs of
             Inl e \<Rightarrow> Inl e
           | Inr ts \<Rightarrow> Inr (if ts = [] then None else Some \<lparr>conditions = ts\<rparr>)))"

definition kind_of :: "string \<Rightarrow> agg_kind option" where
  "kind_of s =
     (if s = ''count'' then Some AggCount
      else if s = ''value_counts'' then Some AggValueCounts
      else if s = ''time_histogram'' then Some AggTimeHistogram
      else if s = ''numeric_histogram'' then Some AggNumericHistogram
      else if s = ''geo_grid'' then Some AggGeoGrid
      else if s = ''percentiles'' then Some AggPercentiles
      else None)"

definition str_or :: "string \<Rightarrow> json \<Rightarrow> string \<Rightarrow> string" where
  "str_or d args k = (case get_str args k of Some s \<Rightarrow> s | None \<Rightarrow> d)"

section \<open>Dispatch\<close>

definition tool_limit :: "json \<Rightarrow> u32" where
  "tool_limit args = word_of_nat (case Option.bind (json_get args ''limit'') as_u64 of Some n \<Rightarrow> n | None \<Rightarrow> 5)"

definition call_search ::
  "tool_env \<Rightarrow> (search_request \<Rightarrow> string + search_response) \<Rightarrow> json \<Rightarrow> string + string" where
  "call_search env rpc args =
     (case get_str args ''query'' of
        None \<Rightarrow> Inl ''missing required argument: query''
      | Some query \<Rightarrow>
          (case t_connect env of
             Inl e \<Rightarrow> Inl e
           | Inr _ \<Rightarrow>
               (case parse_filters args of
                  Inl e \<Rightarrow> Inl e
                | Inr f \<Rightarrow> map_sum (\<lambda>e. e) (format_hits env) (rpc \<lparr>sr_query = query, sr_limit = tool_limit args, sr_filter = f\<rparr>))))"

definition call_semantic :: "tool_env \<Rightarrow> json \<Rightarrow> string + string" where
  "call_semantic env args =
     (case get_str args ''query'' of
        None \<Rightarrow> Inl ''missing required argument: query''
      | Some query \<Rightarrow>
          (case t_connect env of
             Inl e \<Rightarrow> Inl e
           | Inr _ \<Rightarrow> map_sum (\<lambda>e. e) (format_hits env)
               (t_vector env \<lparr>vr_vector = hash_embed query, vr_limit = tool_limit args, vr_filter = None\<rparr>)))"

definition call_aggregate :: "tool_env \<Rightarrow> json \<Rightarrow> string + string" where
  "call_aggregate env args =
     (case kind_of (str_or ''count'' args ''kind'') of
        None \<Rightarrow> Inl (''unknown aggregation kind: '' @ str_or ''count'' args ''kind'')
      | Some kind \<Rightarrow>
          (case parse_filters args of
             Inl e \<Rightarrow> Inl e
           | Inr f \<Rightarrow>
               (let req = \<lparr>a_query = str_or [] args ''query'', a_kind = kind, a_field = str_or [] args ''field'',
                      a_interval = (case get_f64 args ''interval'' of Some x \<Rightarrow> x | None \<Rightarrow> fzero),
                      a_percentiles = (case Option.bind (json_get args ''percentiles'') as_array of
                        Some a \<Rightarrow> List.map_filter as_f64 a | None \<Rightarrow> []), a_filter = f\<rparr>
                in case t_connect env of
                     Inl e \<Rightarrow> Inl e
                   | Inr _ \<Rightarrow> map_sum (\<lambda>e. e) (format_aggregate env kind) (t_aggregate env req))))"

definition call :: "tool_env \<Rightarrow> string \<Rightarrow> json \<Rightarrow> string + string" where
  "call env name args =
     (if name = ''search_flights'' then call_search env (t_search env) args
      else if name = ''semantic_search_flights'' then call_semantic env args
      else if name = ''hybrid_search_flights'' then call_search env (t_hybrid env) args
      else if name = ''cluster_state'' then
        (case t_connect env of Inl e \<Rightarrow> Inl e | Inr _ \<Rightarrow> map_sum (\<lambda>e. e) (format_cluster env) (t_cluster env))
      else if name = ''aggregate_flights'' then call_aggregate env args
      else Inl (''unknown tool: '' @ name))"

end
