(* ===== verification/Nlq.thy ===== *)
theory Nlq
  imports Agent_Tools Wal "HOL-Library.Sublist"
begin

text \<open>
  Question answering over the read-only tools (\<open>crates/nlq/src/lib.rs\<close>) and the briefing
  agent (\<open>crates/briefing/src/lib.rs\<close>, \<open>main.rs\<close>). A planning model and the tools act on a
  world \<open>'w\<close> that every call may change; an email sink acts on a state of its own. The
  remote planners and the SMTP client are instances of these parameters.
\<close>

section \<open>The query loop\<close>

datatype step = CallTool string json | Answer string

type_synonym observation = "string \<times> string"
type_synonym 'w model = "'w \<Rightarrow> string \<Rightarrow> observation list \<Rightarrow> (string + step) \<times> 'w"
type_synonym 'w tool_runner = "'w \<Rightarrow> string \<Rightarrow> json \<Rightarrow> (string + string) \<times> 'w"

record answer =
  ans_text :: string
  budget_exhausted :: bool
  provenance :: "string list"
  tool_calls :: nat

definition default_budget :: nat where
  "default_budget = 6"

text \<open>\<open>str::lines\<close>: a line ends at a line feed, with a carriage return before it dropped; what
  follows the last line feed is a line unless it is empty.\<close>

definition strip_cr :: "string \<Rightarrow> string" where
  "strip_cr s = (if s \<noteq> [] \<and> last s = CHR 0x0D then butlast s else s)"

definition str_lines :: "string \<Rightarrow> string list" where
  "str_lines s =
     (let parts = split_pred (\<lambda>c. c = CHR 0x0A) s
      in map strip_cr (butlast parts) @ (if last parts = [] then [] else [last parts]))"

definition lift_provenance :: "string \<Rightarrow> string list" where
  "lift_provenance output = List.map_filter (strip_prefix ''provenance: '') (str_lines output)"

definition em_dash :: string where
  "em_dash = [CHR 0xE2, CHR 0x80, CHR 0x94]"

definition tool_output :: "string \<Rightarrow> string + string \<Rightarrow> string" where
  "tool_output name r = (case r of Inr out \<Rightarrow> out | Inl e \<Rightarrow> ''tool '' @ [CHR 0x27] @ name @ [CHR 0x27] @ '' error: '' @ e)"

definition partial_text :: "nat \<Rightarrow> observation list \<Rightarrow> string" where
  "partial_text budget obs =
     ''[partial answer '' @ em_dash @ '' tool-call budget of '' @ show_nat budget @ '' reached]'' @ newline
     @ (if obs = [] then ''no results gathered'' else snd (last obs))"

function nlq_loop ::
  "'w model \<Rightarrow> 'w tool_runner \<Rightarrow> string \<Rightarrow> nat \<Rightarrow> 'w \<Rightarrow> observation list \<Rightarrow> string list \<Rightarrow> nat \<Rightarrow> answer \<times> 'w" where
  "nlq_loop model tools question budget w obs prov calls =
     (case model w question obs of
        (Inl e, w1) \<Rightarrow>
          (\<lparr>ans_text = ''could not complete the query: '' @ e, budget_exhausted = False, provenance = prov,
             tool_calls = calls\<rparr>, w1)
      | (Inr (Answer txt), w1) \<Rightarrow>
          (\<lparr>ans_text = txt, budget_exhausted = False, provenance = prov, tool_calls = calls\<rparr>, w1)
      | (Inr (CallTool name args), w1) \<Rightarrow>
          (if calls \<ge> budget then
             (\<lparr>ans_text = partial_text budget obs, budget_exhausted = True, provenance = prov, tool_calls = calls\<rparr>, w1)
           else
             (case tools w1 name args of (r, w2) \<Rightarrow>
                nlq_loop model tools question budget w2 (obs @ [(name, tool_output name r)])
                  (prov @ lift_provenance (tool_output name r)) (calls + 1))))"
  by pat_completeness auto
termination
  by (relation "measure (\<lambda>(_, _, _, budget, _, _, _, calls). budget - calls)") auto

declare nlq_loop.simps [simp del]

definition nlq_run :: "'w model \<Rightarrow> 'w tool_runner \<Rightarrow> string \<Rightarrow> nat \<Rightarrow> 'w \<Rightarrow> answer \<times> 'w" where
  "nlq_run model tools question budget w = nlq_loop model tools question budget w [] [] 0"

definition evidence_lines :: "string list \<Rightarrow> string" where
  "evidence_lines prov =
     concat (map (\<lambda>(i, p). ''  ['' @ show_nat (i + 1) @ ''] '' @ p @ newline) (enumerate 0 prov))"

definition evidence_header :: string where
  "evidence_header = em_dash @ '' evidence '' @ em_dash @ newline"

definition render_answer :: "answer \<Rightarrow> string" where
  "render_answer a =
     ans_text a
     @ (if provenance a \<noteq> [] then newline @ newline @ evidence_header @ evidence_lines (provenance a) else [])"

section \<open>Planners\<close>

text \<open>The scripted planner keeps its remaining script as the world.\<close>

definition fake_next :: "step list model" where
  "fake_next script question obs =
     (case script of [] \<Rightarrow> (Inr (CallTool ''cluster_state'' (JObject [])), []) | s # ss \<Rightarrow> (Inr s, ss))"

definition contains :: "string \<Rightarrow> string \<Rightarrow> bool" where
  "contains s p \<longleftrightarrow> split_once_str p s \<noteq> None"

definition numeric_field :: "string \<Rightarrow> string" where
  "numeric_field q = (case find (contains q) [''altitude'', ''velocity'', ''heading''] of Some f \<Rightarrow> f | None \<Rightarrow> ''altitude'')"

definition heuristic_route :: "string \<Rightarrow> step" where
  "heuristic_route question =
     (let q = to_lowercase question
      in if contains q ''cluster'' \<or> contains q ''shard'' \<or> contains q ''health'' \<or> contains q ''nodes'' then
           CallTool ''cluster_state'' (JObject [])
         else if contains q ''percentile'' \<or> contains q ''p50'' \<or> contains q ''p90'' \<or> contains q ''p99'' then
           CallTool ''aggregate_flights''
             (JObject [(''field'', JString (numeric_field q)), (''kind'', JString ''percentiles''),
                (''percentiles'', JArray [json_nat 50, json_nat 90, json_nat 99])])
         else if contains q ''how many'' \<or> contains q ''count'' then
           CallTool ''aggregate_flights'' (JObject [(''kind'', JString ''count'')])
         else if contains q ''aircraft'' \<or> contains q ''origin'' \<or> contains q ''countries'' \<or> contains q ''by '' then
           CallTool ''aggregate_flights''
             (JObject [(''field'', JString (if contains q ''aircraft'' then ''aircraft_type'' else ''origin'')),
                (''kind'', JString ''value_counts'')])
         else CallTool ''search_flights'' (JObject [(''query'', JString question)]))"

definition heuristic_next :: "'w model" where
  "heuristic_next w question obs =
     (if obs \<noteq> [] then (Inr (Answer (''Here'' @ [CHR 0x27] @ ''s what I found:'' @ newline @ snd (last obs))), w)
      else (Inr (heuristic_route question), w))"

section \<open>Briefings\<close>

type_synonym allowlist = "string list"

definition allowlist_new :: "string list \<Rightarrow> allowlist" where
  "allowlist_new addrs = filter (\<lambda>a. a \<noteq> []) (map (\<lambda>a. to_lowercase (trim a)) addrs)"

definition env_or_empty :: "string option \<Rightarrow> string" where
  "env_or_empty v = (case v of Some s \<Rightarrow> s | None \<Rightarrow> [])"

definition allowlist_from_env :: "string option \<Rightarrow> allowlist" where
  "allowlist_from_env var = allowlist_new (split_pred (\<lambda>c. c = CHR '','') (env_or_empty var))"

definition allows :: "allowlist \<Rightarrow> string \<Rightarrow> bool" where
  "allows al addr \<longleftrightarrow> list_ex (\<lambda>a. a = to_lowercase (trim addr)) al"

type_synonym 'm emailer = "'m \<Rightarrow> string \<Rightarrow> string \<Rightarrow> string \<Rightarrow> (string + unit) \<times> 'm"

text \<open>The dry-run sink's state is what it recorded.\<close>

definition dry_run_send :: "(string \<times> string) list emailer" where
  "dry_run_send sent to subject body = (Inr (), sent @ [(to, subject)])"

record briefing =
  subject :: string
  body :: string
  brief_provenance :: "string list"

fun ask_all :: "'w model \<Rightarrow> 'w tool_runner \<Rightarrow> string list \<Rightarrow> 'w \<Rightarrow> string \<Rightarrow> string list \<Rightarrow> string \<times> string list \<times> 'w" where
  "ask_all model tools [] w txt prov = (txt, prov, w)"
| "ask_all model tools (q # qs) w txt prov =
     (case nlq_run model tools q default_budget w of (a, w1) \<Rightarrow>
        ask_all model tools qs w1 (txt @ ''Q: '' @ q @ newline @ ans_text a @ newline @ newline) (prov @ provenance a))"

definition compose :: "'w model \<Rightarrow> 'w tool_runner \<Rightarrow> string list \<Rightarrow> 'w \<Rightarrow> briefing \<times> 'w" where
  "compose model tools questions w =
     (case ask_all model tools questions w
             (''Aether cluster briefing'' @ newline @ ''======================='' @ newline @ newline) [] of
        (txt, prov, w1) \<Rightarrow>
          (\<lparr>subject = ''Aether cluster briefing'',
             body = txt @ (if prov \<noteq> [] then evidence_header @ evidence_lines prov else []),
             brief_provenance = prov\<rparr>, w1))"

fun send_each ::
  "allowlist \<Rightarrow> 'm emailer \<Rightarrow> briefing \<Rightarrow> string list \<Rightarrow> string list \<Rightarrow> string list \<Rightarrow> 'm \<Rightarrow> string list \<times> string list \<times> 'm" where
  "send_each al send b [] delivered errors m = (delivered, errors, m)"
| "send_each al send b (r # rs) delivered errors m =
     (if \<not> allows al r then send_each al send b rs delivered (errors @ [''recipient not allowlisted: '' @ r]) m
      else case send m r (subject b) (body b) of
             (Inr _, m1) \<Rightarrow> send_each al send b rs (delivered @ [r]) errors m1
           | (Inl e, m1) \<Rightarrow> send_each al send b rs delivered (errors @ [''send to '' @ r @ '' failed: '' @ e]) m1)"

definition brief_and_send ::
  "'w model \<Rightarrow> 'w tool_runner \<Rightarrow> string list \<Rightarrow> string list \<Rightarrow> allowlist \<Rightarrow> 'm emailer \<Rightarrow> 'w \<Rightarrow> 'm
    \<Rightarrow> (string list + string list) \<times> 'w \<times> 'm" where
  "brief_and_send model tools questions recipients al send w m =
     (case compose model tools questions w of (b, w1) \<Rightarrow>
        (case send_each al send b recipients [] [] m of (delivered, errors, m1) \<Rightarrow>
           (if errors = [] then Inr delivered else Inl errors, w1, m1)))"

definition standing_questions :: "string list" where
  "standing_questions =
     [''how many flights are there?'', ''which aircraft types are flying?'',
      ''what are the altitude percentiles?'', ''is the cluster healthy?'']"

definition env_recipients :: "string option \<Rightarrow> string list" where
  "env_recipients var = filter (\<lambda>s. s \<noteq> []) (map trim (split_pred (\<lambda>c. c = CHR '','') (env_or_empty var)))"

definition cadence_of :: "string option \<Rightarrow> nat" where
  "cadence_of var = (case Option.bind var (parse_unsigned 64) of Some n \<Rightarrow> n | None \<Rightarrow> 0)"

datatype 'e sink = Smtp 'e | DryRun

definition choose_sink :: "string option \<Rightarrow> 'e option \<Rightarrow> 'e sink" where
  "choose_sink send_var smtp =
     (if send_var = Some ''send'' then (case smtp of Some e \<Rightarrow> Smtp e | None \<Rightarrow> DryRun) else DryRun)"

text \<open>The loop of the binary, followed for at most \<open>n\<close> cycles: what each cycle returned and
  whether the loop ended.\<close>

fun briefing_loop ::
  "nat \<Rightarrow> 'w model \<Rightarrow> 'w tool_runner \<Rightarrow> string list \<Rightarrow> string list \<Rightarrow> allowlist \<Rightarrow> 'm emailer \<Rightarrow> nat \<Rightarrow> 'w \<Rightarrow> 'm
    \<Rightarrow> (string list + string list) list \<times> bool \<times> 'w \<times> 'm" where
  "briefing_loop 0 model tools questions recipients al send cadence w m = ([], False, w, m)"
| "briefing_loop (Suc n) model tools questions recipients al send cadence w m =
     (case brief_and_send model tools questions recipients al send w m of (r, w1, m1) \<Rightarrow>
        (if cadence = 0 then ([r], True, w1, m1)
         else (case briefing_loop n model tools questions recipients al send cadence w1 m1 of
                 (rs, fin, w2, m2) \<Rightarrow> (r # rs, fin, w2, m2))))"

section \<open>The loop follows the dialogue\<close>

text \<open>The unbounded dialogue of a planner with the tools: the worlds and observations it can
  get to by tool calls.\<close>

inductive dialogue ::
  "'w model \<Rightarrow> 'w tool_runner \<Rightarrow> string \<Rightarrow> 'w \<Rightarrow> observation list \<Rightarrow> 'w \<Rightarrow> bool"
  for model tools question w0 where
  start: "dialogue model tools question w0 [] w0"
| asked: "dialogue model tools question w0 obs w \<Longrightarrow> model w question obs = (Inr (CallTool name args), w1) \<Longrightarrow>
     tools w1 name args = (r, w2) \<Longrightarrow> dialogue model tools question w0 (obs @ [(name, tool_output name r)]) w2"

text \<open>What the loop answers where it stops.\<close>

definition stops_with :: "nat \<Rightarrow> observation list \<Rightarrow> string + step \<Rightarrow> answer \<Rightarrow> bool" where
  "stops_with budget obs decision a \<longleftrightarrow>
     length obs \<le> budget \<and> tool_calls a = length obs \<and> provenance a = concat (map (\<lambda>(_, out). lift_provenance out) obs)
     \<and> (case decision of
          Inl e \<Rightarrow> \<not> budget_exhausted a \<and> ans_text a = ''could not complete the query: '' @ e
        | Inr (Answer txt) \<Rightarrow> \<not> budget_exhausted a \<and> ans_text a = txt
        | Inr (CallTool name args) \<Rightarrow>
            budget_exhausted a \<and> length obs = budget \<and> ans_text a = partial_text budget obs)"

lemma nlq_loop_dialogue:
  assumes "dialogue model tools question w0 obs w"
    and "length obs \<le> budget" "calls = length obs" "prov = concat (map (\<lambda>(_, out). lift_provenance out) obs)"
  shows "\<exists>obs' w' decision w''. dialogue model tools question w0 obs' w' \<and> model w' question obs' = (decision, w'')
     \<and> (\<exists>a. nlq_loop model tools question budget w obs prov calls = (a, w'') \<and> stops_with budget obs' decision a)"
  using assms
proof (induction model tools question budget w obs prov calls rule: nlq_loop.induct)
  case (1 model tools question budget w obs prov calls)
  obtain decision w1 where dec: "model w question obs = (decision, w1)" by fastforce
  show ?case
  proof (cases "\<exists>name args. decision = Inr (CallTool name args) \<and> calls < budget")
    case True
    then obtain name args where d: "decision = Inr (CallTool name args)" and lt: "calls < budget" by blast
    obtain r w2 where r: "tools w1 name args = (r, w2)" by fastforce
    have next1: "nlq_loop model tools question budget w obs prov calls =
        nlq_loop model tools question budget w2 (obs @ [(name, tool_output name r)])
          (prov @ lift_provenance (tool_output name r)) (calls + 1)"
      using dec d lt r by (simp add: nlq_loop.simps [of model tools question budget w])
    have "dialogue model tools question w0 (obs @ [(name, tool_output name r)]) w2"
      using "1.prems"(1) dec [unfolded d] r by (rule dialogue.asked)
    from "1.IH" [OF dec [symmetric] d refl _ r [symmetric] this] "1.prems"(2-4) lt show ?thesis
      unfolding next1 by simp
  next
    case False
    then have "\<exists>a. nlq_loop model tools question budget w obs prov calls = (a, w1) \<and> stops_with budget obs decision a"
      using "1.prems" dec
      by (auto simp: nlq_loop.simps [of model tools question budget w] stops_with_def split: sum.splits step.splits)
    then show ?thesis using "1.prems"(1) dec by blast
  qed
qed

text \<open>
  C19: Question answering always ends with an answer. The answer is the one the unbounded
  dialogue of planner and tools reaches after some number of tool calls within the budget: the
  planner's own answer or its labelled failure if it stops by then, and otherwise, exactly when
  the budget is used up and the planner asks for another call, the labelled partial answer with
  the last tool output. The evidence is the provenance lines of all tool outputs in call order.
\<close>

theorem nlq_bounded:
  "\<exists>obs w' decision w'' a. dialogue model tools question w obs w' \<and> model w' question obs = (decision, w'')
     \<and> nlq_run model tools question budget w = (a, w'') \<and> stops_with budget obs decision a"
proof -
  have "dialogue model tools question w [] w" by (rule dialogue.start)
  from nlq_loop_dialogue [OF this, of budget 0 "[]"] show ?thesis unfolding nlq_run_def by simp
qed

text \<open>The offline planner makes one tool call and quotes its output.\<close>

lemma heuristic_route_call: "\<exists>name args. heuristic_route question = CallTool name args"
  by (simp add: heuristic_route_def Let_def)

lemma heuristic_one_hop:
  assumes "heuristic_route question = CallTool name args" "tools w name args = (r, w')" "0 < budget"
  shows "nlq_run heuristic_next tools question budget w =
    (\<lparr>ans_text = ''Here'' @ [CHR 0x27] @ ''s what I found:'' @ newline @ tool_output name r, budget_exhausted = False,
       provenance = lift_provenance (tool_output name r), tool_calls = 1\<rparr>, w')"
  using assms
  by (simp add: nlq_run_def nlq_loop.simps [of _ _ _ _ w] nlq_loop.simps [of _ _ _ _ w'] heuristic_next_def)

text \<open>Text of a document is quoted into tool outputs as it is, so a field with a line of its own
  that starts like a provenance line is lifted as evidence.\<close>

lemma str_lines_mid:
  assumes "CHR 0x0A \<notin> set x" "strip_cr x = x"
  shows "x \<in> set (str_lines (pre @ newline @ x @ newline @ post))"
proof -
  let ?p = "\<lambda>c. c = CHR 0x0A"
  have "split_pred ?p (pre @ newline @ x @ newline @ post) = split_pred ?p pre @ [x] @ split_pred ?p post"
    using assms(1) by (simp add: newline_def split_pred_sep) (subst split_pred_none; fastforce)
  then show ?thesis using assms(2) by (force simp: str_lines_def Let_def butlast_append)
qed

lemma sublist_under:
  "sublist xs ys \<Longrightarrow> sublist xs (zs @ ys)" "sublist xs ys \<Longrightarrow> sublist xs (ys @ zs)"
  by (auto simp: sublist_append)

lemma sublist_concat: "x \<in> set xs \<Longrightarrow> sublist x (concat xs)"
  by (induction xs) (auto intro: sublist_under)

lemma forged_provenance:
  assumes "CHR 0x0A \<notin> set x" "strip_cr x = x" "x \<noteq> []"
    and "hit \<in> set (resp_hits resp)" "hit_document hit = Some d"
    and "callsign d = pre @ newline @ ''provenance: '' @ x @ newline @ post"
  shows "x \<in> set (lift_provenance (format_hits env resp))"
proof -
  have "sublist (callsign d) (hit_line (t_fixed env) hit)"
    unfolding hit_line_def Let_def assms(5) option.case by (intro sublist_under(1) sublist_append_rightI)
  moreover have "sublist (hit_line (t_fixed env) hit) (format_hits env resp)"
    unfolding format_hits_def using assms(4) by (intro sublist_under(1) sublist_under(2) sublist_concat) simp
  ultimately obtain a b where out: "format_hits env resp = a @ callsign d @ b"
    by (meson sublist_def sublist_order.order.trans)
  have "strip_cr (''provenance: '' @ x) = ''provenance: '' @ x"
    using assms(2,3) by (auto simp: strip_cr_def split: if_splits)
  then have "''provenance: '' @ x \<in> set (str_lines (format_hits env resp))"
    using str_lines_mid [of "''provenance: '' @ x" "a @ pre" "post @ b"] assms(1) by (simp add: out assms(6))
  then show ?thesis by (force simp: lift_provenance_def List.map_filter_def strip_prefix_def)
qed

section \<open>The one outward action\<close>

text \<open>A sink with a log of the messages handed to it and whether it took them, around any sink.\<close>

definition logged :: "'m emailer \<Rightarrow> ('m \<times> (string \<times> string \<times> string \<times> bool) list) emailer" where
  "logged send ml to subj txt =
     (case send (fst ml) to subj txt of (r, m1) \<Rightarrow> (r, m1, snd ml @ [(to, subj, txt, isl r)]))"

abbreviation taken :: "(string \<times> string \<times> string \<times> bool) list \<Rightarrow> string list" where
  "taken mails \<equiv> map fst (filter (\<lambda>(_, _, _, failed). \<not> failed) mails)"

lemma allows_new:
  "allows (allowlist_new addrs) r \<longleftrightarrow>
     to_lowercase (trim r) \<noteq> [] \<and> to_lowercase (trim r) \<in> (\<lambda>a. to_lowercase (trim a)) ` set addrs"
  by (auto simp: allows_def allowlist_new_def list_ex_iff simp del: to_lowercase_Nil)

lemma send_each_log:
  assumes "send_each al (logged send) b rs delivered errors (m, mails) = (delivered', errors', m', mails')"
  shows "\<exists>new. mails' = mails @ new
    \<and> map (\<lambda>(r, s, t, _). (r, s, t)) new = map (\<lambda>r. (r, subject b, body b)) (filter (allows al) rs)
    \<and> delivered' = delivered @ taken new \<and> subseq (taken new) (filter (allows al) rs)
    \<and> length errors' + length (taken new) = length errors + length rs"
  using assms
proof (induction rs arbitrary: delivered errors m mails)
  case (Cons r rs)
  obtain q m1 where q: "send m r (subject b) (body b) = (q, m1)" by fastforce
  then have lq: "logged send (m, mails) r (subject b) (body b) = (q, m1, mails @ [(r, subject b, body b, isl q)])"
    by (simp add: logged_def)
  show ?case
  proof (cases "allows al r")
    case False
    then have "send_each al (logged send) b rs delivered (errors @ [''recipient not allowlisted: '' @ r]) (m, mails)
        = (delivered', errors', m', mails')"
      using Cons.prems by (simp del: append.simps)
    from Cons.IH [OF this] False show ?thesis by auto
  next
    case True
    show ?thesis
    proof (cases q)
      case (Inl e)
      then have "send_each al (logged send) b rs delivered (errors @ [''send to '' @ r @ '' failed: '' @ e])
          (m1, mails @ [(r, subject b, body b, True)]) = (delivered', errors', m', mails')"
        using Cons.prems True lq by (simp del: append.simps)
      from Cons.IH [OF this] True show ?thesis by (auto intro: subseq_Cons')
    next
      case (Inr u)
      then have "send_each al (logged send) b rs (delivered @ [r]) errors
          (m1, mails @ [(r, subject b, body b, False)]) = (delivered', errors', m', mails')"
        using Cons.prems True lq by simp
      from Cons.IH [OF this] True show ?thesis by auto
    qed
  qed
qed simp

text \<open>
  C20: A briefing leaves only for allowlisted recipients. Whatever planner, tools and sink are
  used, the messages handed to the sink are the composed briefing to the allowlisted recipients,
  once for each time one is listed, in the order given; an address is allowlisted when, trimmed
  and lowercased, it is a non-empty entry of the list, so with an empty list nothing is sent. The
  call succeeds exactly when every recipient was allowlisted and the sink took every message, and
  then names them all; otherwise there is one error for each recipient not delivered to.
\<close>

theorem briefing_guard:
  "(case brief_and_send model tools questions recipients al (logged send) w (m, []) of (result, w', m', mails) \<Rightarrow>
      (case compose model tools questions w of (b, w1) \<Rightarrow>
         w' = w1
         \<and> map (\<lambda>(r, s, t, _). (r, s, t)) mails = map (\<lambda>r. (r, subject b, body b)) (filter (allows al) recipients))
      \<and> (case result of
           Inr ds \<Rightarrow> ds = recipients \<and> taken mails = recipients
         | Inl errs \<Rightarrow> errs \<noteq> [] \<and> length errs + length (taken mails) = length recipients))
    \<and> (allows (allowlist_new addrs) r \<longleftrightarrow> trim r \<noteq> [] \<and> to_lowercase (trim r) \<in> (\<lambda>a. to_lowercase (trim a)) ` set addrs)"
proof -
  obtain b w1 where b: "compose model tools questions w = (b, w1)" by fastforce
  obtain delivered errors m' mails where
    s: "send_each al (logged send) b recipients [] [] (m, []) = (delivered, errors, m', mails)"
    using prod_cases4 by blast
  from send_each_log [OF s]
  have mails: "map (\<lambda>(r, s, t, _). (r, s, t)) mails = map (\<lambda>r. (r, subject b, body b)) (filter (allows al) recipients)"
    and del: "delivered = taken mails" and sub: "subseq (taken mails) (filter (allows al) recipients)"
    and len: "length errors + length (taken mails) = length recipients"
    by auto
  have "taken mails = recipients" if "errors = []"
    using sub len that subseq_same_length [OF subseq_order.order_trans [OF sub subseq_filter_left]] by simp
  then show ?thesis using mails len
    by (cases "errors = []") (auto simp: brief_and_send_def b s allows_new del)
qed

lemma trim_trim [simp]: "trim (trim s) = trim s"
proof -
  have dd: "dropWhile p (dropWhile p xs) = dropWhile p xs" for p :: "char \<Rightarrow> bool" and xs
    by (induction xs) auto
  let ?d = "dropWhile is_whitespace s"
  have "dropWhile is_whitespace (trim s) = trim s"
  proof (cases "trim s")
    case (Cons c cs)
    obtain zs where "rev ?d = zs @ rev (trim s)"
      by (metis rev_rev_ident takeWhile_dropWhile_id trim_def)
    then have "?d = trim s @ rev zs" by (metis rev_append rev_rev_ident)
    then have "hd ?d = c" "?d \<noteq> []" using Cons by simp_all
    then have "\<not> is_whitespace c" using hd_dropWhile by blast
    then show ?thesis using Cons by simp
  qed simp
  then show ?thesis by (simp add: trim_def [of "trim s"]) (simp add: trim_def dd)
qed

text \<open>The binary reads the recipients and the allowlist from one variable, so the allowlist
  refuses none of its recipients.\<close>

lemma allowlist_vacuous: "filter (allows (allowlist_from_env var)) (env_recipients var) = env_recipients var"
  unfolding filter_id_conv by (auto simp: allowlist_from_env_def env_recipients_def allows_new)

lemma sends_nothing_unset: "env_recipients None = [] \<and> allowlist_from_env None = []"
  by (simp add: env_recipients_def allowlist_from_env_def allowlist_new_def env_or_empty_def trim_def to_lowercase_def)

end
