(* ===== verification/Dashboard.thy ===== *)
theory Dashboard
  imports Supervisor Nlq
begin

text \<open>
  The dashboard (\<open>crates/dashboard/src/main.rs\<close>): its event log, the poller that turns the
  cluster's answers into the snapshot the browser renders, and the HTTP handlers. Answers of
  the coordinator, clocks, float parsing and the iteration order of maps are arguments; the
  web server and the WebSocket are transport. A panic of the poller is \<open>None\<close>.
\<close>

section \<open>The application\<close>

record app =
  app_supervisor :: supervisor
  app_addrs :: "string list"
  app_events :: "json list"
  query_ok :: u64
  query_err :: u64

definition dashboard_addrs :: "string option \<Rightarrow> string list" where
  "dashboard_addrs remote = (case remote of Some l \<Rightarrow> parse_addr_list l ''127.0.0.1:50050'' | None \<Rightarrow> [''127.0.0.1:50050''])"

text \<open>The last fifty events are kept.\<close>

definition push_event :: "u64 \<Rightarrow> string \<Rightarrow> app \<Rightarrow> app" where
  "push_event at_ms msg a =
     (let es = app_events a @ [jobj [(''at_ms'', json_u64 at_ms), (''msg'', JString msg)]]
      in a\<lparr>app_events := (if length es > 50 then drop (length es - 50) es else es)\<rparr>)"

definition app_start :: "supervisor \<Rightarrow> string list \<Rightarrow> string list \<Rightarrow> app" where
  "app_start sv addrs spawned =
     push_event 0 ''spawned coordinator''
       (foldl (\<lambda>a n. push_event 0 (''spawned '' @ n) a)
         \<lparr>app_supervisor = sv, app_addrs = addrs, app_events = [], query_ok = 0, query_err = 0\<rparr> spawned)"

section \<open>Panels\<close>

type_synonym agg_answer = "(aggregate_partial option \<times> (f64 \<times> f64) list) option"

definition run_agg :: "(aggregate_request \<Rightarrow> agg_answer) \<Rightarrow> agg_kind \<Rightarrow> string \<Rightarrow> f64 \<Rightarrow> f64 list
    \<Rightarrow> ((string, u64) hashmap \<times> (f64 \<times> f64) list) option" where
  "run_agg rpc kind field1 interval percentiles =
     Option.bind (rpc \<lparr>a_query = [], a_kind = kind, a_field = field1, a_interval = interval, a_percentiles = percentiles,
         a_filter = None\<rparr>)
       (\<lambda>(p, ps). map_option (\<lambda>p. (ap_buckets p, ps)) p)"

definition bucket_rows :: "(string \<times> u64) list \<Rightarrow> string \<Rightarrow> nat \<Rightarrow> json" where
  "bucket_rows buckets key_name n =
     JArray (map (\<lambda>(k, v). jobj [(key_name, JString k), (''count'', json_u64 v)]) (take n (sort_by cmp_buckets buckets)))"

definition geo_row :: "(string \<Rightarrow> f64 option) \<Rightarrow> string \<times> u64 \<Rightarrow> json option" where
  "geo_row parse_f64 cell =
     (case split_once CHR '','' (fst cell) of
        None \<Rightarrow> None
      | Some (lat, lon) \<Rightarrow>
          (case (parse_f64 lat, parse_f64 lon) of
             (Some x, Some y) \<Rightarrow> Some (jobj [(''lat'', json_float x), (''lon'', json_float y), (''count'', json_u64 (snd cell))])
           | _ \<Rightarrow> None))"

text \<open>Sorting the rows of the histogram unwraps the comparison: two rows of which one is not a
  number panic.\<close>

definition altitude_rows :: "(string \<Rightarrow> f64 option) \<Rightarrow> (string \<times> u64) list \<Rightarrow> json option" where
  "altitude_rows parse_f64 buckets =
     (let rows = List.map_filter (\<lambda>(k, v). map_option (\<lambda>x. (x, v)) (parse_f64 k)) buckets
      in if length rows \<ge> 2 \<and> list_ex (\<lambda>r. fst r = NaN) rows then None
         else Some (JArray (map (\<lambda>(k, v). jobj [(''bucket'', json_float k), (''count'', json_u64 v)])
           (sort_by (\<lambda>a b. the (f64_partial_cmp (fst a) (fst b))) rows))))"

section \<open>The poller\<close>

record poller =
  prev_roles :: "(string, node_role) hashmap"
  poll_series :: "json list"
  prev_err :: u64

definition poller_new :: poller where
  "poller_new = \<lparr>prev_roles = [], poll_series = [], prev_err = 0\<rparr>"

text \<open>What one tick observes: the answers of the first coordinator that accepts the connection,
  if any, and the clock.\<close>

record tick_answers =
  ta_connected :: bool
  ta_state :: "cluster_state option"
  ta_search :: "string + search_response"
  ta_agg :: "aggregate_request \<Rightarrow> agg_answer"
  ta_ord :: "(string \<times> u64) list \<Rightarrow> (string \<times> u64) list"
  ta_parse :: "string \<Rightarrow> f64 option"
  ta_now :: int
  ta_elapsed_ms :: u64
  ta_elapsed_secs :: u64
  ta_query_ms :: u64

definition query_term :: "(string \<Rightarrow> string option) \<Rightarrow> string" where
  "query_term var =
     (case var ''AETHER_DASHBOARD_QUERY'' of
        Some q \<Rightarrow> q
      | None \<Rightarrow> if var ''AETHER_SOURCE'' = Some ''synthetic'' then ''synthetica'' else ''united'')"

text \<open>A follower seen before that is now a leader was promoted.\<close>

definition promoted :: "(string, node_role) hashmap \<Rightarrow> node_snapshot \<Rightarrow> bool" where
  "promoted roles n \<longleftrightarrow> hm_get roles (snap_node_id n) = Some RoleFollower \<and> snap_role n = RoleLeader"

definition node_json :: "supervisor \<Rightarrow> node_snapshot \<Rightarrow> json" where
  "node_json sv n =
     jobj [(''node_id'', JString (snap_node_id n)), (''address'', JString (snap_address n)),
       (''role'', JString (show_role (snap_role n))), (''shard_id'', json_u32 (snap_shard_id n)),
       (''millis_since_seen'', json_nat (since_seen n)), (''has_process'', JBool (snap_node_id n \<in> set (hm_keys (children sv)))),
       (''draining'', JBool (snap_draining n))]"

fun observe_nodes ::
  "u64 \<Rightarrow> node_snapshot list \<Rightarrow> (string, node_role) hashmap \<Rightarrow> app \<Rightarrow> (string, node_role) hashmap \<times> app" where
  "observe_nodes at_ms [] roles a = (roles, a)"
| "observe_nodes at_ms (n # ns) roles a =
     observe_nodes at_ms ns (hm_insert (snap_node_id n) (snap_role n) roles)
       (if promoted roles n
        then push_event at_ms (''PROMOTED '' @ snap_node_id n @ '' to leader of shard '' @ show_u32 (snap_shard_id n)) a else a)"

definition manifest_json :: "int \<Rightarrow> query_manifest \<Rightarrow> json" where
  "manifest_json now m =
     jobj [(''summary'', JString (manifest_summary now m)),
       (''omitted'', JArray (map (\<lambda>x. jobj [(''address'', JString (omitted_address x)), (''reason'', JString (omitted_reason x))]) (m_omitted m))),
       (''deduped'', json_u32 (m_deduped m)), (''freshest_observed_at'', json_int (m_freshest m)),
       (''placement_version'', json_u64 (m_placement_version m))]"

definition query_json :: "tick_answers \<Rightarrow> json" where
  "query_json t =
     (case ta_search t of
        Inl e \<Rightarrow> jobj [(''ok'', JBool False), (''error'', JString e)]
      | Inr r \<Rightarrow>
          jobj [(''ok'', JBool True), (''total_matched'', json_u64 (resp_total_matched r)), (''answered'', json_u32 (resp_shards_answered r)),
            (''queried'', json_u32 (resp_shards_queried r)), (''ms'', json_u64 (ta_query_ms t)),
            (''provenance'', case resp_manifest r of Some m \<Rightarrow> manifest_json (ta_now t) m | None \<Rightarrow> JNull)])"

definition json_or_empty :: "json option \<Rightarrow> json" where
  "json_or_empty j = (case j of Some v \<Rightarrow> v | None \<Rightarrow> JArray [])"

text \<open>The five panels, or a panic.\<close>

definition panels :: "tick_answers \<Rightarrow> (json \<times> json \<times> json \<times> json \<times> json) option" where
  "panels t =
     (let agg = run_agg (ta_agg t);
          by_origin = json_or_empty (map_option (\<lambda>(b, _). bucket_rows (ta_ord t b) ''origin'' 8) (agg AggValueCounts ''origin'' fzero []));
          geo = json_or_empty (map_option (\<lambda>(b, _). JArray (List.map_filter (geo_row (ta_parse t)) (ta_ord t b)))
                  (agg AggGeoGrid [] (f64_of_int 10) []));
          by_aircraft = json_or_empty (map_option (\<lambda>(b, _). bucket_rows (ta_ord t b) ''aircraft_type'' 8)
                  (agg AggValueCounts ''aircraft_type'' fzero []));
          pcts = json_or_empty (map_option (\<lambda>(_, ps). JArray (map (\<lambda>(p, x). jobj [(''p'', json_float p), (''value'', json_float x)]) ps))
                  (agg AggPercentiles ''altitude'' fzero [f64_of_int 50, f64_of_int 90, f64_of_int 99]))
      in case agg AggNumericHistogram ''altitude'' (f64_of_int 2000) [] of
           None \<Rightarrow> Some (by_origin, by_aircraft, geo, JArray [], pcts)
         | Some (b, _) \<Rightarrow> map_option (\<lambda>h. (by_origin, by_aircraft, geo, h, pcts)) (altitude_rows (ta_parse t) (ta_ord t b)))"

definition series_point :: "tick_answers \<Rightarrow> bool \<Rightarrow> json" where
  "series_point t errored =
     jobj [(''t'', json_u64 (ta_elapsed_secs t)),
       (''ms'', json_u64 (if ta_connected t \<and> \<not> isl (ta_search t) then ta_query_ms t else 0)),
       (''matched'', json_u64 (if ta_connected t then (case ta_search t of Inr r \<Rightarrow> resp_total_matched r | Inl _ \<Rightarrow> 0) else 0)),
       (''errored'', JBool errored)]"

definition poll_tick :: "tick_answers \<Rightarrow> poller \<Rightarrow> app \<Rightarrow> (poller \<times> app \<times> json) option" where
  "poll_tick t p a =
     (let cs = (if ta_connected t then ta_state t else None);
          (roles, a1) = (case cs of Some s \<Rightarrow> observe_nodes (ta_elapsed_ms t) (cs_nodes s) (prev_roles p) a | None \<Rightarrow> (prev_roles p, a));
          a2 = (if \<not> ta_connected t then a1
                else case ta_search t of
                       Inr _ \<Rightarrow> a1\<lparr>query_ok := query_ok a1 + 1\<rparr>
                     | Inl _ \<Rightarrow> a1\<lparr>query_err := query_err a1 + 1\<rparr>)
      in map_option (\<lambda>(by_origin, by_aircraft, geo, hist, pcts).
           (let ser = poll_series p @ [series_point t (query_err a2 > prev_err p)];
                ser1 = drop (length ser - 120) ser
            in (\<lparr>prev_roles = roles, poll_series = ser1, prev_err = query_err a2\<rparr>, a2,
                jobj [(''v'', json_nat 1),
                  (''shard_count'', json_u32 (case cs of Some s \<Rightarrow> cs_shard_count s | None \<Rightarrow> 0)),
                  (''vshard_group'', JArray (case cs of Some s \<Rightarrow> map json_u32 (cs_vshard_group s) | None \<Rightarrow> [])),
                  (''coordinator'', jobj [(''addr'', JString (coordinator_addr (app_supervisor a))), (''reachable'', JBool (cs \<noteq> None))]),
                  (''nodes'', JArray (case cs of Some s \<Rightarrow> map (node_json (app_supervisor a)) (cs_nodes s) | None \<Rightarrow> [])),
                  (''query'', jobj [(''ok'', json_u64 (query_ok a2)), (''err'', json_u64 (query_err a2)),
                     (''last'', if ta_connected t then query_json t else JNull)]),
                  (''aggregate'', jobj [(''by_origin'', by_origin), (''by_aircraft'', by_aircraft), (''geo_cells'', geo),
                     (''altitude_hist'', hist), (''altitude_pcts'', pcts)]),
                  (''series'', JArray ser1), (''events'', JArray (app_events a2))])))
         (if ta_connected t then panels t else Some (JArray [], JArray [], JArray [], JArray [], JArray [])))"

section \<open>Handlers\<close>

definition api_ask :: "'w model \<Rightarrow> 'w tool_runner \<Rightarrow> string \<Rightarrow> string option \<Rightarrow> 'w \<Rightarrow> json \<times> 'w" where
  "api_ask model tools label q w =
     (let question = env_or_empty q
      in if trim question = [] then (jobj [(''error'', JString ''empty question'')], w)
         else case nlq_run model tools question default_budget w of (ans, w1) \<Rightarrow>
           (jobj [(''answer'', JString (ans_text ans)), (''provenance'', JArray (map JString (provenance ans))),
              (''tool_calls'', json_nat (tool_calls ans)), (''budget_exhausted'', JBool (budget_exhausted ans)),
              (''model'', JString label)], w1))"

definition report_questions :: "string list" where
  "report_questions =
     [''how many flights are there right now?'', ''which aircraft types are flying?'', ''what are the p50 and p99 altitudes?'',
      ''is the cluster healthy? how many shards answered?'']"

definition api_report :: "'w model \<Rightarrow> 'w tool_runner \<Rightarrow> string \<Rightarrow> string option \<Rightarrow> 'w \<Rightarrow> json \<times> 'w" where
  "api_report model tools label to_param w =
     (let to = env_or_empty to_param;
          al = (if trim to = [] then [] else allowlist_new [to])
      in case compose model tools report_questions w of (b, w1) \<Rightarrow>
           (jobj [(''subject'', JString (subject b)), (''body'', JString (body b)),
              (''provenance'', JArray (map JString (brief_provenance b))), (''model'', JString label), (''to'', JString to),
              (''delivered'', JArray (if trim to \<noteq> [] \<and> allows al to then [JString to] else [])),
              (''refused'', JArray (if trim to \<noteq> [] \<and> \<not> allows al to then [JString (''recipient not allowlisted: '' @ to)] else [])),
              (''dry_run'', JBool True)], w1))"

definition api_kill :: "u64 \<Rightarrow> app \<Rightarrow> string \<Rightarrow> app \<times> nat \<times> string" where
  "api_kill at_ms a nid =
     (case kill (app_supervisor a) nid of
        (sv, True) \<Rightarrow> (push_event at_ms (''KILLED '' @ nid @ '' (SIGKILL)'') (a\<lparr>app_supervisor := sv\<rparr>), 200, ''killed'')
      | (sv, False) \<Rightarrow> (a, 404, ''no such managed node''))"

definition api_drain :: "u64 \<Rightarrow> app \<Rightarrow> string \<Rightarrow> string + unit \<Rightarrow> string + bool \<times> string \<Rightarrow> app \<times> nat \<times> string" where
  "api_drain at_ms a nid conn answer1 =
     (case conn of
        Inl e \<Rightarrow> (a, 502, e)
      | Inr _ \<Rightarrow>
          (case answer1 of
             Inl e \<Rightarrow> (a, 502, e)
           | Inr (ok, msg) \<Rightarrow>
               if ok then (push_event at_ms (''DRAINING '' @ nid @ '' '' @ em_dash @ '' leader will remove it from the group'') a, 200, msg)
               else (a, 404, msg)))"

definition api_add_follower ::
  "(string \<Rightarrow> string option) \<Rightarrow> (child \<Rightarrow> string + unit) \<Rightarrow> u64 \<Rightarrow> app \<Rightarrow> u32 \<Rightarrow> app \<times> nat \<times> string" where
  "api_add_follower var launch at_ms a shard =
     (case add_follower var launch (app_supervisor a) shard of
        (sv, Inr nid) \<Rightarrow>
          (push_event at_ms
             (if sup_raft sv then ''spawned '' @ nid @ '' '' @ em_dash @ '' joining the raft group'' else ''spawned '' @ nid)
             (a\<lparr>app_supervisor := sv\<rparr>), 200, nid)
      | (sv, Inl e) \<Rightarrow> (a\<lparr>app_supervisor := sv\<rparr>, 500, e))"

section \<open>Bounds and a panic\<close>

lemma push_event_bound: "length (app_events (push_event at_ms msg a)) \<le> 50"
  by (simp add: push_event_def Let_def)

lemma observe_nodes_bound:
  "length (app_events a) \<le> 50 \<Longrightarrow> length (app_events (snd (observe_nodes at_ms ns roles a))) \<le> 50
    \<and> app_supervisor (snd (observe_nodes at_ms ns roles a)) = app_supervisor a"
proof (induction at_ms ns roles a rule: observe_nodes.induct)
  case (2 at_ms n ns roles a)
  then show ?case using push_event_bound by (simp add: push_event_def Let_def)
qed simp

lemma poll_tick_bounds:
  assumes "poll_tick t p a = Some (p', a', view)" and "length (app_events a) \<le> 50"
  shows "length (app_events a') \<le> 50 \<and> length (poll_series p') \<le> 120"
proof -
  have "observe_nodes e ns rs a = (r, x) \<Longrightarrow> length (app_events x) \<le> 50" for e ns rs r x
    using observe_nodes_bound [OF assms(2), of e ns rs] by simp
  then show ?thesis using assms
    by (auto simp: poll_tick_def Let_def split: if_splits option.splits sum.splits prod.splits)
qed

text \<open>A document whose altitude is not a number stops the poller for good, as soon as there is
  another bucket beside its own.\<close>

lemma nan_bucket_panics:
  assumes "ta_connected t" "ta_parse t ''NaN'' = Some NaN" "ta_parse t k = Some x" "k \<noteq> ''NaN''"
    and "iteration_order (ta_ord t)" "(''NaN'', n) \<in> set b" "(k, m) \<in> set b"
    and "ta_agg t \<lparr>a_query = [], a_kind = AggNumericHistogram, a_field = ''altitude'', a_interval = f64_of_int 2000,
      a_percentiles = [], a_filter = None\<rparr> = Some (Some ap, ps)" "ap_buckets ap = b"
  shows "poll_tick t p a = None"
proof -
  let ?f = "\<lambda>(k, v). map_option (\<lambda>x. (x, v)) (ta_parse t k)"
  let ?rows = "List.map_filter ?f (ta_ord t b)"
  have mem: "(''NaN'', n) \<in> set (ta_ord t b)" "(k, m) \<in> set (ta_ord t b)"
    using assms(6,7) iteration_order_set [OF assms(5)] by auto
  have nan: "list_ex (\<lambda>r. fst r = NaN) ?rows"
    using mem(1) assms(2) by (force simp: list_ex_iff List.map_filter_def)
  have "{(''NaN'', n), (k, m)} \<subseteq> set (filter (\<lambda>e. ?f e \<noteq> None) (ta_ord t b))" using mem assms(2,3) by auto
  then have "card {(''NaN'', n), (k, m)} \<le> length (filter (\<lambda>e. ?f e \<noteq> None) (ta_ord t b))"
    by (meson List.finite_set card_length card_mono order_trans)
  then have "2 \<le> length ?rows" using assms(4) by (simp add: List.map_filter_def comp_def)
  with nan have "altitude_rows (ta_parse t) (ta_ord t b) = None" by (simp add: altitude_rows_def)
  then have "panels t = None" using assms(8,9) by (simp add: panels_def run_agg_def Let_def)
  then show ?thesis using assms(1) by (simp add: poll_tick_def Let_def split: prod.split option.split)
qed

end
