(* ===== verification/Planners.thy ===== *)
theory Planners
  imports Dashboard
begin

text \<open>
  The remote planning models (\<open>crates/nlq/src/openai.rs\<close>, \<open>bedrock.rs\<close>), the choice between
  planners (\<open>select_model\<close> of the dashboard) and the MCP server
  (\<open>crates/mcp-agent/src/main.rs\<close>). The HTTP and AWS clients, the JSON parser and printer and
  the JSON of the tool definitions are arguments.
\<close>

section \<open>JSON indexing\<close>

definition jget :: "json \<Rightarrow> string \<Rightarrow> json" where
  "jget v k = (case json_get v k of Some x \<Rightarrow> x | None \<Rightarrow> JNull)"

definition jnth :: "json \<Rightarrow> nat \<Rightarrow> json" where
  "jnth v i = (case as_array v of Some a \<Rightarrow> if i < length a then a ! i else JNull | None \<Rightarrow> JNull)"

definition pointer2 :: "json \<Rightarrow> string \<Rightarrow> string \<Rightarrow> json option" where
  "pointer2 v a b = Option.bind (json_get v a) (\<lambda>x. json_get x b)"

section \<open>The OpenAI-compatible planner\<close>

definition observation_text :: "observation \<Rightarrow> string" where
  "observation_text ob = ''[tool '' @ fst ob @ '' returned]'' @ newline @ snd ob"

definition openai_message :: "string \<Rightarrow> json" where
  "openai_message content = jobj [(''role'', JString ''user''), (''content'', JString content)]"

definition openai_tools :: "json \<Rightarrow> string + json" where
  "openai_tools defs =
     (case as_array defs of
        None \<Rightarrow> Inl ''tool defs must be an array''
      | Some arr \<Rightarrow>
          Inr (JArray (map (\<lambda>d. jobj [(''type'', JString ''function''),
            (''function'', jobj [(''name'', jget d ''name''), (''description'', jget d ''description''), (''parameters'', jget d ''inputSchema'')])])
            arr)))"

definition openai_body :: "string \<Rightarrow> json \<Rightarrow> string \<Rightarrow> observation list \<Rightarrow> json" where
  "openai_body model tools question obs =
     jobj [(''model'', JString model), (''messages'', JArray (openai_message question # map (\<lambda>ob. openai_message (observation_text ob)) obs)),
       (''tools'', tools), (''temperature'', json_nat 0)]"

definition openai_decide :: "(string \<Rightarrow> string + json) \<Rightarrow> json \<Rightarrow> string + step" where
  "openai_decide parse v =
     (let message1 = jget (jnth (jget v ''choices'') 0) ''message''
      in case as_array (jget message1 ''tool_calls'') of
           Some (call1 # _) \<Rightarrow>
             (case as_str (jget (jget call1 ''function'') ''name'') of
                None \<Rightarrow> Inl ''tool call missing name''
              | Some name \<Rightarrow>
                  (let raw = (case as_str (jget (jget call1 ''function'') ''arguments'') of Some s \<Rightarrow> s | None \<Rightarrow> [CHR 0x7B, CHR 0x7D])
                   in if trim raw = [] then Inr (CallTool name (JObject []))
                      else case parse raw of
                             Inl e \<Rightarrow> Inl (''tool args parse: '' @ e)
                           | Inr args \<Rightarrow> Inr (CallTool name args)))
         | _ \<Rightarrow> Inr (Answer (case as_str (jget message1 ''content'') of Some s \<Rightarrow> s | None \<Rightarrow> [])))"

text \<open>\<open>post\<close> answers with an error of the request, or with whether the status is a success, the
  status and the body, if it could be read.\<close>

definition openai_next ::
  "(json \<Rightarrow> string + bool \<times> string \<times> (string + string)) \<Rightarrow> (string \<Rightarrow> string + json) \<Rightarrow> json \<Rightarrow> string \<Rightarrow> string \<Rightarrow> observation list \<Rightarrow> string + step" where
  "openai_next post parse defs model question obs =
     (case openai_tools defs of
        Inl e \<Rightarrow> Inl e
      | Inr tools \<Rightarrow>
          (case post (openai_body model tools question obs) of
             Inl e \<Rightarrow> Inl (''openai request: '' @ e)
           | Inr (success, status1, Inl e) \<Rightarrow> Inl (''openai read body: '' @ e)
           | Inr (success, status1, Inr txt) \<Rightarrow>
               if \<not> success then Inl (''openai '' @ status1 @ '': '' @ txt)
               else (case parse txt of Inl e \<Rightarrow> Inl (''openai parse: '' @ e) | Inr v \<Rightarrow> openai_decide parse v)))"

definition openai_from_env :: "bool \<Rightarrow> (string \<Rightarrow> string option) \<Rightarrow> (string \<times> string \<times> string) option" where
  "openai_from_env built var =
     (if \<not> built then None
      else case (var ''AETHER_OPENAI_API_KEY'', var ''AETHER_OPENAI_MODEL'') of
             (Some key, Some model) \<Rightarrow>
               Some (case var ''AETHER_OPENAI_BASE_URL'' of Some u \<Rightarrow> u | None \<Rightarrow> ''https://api.openai.com/v1'', key, model)
           | _ \<Rightarrow> None)"

section \<open>The Bedrock planner\<close>

datatype doc_value =
  DNull | DBool bool | DNegInt int | DPosInt nat | DFloat f64 | DString string | DArray "doc_value list" | DObject "(string \<times> doc_value) list"

fun json_to_document :: "json \<Rightarrow> doc_value" where
  "json_to_document JNull = DNull"
| "json_to_document (JBool b) = DBool b"
| "json_to_document (JNumber f i n) = (case i of Some k \<Rightarrow> DNegInt k | None \<Rightarrow> DFloat (case f of Some x \<Rightarrow> x | None \<Rightarrow> fzero))"
| "json_to_document (JString s) = DString s"
| "json_to_document (JArray a) = DArray (map json_to_document a)"
| "json_to_document (JObject ms) = DObject (map (\<lambda>(k, v). (k, json_to_document v)) ms)"

text \<open>An object of the SDK is a hash map, iterated in the order \<open>ord\<close>.\<close>

fun document_to_json :: "((string \<times> json) list \<Rightarrow> (string \<times> json) list) \<Rightarrow> doc_value \<Rightarrow> json" where
  "document_to_json ord DNull = JNull"
| "document_to_json ord (DBool b) = JBool b"
| "document_to_json ord (DNegInt i) = json_int i"
| "document_to_json ord (DPosInt n) = JNumber (Some (f64_of_nat n)) (if n < 2 ^ 63 then Some (int n) else None) (Some n)"
| "document_to_json ord (DFloat x) = json_float x"
| "document_to_json ord (DString s) = JString s"
| "document_to_json ord (DArray a) = JArray (map (document_to_json ord) a)"
| "document_to_json ord (DObject ms) = jobj (ord (map (\<lambda>(k, v). (k, document_to_json ord v)) ms))"

datatype content_block = ToolUse string doc_value | TextBlock string | OtherBlock

fun first_tool_use :: "((string \<times> json) list \<Rightarrow> (string \<times> json) list) \<Rightarrow> content_block list \<Rightarrow> step option" where
  "first_tool_use ord [] = None"
| "first_tool_use ord (ToolUse name input # bs) = Some (CallTool name (document_to_json ord input))"
| "first_tool_use ord (_ # bs) = first_tool_use ord bs"

definition block_text :: "content_block \<Rightarrow> string" where
  "block_text b = (case b of TextBlock s \<Rightarrow> s | _ \<Rightarrow> [])"

fun tool_specs :: "json list \<Rightarrow> string + (string \<times> string \<times> doc_value) list" where
  "tool_specs [] = Inr []"
| "tool_specs (d # ds) =
     (case as_str (jget d ''name'') of
        None \<Rightarrow> Inl ''tool needs a name''
      | Some name \<Rightarrow>
          (case tool_specs ds of
             Inl e \<Rightarrow> Inl e
           | Inr ts \<Rightarrow>
               Inr ((name, case as_str (jget d ''description'') of Some s \<Rightarrow> s | None \<Rightarrow> [], json_to_document (jget d ''inputSchema'')) # ts)))"

definition bedrock_tools :: "json \<Rightarrow> string + (string \<times> string \<times> doc_value) list" where
  "bedrock_tools defs = (case as_array defs of None \<Rightarrow> Inl ''tool defs must be an array'' | Some ds \<Rightarrow> tool_specs ds)"

text \<open>\<open>call_model\<close> answers with an error, with no output, with an output that is no message, or with
  the blocks of a message.\<close>

definition bedrock_next ::
  "(string list \<Rightarrow> (string \<times> string \<times> doc_value) list \<Rightarrow> string + content_block list option option) \<Rightarrow>
    ((string \<times> json) list \<Rightarrow> (string \<times> json) list) \<Rightarrow> json \<Rightarrow> string \<Rightarrow> observation list \<Rightarrow>
    string + step" where
  "bedrock_next call_model ord defs question obs =
     (case bedrock_tools defs of
        Inl e \<Rightarrow> Inl e
      | Inr tools \<Rightarrow>
          (case call_model (question # map observation_text obs) tools of
             Inl e \<Rightarrow> Inl (''bedrock converse: '' @ e)
           | Inr None \<Rightarrow> Inl ''no output from model''
           | Inr (Some None) \<Rightarrow> Inl ''output was not a message''
           | Inr (Some (Some blocks)) \<Rightarrow>
               (case first_tool_use ord blocks of
                  Some s \<Rightarrow> Inr s
                | None \<Rightarrow> Inr (Answer (concat (map block_text blocks))))))"

section \<open>The choice of planner\<close>

datatype planner = OpenAi | Bedrock | Heuristic

definition select_model :: "bool \<Rightarrow> bool \<Rightarrow> (string \<Rightarrow> string option) \<Rightarrow> planner \<times> string" where
  "select_model openai_built bedrock_built var =
     (if openai_from_env openai_built var \<noteq> None
      then (OpenAi, case var ''AETHER_OPENAI_MODEL'' of Some m \<Rightarrow> m | None \<Rightarrow> ''local LLM'')
      else if bedrock_built \<and> var ''AETHER_BEDROCK_MODEL'' \<noteq> None
      then (Bedrock, case var ''AETHER_BEDROCK_MODEL'' of Some m \<Rightarrow> m | None \<Rightarrow> ''bedrock'')
      else (Heuristic, ''heuristic router (no LLM configured)''))"

section \<open>The MCP server\<close>

definition rpc_result :: "json \<Rightarrow> json \<Rightarrow> json" where
  "rpc_result ident result = jobj [(''jsonrpc'', JString ''2.0''), (''id'', ident), (''result'', result)]"

definition rpc_error :: "json \<Rightarrow> int \<Rightarrow> string \<Rightarrow> json" where
  "rpc_error ident code1 message1 =
     jobj [(''jsonrpc'', JString ''2.0''), (''id'', ident), (''error'', jobj [(''code'', json_int code1), (''message'', JString message1)])]"

definition initialize_result :: "string \<Rightarrow> json \<Rightarrow> json" where
  "initialize_result version1 msg =
     jobj [(''protocolVersion'', case pointer2 msg ''params'' ''protocolVersion'' of Some v \<Rightarrow> v | None \<Rightarrow> JString ''2024-11-05''),
       (''capabilities'', jobj [(''tools'', JObject [])]),
       (''serverInfo'', jobj [(''name'', JString ''aether-query-agent''), (''version'', JString version1)])]"

definition tool_result :: "string + string \<Rightarrow> json" where
  "tool_result r =
     (let (txt, err) = (case r of Inr t \<Rightarrow> (t, False) | Inl e \<Rightarrow> (e, True))
      in jobj [(''content'', JArray [jobj [(''type'', JString ''text''), (''text'', JString txt)]]), (''isError'', JBool err)])"

definition mcp_handle :: "string \<Rightarrow> json \<Rightarrow> (string \<Rightarrow> json \<Rightarrow> string + string) \<Rightarrow> json \<Rightarrow> json option" where
  "mcp_handle version1 defs tool msg =
     (case Option.bind (json_get msg ''method'') as_str of
        None \<Rightarrow> None
      | Some meth \<Rightarrow>
          (case json_get msg ''id'' of
             None \<Rightarrow> None
           | Some ident \<Rightarrow>
               Some (if meth = ''initialize'' then rpc_result ident (initialize_result version1 msg)
                     else if meth = ''ping'' then rpc_result ident (JObject [])
                     else if meth = ''tools/list'' then rpc_result ident (jobj [(''tools'', defs)])
                     else if meth = ''tools/call'' then
                       rpc_result ident (tool_result (tool
                         (case Option.bind (pointer2 msg ''params'' ''name'') as_str of Some s \<Rightarrow> s | None \<Rightarrow> [])
                         (case pointer2 msg ''params'' ''arguments'' of Some v \<Rightarrow> v | None \<Rightarrow> JObject [])))
                     else rpc_error ident (- 32601) (''method not found: '' @ meth))))"

text \<open>The loop over the lines of standard input: what is written, as long as writing works
  (\<open>writable n\<close> for the \<open>n\<close>th response).\<close>

fun mcp_loop ::
  "(string \<Rightarrow> json option) \<Rightarrow> (json \<Rightarrow> string) \<Rightarrow> (json \<Rightarrow> json option) \<Rightarrow> (nat \<Rightarrow> bool) \<Rightarrow> nat \<Rightarrow> string list \<Rightarrow> string list" where
  "mcp_loop parse show1 handle writable n [] = []"
| "mcp_loop parse show1 handle writable n (l # ls) =
     (if trim l = [] then mcp_loop parse show1 handle writable n ls
      else case Option.bind (parse (trim l)) handle of
             None \<Rightarrow> mcp_loop parse show1 handle writable n ls
           | Some r \<Rightarrow>
               if writable n then (show1 r @ newline) # mcp_loop parse show1 handle writable (Suc n) ls else [])"

section \<open>The command line and the evaluation\<close>

definition nlq_main ::
  "'w model option \<Rightarrow> 'w tool_runner \<Rightarrow> string list \<Rightarrow> 'w \<Rightarrow> (nat + string) \<times> 'w" where
  "nlq_main model tools args w =
     (let question = join '' '' args
      in if question = [] then (Inl 2, w)
         else case model of
                None \<Rightarrow> (Inl 1, w)
              | Some m \<Rightarrow> (case nlq_run m tools question default_budget w of (a, w1) \<Rightarrow> (Inr (render_answer a), w1)))"

text \<open>The tools with a record of the names called.\<close>

definition tracing_tools :: "'w tool_runner \<Rightarrow> ('w \<times> string list) tool_runner" where
  "tracing_tools tools wl name args =
     (case tools (fst wl) name args of (r, w1) \<Rightarrow> (r, w1, snd wl @ [name]))"

definition on_world :: "'w model \<Rightarrow> ('w \<times> 'x) model" where
  "on_world model wl question obs = (case model (fst wl) question obs of (r, w1) \<Rightarrow> (r, w1, snd wl))"

definition strings_of :: "json \<Rightarrow> string list" where
  "strings_of v = (case as_array v of Some a \<Rightarrow> List.map_filter as_str a | None \<Rightarrow> [])"

definition eval_question :: "'w model \<Rightarrow> 'w tool_runner \<Rightarrow> json \<Rightarrow> 'w \<Rightarrow> bool \<times> 'w" where
  "eval_question model tools q w =
     (let ask = (case as_str (jget q ''ask'') of Some s \<Rightarrow> s | None \<Rightarrow> []);
          want_tools = strings_of (jget q ''expect_tools'');
          want_text = map to_lowercase (strings_of (jget q ''expect_contains''))
      in case nlq_run (on_world model) (tracing_tools tools) ask default_budget (w, []) of (a, w1, called) \<Rightarrow>
           (list_all (\<lambda>t. t \<in> set called) want_tools \<and> list_all (contains (to_lowercase (ans_text a))) want_text, w1))"

fun eval_all :: "'w model \<Rightarrow> 'w tool_runner \<Rightarrow> json list \<Rightarrow> 'w \<Rightarrow> nat \<times> 'w" where
  "eval_all model tools [] w = (0, w)"
| "eval_all model tools (q # qs) w =
     (case eval_question model tools q w of (ok, w1) \<Rightarrow>
        (case eval_all model tools qs w1 of (n, w2) \<Rightarrow> ((if ok then 1 else 0) + n, w2)))"

text \<open>\<open>None\<close> is the evaluation skipped because the planner does not answer a probe.\<close>

definition eval_main :: "'w model \<Rightarrow> 'w tool_runner \<Rightarrow> json \<Rightarrow> 'w \<Rightarrow> (string + (nat \<times> nat) option) \<times> 'w" where
  "eval_main model tools spec w =
     (case as_array (jget spec ''questions'') of
        None \<Rightarrow> (Inl ''questions must be an array'', w)
      | Some qs \<Rightarrow>
          (case model w ''ping'' [] of
             (Inl e, w1) \<Rightarrow> (Inr None, w1)
           | (Inr _, w1) \<Rightarrow> (case eval_all model tools qs w1 of (n, w2) \<Rightarrow> (Inr (Some (n, length qs)), w2))))"

section \<open>Tool arguments survive the conversion\<close>

text \<open>Values as the JSON library keeps them: integers in the signed range, finite floats, objects
  sorted by key without duplicates.\<close>

fun plain_json :: "json \<Rightarrow> bool" where
  "plain_json (JNumber f i n) =
     (case i of
        Some k \<Rightarrow> JNumber f i n = json_int k
      | None \<Rightarrow> (case f of Some x \<Rightarrow> is_finite x \<and> n = None | None \<Rightarrow> False))"
| "plain_json (JArray a) = list_all plain_json a"
| "plain_json (JObject ms) = (sorted (map fst ms) \<and> distinct (map fst ms) \<and> list_all (\<lambda>(_, v). plain_json v) ms)"
| "plain_json _ = True"

lemma jobj_sorted:
  assumes "iteration_order ord" "sorted (map fst ms)" "distinct (map fst ms)"
  shows "jobj (ord ms) = JObject ms"
proof -
  have "inj_on fst (set (ord ms))"
    using assms(1,3) by (simp add: iteration_order_set distinct_map)
  then have "sort_key fst (ord ms) = ms"
    using assms(1,2) by (intro sort_key_inj_key_eq) (simp_all add: iteration_order_def)
  then show ?thesis by (simp add: jobj_def)
qed

lemma document_round_trip:
  assumes "iteration_order ord"
  shows "plain_json v \<Longrightarrow> document_to_json ord (json_to_document v) = v"
proof (induction v rule: plain_json.induct)
  case (1 f i n)
  then show ?case by (auto simp: json_float_def split: option.splits)
next
  case (2 a)
  then show ?case by (auto simp: list_all_iff intro!: map_idI)
next
  case (3 ms)
  have "map (\<lambda>(k, v). (k, document_to_json ord v)) (map (\<lambda>(k, v). (k, json_to_document v)) ms) = ms"
    using 3 by (force simp: list_all_iff intro!: map_idI)
  then show ?case using 3(2) jobj_sorted [OF assms] by simp
qed simp_all

section \<open>The protocol\<close>

lemma json_get_jobj: "distinct (map fst ms) \<Longrightarrow> json_get (jobj ms) k = map_of ms k"
proof -
  assume d: "distinct (map fst ms)"
  have "mset (map fst (sort_key fst ms)) = mset (map fst ms)" by simp
  with d have "distinct (map fst (sort_key fst ms))" using mset_eq_imp_distinct_iff by blast
  then have "map_of (sort_key fst ms) k = Some v \<longleftrightarrow> map_of ms k = Some v" for v
    using d by (simp add: map_of_eq_Some_iff)
  then show ?thesis by (simp add: jobj_def) (metis not_Some_eq)
qed

lemma mcp_loop_responses:
  "mcp_loop parse show1 handle writable n ls =
     map (\<lambda>(_, r). show1 r @ newline)
       (takeWhile (\<lambda>(i, _). writable i)
         (enumerate n (List.map_filter (\<lambda>l. Option.bind (parse (trim l)) handle) (filter (\<lambda>l. trim l \<noteq> []) ls))))"
  by (induction ls arbitrary: n) (auto simp: List.map_filter_def split: option.split)

lemma mcp_handle_None:
  "mcp_handle version1 defs tool msg = None \<longleftrightarrow> Option.bind (json_get msg ''method'') as_str = None \<or> json_get msg ''id'' = None"
  by (auto simp: mcp_handle_def split: option.splits)

lemma mcp_handle_Some:
  assumes "mcp_handle version1 defs tool msg = Some r"
  shows "json_get r ''jsonrpc'' = Some (JString ''2.0'') \<and> json_get r ''id'' = json_get msg ''id''
    \<and> (json_get r ''result'' = None) \<noteq> (json_get r ''error'' = None)"
proof -
  from assms obtain ident where i: "json_get msg ''id'' = Some ident" and
    shape: "(\<exists>v. r = rpc_result ident v) \<or> (\<exists>c m. r = rpc_error ident c m)"
    by (auto simp: mcp_handle_def split: option.splits if_splits)
  from shape show ?thesis by (auto simp: i rpc_result_def rpc_error_def json_get_jobj)
qed

text \<open>
  C28: The MCP server speaks well-formed JSON-RPC. It writes one line for each input line that
  parses to a message with a method and an id, in the order of the input, until a write fails,
  and nothing for blank lines, lines that are no JSON, notifications and messages without a
  method. Every response carries the protocol version, the id of its request, and a result or an
  error but not both; a failed tool call is a result marked as an error, never a protocol error.
\<close>

theorem mcp_well_formed:
  "mcp_loop parse show1 (mcp_handle version1 defs tool) writable 0 ls =
      map (\<lambda>(_, r). show1 r @ newline)
        (takeWhile (\<lambda>(i, _). writable i)
          (enumerate 0 (List.map_filter (\<lambda>l. Option.bind (parse (trim l)) (mcp_handle version1 defs tool))
            (filter (\<lambda>l. trim l \<noteq> []) ls))))
    \<and> (mcp_handle version1 defs tool msg = None \<longleftrightarrow>
        Option.bind (json_get msg ''method'') as_str = None \<or> json_get msg ''id'' = None)
    \<and> (\<forall>r. mcp_handle version1 defs tool msg = Some r \<longrightarrow>
        json_get r ''jsonrpc'' = Some (JString ''2.0'') \<and> json_get r ''id'' = json_get msg ''id''
        \<and> (json_get r ''result'' = None) \<noteq> (json_get r ''error'' = None)
        \<and> (Option.bind (json_get msg ''method'') as_str = Some ''tools/call'' \<longrightarrow> json_get r ''error'' = None))"
proof -
  have tool: "json_get r ''error'' = None"
    if "mcp_handle version1 defs tool msg = Some r" "Option.bind (json_get msg ''method'') as_str = Some ''tools/call''" for r
    using that by (auto simp: mcp_handle_def rpc_result_def json_get_jobj split: option.splits)
  show ?thesis
  proof (intro conjI mcp_loop_responses mcp_handle_None allI impI)
    fix r assume r: "mcp_handle version1 defs tool msg = Some r"
    note shape = mcp_handle_Some [OF r]
    show "json_get r ''jsonrpc'' = Some (JString ''2.0'')" "json_get r ''id'' = json_get msg ''id''"
      "(json_get r ''result'' = None) \<noteq> (json_get r ''error'' = None)"
      using shape by - (elim conjE, assumption)+
    show "json_get r ''error'' = None" if "Option.bind (json_get msg ''method'') as_str = Some ''tools/call''"
      using tool [OF r that] .
  qed
qed

theorem mcp_well_formed_witness:
  "\<exists>r. mcp_handle ''1'' (JArray []) (\<lambda>_ _. Inl ''down'')
      (JObject [(''id'', JString ''7''), (''method'', JString ''tools/call'')]) = Some r
    \<and> json_get r ''id'' = Some (JString ''7'') \<and> json_get r ''error'' = None"
proof -
  let ?m = "JObject [(''id'', JString ''7''), (''method'', JString ''tools/call'')]"
  obtain r where r: "mcp_handle ''1'' (JArray []) (\<lambda>_ _. Inl ''down'') ?m = Some r" by (simp add: mcp_handle_def)
  moreover have "json_get ?m ''id'' = Some (JString ''7'')" "Option.bind (json_get ?m ''method'') as_str = Some ''tools/call''"
    by simp_all
  ultimately show ?thesis
    using mcp_well_formed [THEN conjunct2, THEN conjunct2, THEN spec, THEN mp, OF r] by simp
qed

end
