(* ===== verification/Transport.thy ===== *)
theory Transport
  imports Control Auth
begin

text \<open>
  The raft transport (\<open>crates/consensus/src/network.rs\<close>, \<open>service.rs\<close>) and the timing of the
  groups (\<open>raft_config\<close> of \<open>lib.rs\<close>). The consensus library's own request handlers are the
  argument \<open>raft\<close> on a state \<open>'s\<close>; the serialization (JSON) and the network are arguments too.
  What is relied on of the serialization is the predicate \<open>serializes\<close>.
\<close>

section \<open>Timing\<close>

record raft_timing =
  heartbeat_interval :: nat
  election_timeout_min :: nat
  election_timeout_max :: nat
  snapshot_logs :: "nat option"

text \<open>\<open>None\<close> leaves the snapshot policy at the library's default.\<close>

definition raft_config :: "string option \<Rightarrow> raft_timing" where
  "raft_config var =
     \<lparr>heartbeat_interval = 100, election_timeout_min = 300, election_timeout_max = 600,
      snapshot_logs = (case Option.bind var (parse_unsigned 64) of Some n \<Rightarrow> if n > 0 then Some n else None | None \<Rightarrow> None)\<rparr>"

section \<open>Dialing\<close>

definition dial_pair :: "string \<Rightarrow> (string \<times> string) option" where
  "dial_pair pair = map_option (\<lambda>(real, dial). (trim real, trim dial)) (split_once CHR ''='' (trim pair))"

definition dial_map :: "string option \<Rightarrow> (string, string) hashmap" where
  "dial_map var =
     (case var of
        None \<Rightarrow> []
      | Some raw \<Rightarrow> foldl (\<lambda>m (r, d). hm_insert r d m) [] (List.map_filter dial_pair (split_pred (\<lambda>c. c = CHR '','') raw)))"

record raft_client =
  rc_target :: nat
  rc_addr :: string

definition new_client :: "(string, string) hashmap \<Rightarrow> nat \<Rightarrow> string \<Rightarrow> raft_client" where
  "new_client dials target addr =
     \<lparr>rc_target = target, rc_addr = (case hm_get dials addr of Some d \<Rightarrow> d | None \<Rightarrow> addr)\<rparr>"

section \<open>The client\<close>

datatype 'e raft_rpc_error = RpcUnreachable string | RpcNetwork string | RpcRemote nat 'e

datatype raft_method = AppendEntries | Vote | InstallSnapshot

definition method_of :: "string \<Rightarrow> raft_method" where
  "method_of which = (if which = ''append'' then AppendEntries else if which = ''vote'' then Vote else InstallSnapshot)"

text \<open>One round trip: \<open>connect\<close> is the connection, \<open>call\<close> the RPC on the bytes.\<close>

definition round_trip ::
  "('q \<Rightarrow> string + u8 list) \<Rightarrow> (u8 list \<Rightarrow> string + ('e + 'r)) \<Rightarrow> (string \<Rightarrow> string + unit) \<Rightarrow>
    (raft_method \<Rightarrow> u8 list \<Rightarrow> 's \<Rightarrow> (string + u8 list) \<times> 's) \<Rightarrow> raft_client \<Rightarrow> string \<Rightarrow> 'q \<Rightarrow> 's \<Rightarrow>
    ('e raft_rpc_error + 'r) \<times> 's" where
  "round_trip to_vec from_slice connect call c which req s =
     (case connect (rc_addr c) of
        Inl e \<Rightarrow> (Inl (RpcUnreachable e), s)
      | Inr _ \<Rightarrow>
          (case to_vec req of
             Inl e \<Rightarrow> (Inl (RpcNetwork e), s)
           | Inr payload \<Rightarrow>
               (case call (method_of which) payload s of
                  (Inl e, s1) \<Rightarrow> (Inl (RpcNetwork e), s1)
                | (Inr data, s1) \<Rightarrow>
                    (case from_slice data of
                       Inl e \<Rightarrow> (Inl (RpcNetwork e), s1)
                     | Inr (Inr resp) \<Rightarrow> (Inr resp, s1)
                     | Inr (Inl e) \<Rightarrow> (Inl (RpcRemote (rc_target c) e), s1)))))"

definition client_append_entries where
  "client_append_entries tv fs connect call c = round_trip tv fs connect call c ''append''"

definition client_vote where
  "client_vote tv fs connect call c = round_trip tv fs connect call c ''vote''"

definition client_install_snapshot where
  "client_install_snapshot tv fs connect call c = round_trip tv fs connect call c ''snapshot''"

section \<open>The server\<close>

definition transport_decode :: "(u8 list \<Rightarrow> string + 'q) \<Rightarrow> u8 list \<Rightarrow> status + 'q" where
  "transport_decode from_slice payload = map_sum InvalidArgument (\<lambda>q. q) (from_slice payload)"

definition transport_encode :: "('v \<Rightarrow> string + u8 list) \<Rightarrow> 'v \<Rightarrow> status + u8 list" where
  "transport_encode to_vec value = map_sum Internal (\<lambda>b. b) (to_vec value)"

definition transport_serve ::
  "(u8 list \<Rightarrow> string + 'q) \<Rightarrow> (('e + 'r) \<Rightarrow> string + u8 list) \<Rightarrow> ('q \<Rightarrow> 's \<Rightarrow> ('e + 'r) \<times> 's) \<Rightarrow> u8 list \<Rightarrow> 's \<Rightarrow>
    (status + u8 list) \<times> 's" where
  "transport_serve from_slice to_vec raft payload s =
     (case transport_decode from_slice payload of
        Inl st \<Rightarrow> (Inl st, s)
      | Inr rpc \<Rightarrow> (case raft rpc s of (result, s1) \<Rightarrow> (transport_encode to_vec result, s1)))"

section \<open>Transparency\<close>

text \<open>The network between the two: the request or the reply may be lost.\<close>

definition over_network ::
  "bool \<Rightarrow> bool \<Rightarrow> (status \<Rightarrow> string) \<Rightarrow> (raft_method \<Rightarrow> u8 list \<Rightarrow> 's \<Rightarrow> (status + u8 list) \<times> 's) \<Rightarrow>
    raft_method \<Rightarrow> u8 list \<Rightarrow> 's \<Rightarrow> (string + u8 list) \<times> 's" where
  "over_network request_lost reply_lost show_status server meth payload s =
     (if request_lost then (Inl ''lost'', s)
      else case server meth payload s of (r, s1) \<Rightarrow> (if reply_lost then Inl ''lost'' else map_sum show_status (\<lambda>b. b) r, s1))"

text \<open>What the serialization promises: it writes every value, and reads back what it wrote.\<close>

definition serializes :: "('v \<Rightarrow> string + u8 list) \<Rightarrow> (u8 list \<Rightarrow> string + 'v) \<Rightarrow> bool" where
  "serializes to_vec from_slice \<longleftrightarrow> (\<forall>v. \<exists>b. to_vec v = Inr b \<and> from_slice b = Inr v)"

definition remote_outcome :: "nat \<Rightarrow> 'e + 'r \<Rightarrow> 'e raft_rpc_error + 'r" where
  "remote_outcome target r = map_sum (RpcRemote target) (\<lambda>x. x) r"

text \<open>
  C24: The transport is transparent. A raft call over the transport has one of four outcomes. An
  unreachable peer is reported as such and nothing happened there. If the request is lost, a
  network error is reported and nothing happened there. If the reply is lost, a network error is
  reported although the peer's raft has handled the request, once. Otherwise the caller gets
  exactly what the peer's raft returned for this method and request, errors of the remote raft
  marked with the target's id; no other outcome is reported as a remote error.
\<close>

theorem transport_transparent:
  assumes req: "serializes enc_req dec_req" and res: "serializes enc_res dec_res"
  shows "round_trip enc_req dec_res connect
      (over_network request_lost reply_lost show_status (\<lambda>meth. transport_serve dec_req enc_res (raft meth))) c which q s =
    (case connect (rc_addr c) of
       Inl e \<Rightarrow> (Inl (RpcUnreachable e), s)
     | Inr _ \<Rightarrow>
         if request_lost then (Inl (RpcNetwork ''lost''), s)
         else case raft (method_of which) q s of
                (r, s1) \<Rightarrow> (if reply_lost then Inl (RpcNetwork ''lost'') else remote_outcome (rc_target c) r, s1))"
proof (cases "connect (rc_addr c)")
  case (Inr u)
  obtain b where b: "enc_req q = Inr b" "dec_req b = Inr q" using req by (auto simp: serializes_def)
  obtain r s1 where r: "raft (method_of which) q s = (r, s1)" by fastforce
  obtain d where d: "enc_res r = Inr d" "dec_res d = Inr r" using res by (auto simp: serializes_def)
  show ?thesis
    by (cases r) (use Inr b r d in
      \<open>simp_all add: round_trip_def over_network_def transport_serve_def transport_decode_def transport_encode_def remote_outcome_def\<close>)
qed (simp add: round_trip_def)

text \<open>A peer that counts its votes, with the reply lost.\<close>

definition sample_write :: "(bool + bool) \<Rightarrow> string + u8 list" where
  "sample_write v = Inr (case v of Inl b \<Rightarrow> [0, of_bool b] | Inr b \<Rightarrow> [1, of_bool b])"

definition sample_read :: "u8 list \<Rightarrow> string + (bool + bool)" where
  "sample_read b =
     (if length b = 2 then Inr (if b ! 0 = 0 then Inl (b ! 1 = 1) else Inr (b ! 1 = 1)) else Inl ''bad length'')"

theorem transport_transparent_witness:
  "round_trip sample_write sample_read (\<lambda>_. Inr ())
      (over_network False True (\<lambda>_. ''status'') (\<lambda>meth. transport_serve sample_read sample_write (\<lambda>q n. (Inr (meth = Vote), Suc n))))
      \<lparr>rc_target = 3, rc_addr = ''a:1''\<rparr> ''vote'' (Inl True) 0 = (Inl (RpcNetwork ''lost''), 1)"
proof -
  have "serializes sample_write sample_read"
    by (auto simp: serializes_def sample_write_def sample_read_def split: sum.split)
  from transport_transparent [OF this this, of "\<lambda>_. Inr ()" False True "\<lambda>_. ''status''" "\<lambda>meth q n. (Inr (meth = Vote), Suc n)"
      "\<lparr>rc_target = 3, rc_addr = ''a:1''\<rparr>" "''vote''" "Inl True" 0]
  show ?thesis by simp
qed

end
