(* ===== verification/Proxy.thy ===== *)
theory Proxy
  imports Aether_Prelude
begin

text \<open>
  The fault-injection proxy of \<^verbatim>\<open>src/crates/testkit/src/lib.rs\<close>: one direction of one peer
  link, cut and restored by a switch. Two threads share its state, the accept loop and the owner
  that calls block, unblock and drop, so the model is a step relation whose steps are the places
  where one of them touches the shared state: the load of the flag, the spawn of a splice and the
  push of its handle on one side, the store of the flag and the drain of the handles on the other.
  The mutex makes the push and the whole drain atomic (the guard lives as long as the loop over the
  drained handles). A splice is live from its spawn until it ends by itself or is aborted; whether
  its dial at the target succeeds is the network's, and a failed dial is an early end.
\<close>

section \<open>State\<close>

type_synonym splice = nat

text \<open>
  Where the accept loop is: waiting in accept (its only await, hence the only place where aborting
  the loop takes effect), past the load of the flag, or past the spawn with a handle to push.
\<close>
datatype accept_pc = Accepting | Admitted | Spawned splice

text \<open>
  Where the owner is: between calls, inside block after the store, inside drop after the abort of
  the accept loop, or done with drop.
\<close>
datatype owner_pc = OwnerIdle | Blocking | Dropping | Dropped

record proxy =
  px_blocked :: bool
  px_splices :: "splice list"
  px_accepts :: bool
  px_live :: "splice set"
  px_fresh :: splice
  px_loop :: accept_pc
  px_owner :: owner_pc

definition proxy_spawn :: proxy where
  "proxy_spawn = \<lparr>px_blocked = False, px_splices = [], px_accepts = True, px_live = {},
                  px_fresh = 0, px_loop = Accepting, px_owner = OwnerIdle\<rparr>"

section \<open>The accept loop\<close>

text \<open>An accepted connection: dropped on arrival while the flag is set, admitted otherwise.\<close>
definition accept_connection :: "proxy \<Rightarrow> proxy" where
  "accept_connection p = (if px_blocked p then p else p\<lparr>px_loop := Admitted\<rparr>)"

definition spawn_splice :: "proxy \<Rightarrow> proxy" where
  "spawn_splice p = p\<lparr>px_live := insert (px_fresh p) (px_live p), px_fresh := Suc (px_fresh p),
                      px_loop := Spawned (px_fresh p)\<rparr>"

text \<open>Under the lock: finished handles are forgotten and the new one is pushed.\<close>
definition push_splice :: "splice \<Rightarrow> proxy \<Rightarrow> proxy" where
  "push_splice h p = p\<lparr>px_splices := filter (\<lambda>x. x \<in> px_live p) (px_splices p) @ [h],
                       px_loop := Accepting\<rparr>"

section \<open>The owner\<close>

definition abort_all :: "proxy \<Rightarrow> proxy" where
  "abort_all p = p\<lparr>px_live := px_live p - set (px_splices p), px_splices := []\<rparr>"

definition block_store :: "proxy \<Rightarrow> proxy" where
  "block_store p = p\<lparr>px_blocked := True, px_owner := Blocking\<rparr>"

definition block_drain :: "proxy \<Rightarrow> proxy" where
  "block_drain p = (abort_all p)\<lparr>px_owner := OwnerIdle\<rparr>"

definition unblock :: "proxy \<Rightarrow> proxy" where
  "unblock p = p\<lparr>px_blocked := False\<rparr>"

definition is_blocked :: "proxy \<Rightarrow> bool" where
  "is_blocked p = px_blocked p"

definition drop_abort :: "proxy \<Rightarrow> proxy" where
  "drop_abort p = p\<lparr>px_accepts := False, px_owner := Dropping\<rparr>"

definition drop_drain :: "proxy \<Rightarrow> proxy" where
  "drop_drain p = (abort_all p)\<lparr>px_owner := Dropped\<rparr>"

section \<open>Interleavings\<close>

datatype proxy_event = Dial | SpawnSplice | PushSplice | SpliceEnds splice
  | BlockStore | BlockDrain | Unblock | DropAbort | DropDrain

inductive proxy_step :: "proxy_event \<Rightarrow> proxy \<Rightarrow> proxy \<Rightarrow> bool" where
  Dial: "px_loop p = Accepting \<Longrightarrow> px_accepts p \<Longrightarrow> proxy_step Dial p (accept_connection p)"
| SpawnSplice: "px_loop p = Admitted \<Longrightarrow> proxy_step SpawnSplice p (spawn_splice p)"
| PushSplice: "px_loop p = Spawned h \<Longrightarrow> proxy_step PushSplice p (push_splice h p)"
| SpliceEnds: "h \<in> px_live p \<Longrightarrow> proxy_step (SpliceEnds h) p (p\<lparr>px_live := px_live p - {h}\<rparr>)"
| BlockStore: "px_owner p = OwnerIdle \<Longrightarrow> proxy_step BlockStore p (block_store p)"
| BlockDrain: "px_owner p = Blocking \<Longrightarrow> proxy_step BlockDrain p (block_drain p)"
| Unblock: "px_owner p = OwnerIdle \<Longrightarrow> proxy_step Unblock p (unblock p)"
| DropAbort: "px_owner p = OwnerIdle \<Longrightarrow> proxy_step DropAbort p (drop_abort p)"
| DropDrain: "px_owner p = Dropping \<Longrightarrow> proxy_step DropDrain p (drop_drain p)"

inductive proxy_runs :: "proxy \<Rightarrow> proxy_event list \<Rightarrow> proxy \<Rightarrow> bool" where
  runs_nil: "proxy_runs p [] p"
| runs_cons: "proxy_step e p q \<Longrightarrow> proxy_runs q es r \<Longrightarrow> proxy_runs p (e # es) r"

inductive_cases proxy_stepE: "proxy_step e p q"

inductive_simps proxy_runs_simps: "proxy_runs p [] r" "proxy_runs p (e # es) r"

inductive_simps proxy_step_simps: "proxy_step Dial p q" "proxy_step SpawnSplice p q"
  "proxy_step PushSplice p q" "proxy_step BlockStore p q" "proxy_step BlockDrain p q"

lemmas proxy_ops = accept_connection_def spawn_splice_def push_splice_def abort_all_def
  block_store_def block_drain_def unblock_def is_blocked_def drop_abort_def drop_drain_def

text \<open>What every step keeps, every run keeps.\<close>
lemma proxy_runs_keep:
  assumes "proxy_runs p es q" and "I p"
    and "\<And>e p q. e \<in> set es \<Longrightarrow> proxy_step e p q \<Longrightarrow> I p \<Longrightarrow> I q"
  shows "I q"
  using assms by induction auto

section \<open>What the switch guarantees\<close>

text \<open>A handle the accept loop still owes to the vector: between the check and the push.\<close>
fun owed :: "accept_pc \<Rightarrow> nat" where
  "owed Accepting = 0"
| "owed Admitted = 1"
| "owed (Spawned h) = 1"

fun pending :: "accept_pc \<Rightarrow> splice set" where
  "pending (Spawned h) = {h}"
| "pending _ = {}"

text \<open>
  Every live splice has its handle in the vector or pending in the accept loop; block holds the
  flag set while it drains, drop has the accept loop aborted; and once either has returned, the
  vector and the accept loop hold at most one handle between them.
\<close>
definition proxy_inv :: "proxy \<Rightarrow> bool" where
  "proxy_inv p \<longleftrightarrow> px_live p \<subseteq> set (px_splices p) \<union> pending (px_loop p)
     \<and> (px_owner p = Blocking \<longrightarrow> px_blocked p)
     \<and> (px_owner p \<in> {Dropping, Dropped} \<longrightarrow> \<not> px_accepts p)
     \<and> (px_owner p = OwnerIdle \<and> px_blocked p \<or> px_owner p = Dropped
          \<longrightarrow> length (px_splices p) + owed (px_loop p) \<le> 1)"

lemma finite_pending: "finite (pending pc)"
  by (cases pc) auto

lemma owed_le: "owed pc \<le> 1"
  by (cases pc) auto

lemma proxy_step_inv:
  assumes "proxy_step e p q" and inv: "proxy_inv p"
  shows "proxy_inv q"
  using assms(1)
proof cases
  case (PushSplice h)
  have "length (filter (\<lambda>x. x \<in> px_live p) (px_splices p)) \<le> length (px_splices p)"
    by (rule length_filter_le)
  then show ?thesis
    using inv PushSplice by (auto simp: proxy_inv_def push_splice_def)
qed (use inv owed_le[of "px_loop p"] in \<open>auto simp: proxy_inv_def proxy_ops\<close>)

lemma proxy_runs_inv:
  assumes "proxy_runs proxy_spawn es p"
  shows "proxy_inv p"
proof (rule proxy_runs_keep[OF assms])
  show "proxy_inv proxy_spawn" by (simp add: proxy_inv_def proxy_spawn_def)
qed (rule proxy_step_inv)

text \<open>The vector and the loop bound the live splices.\<close>
lemma live_bound:
  assumes "proxy_inv p" and "px_owner p = OwnerIdle \<and> px_blocked p \<or> px_owner p = Dropped"
  shows "card (px_live p) \<le> 1"
proof -
  let ?S = "set (px_splices p) \<union> pending (px_loop p)"
  have "card (px_live p) \<le> card ?S"
    using assms(1) by (intro card_mono finite_UnI finite_set finite_pending) (simp add: proxy_inv_def)
  also have "\<dots> \<le> card (set (px_splices p)) + card (pending (px_loop p))" by (rule card_Un_le)
  also have "\<dots> \<le> length (px_splices p) + owed (px_loop p)"
    by (intro add_mono card_length) (cases "px_loop p"; simp)
  also have "\<dots> \<le> 1" using assms by (auto simp: proxy_inv_def)
  finally show ?thesis .
qed

text \<open>With the loop back in accept and nothing live, the cut is complete until it is lifted.\<close>
definition severed :: "proxy \<Rightarrow> bool" where
  "severed p \<longleftrightarrow> px_blocked p \<and> px_loop p = Accepting \<and> px_live p = {}"

lemma severed_step:
  assumes "proxy_step e p q" and "severed p" and "e \<noteq> Unblock"
  shows "severed q"
  using assms by (elim proxy_stepE) (auto simp: severed_def proxy_ops)

lemma severed_runs:
  assumes "proxy_runs p es q" and "severed p" and "Unblock \<notin> set es"
  shows "severed q"
  using assms(1,2) by (rule proxy_runs_keep) (use assms(3) severed_step in metis)

lemma drain_severs:
  assumes "proxy_inv p" and "px_owner p = Blocking" and "px_loop p = Accepting"
  shows "severed (block_drain p)"
  using assms by (auto simp: proxy_inv_def severed_def proxy_ops)

text \<open>
  The race: a connection admitted before the store is spawned and pushed after the drain, and
  stays live although block has returned.
\<close>
lemma block_race:
  "\<exists>p. proxy_runs proxy_spawn [Dial, BlockStore, BlockDrain, SpawnSplice, PushSplice] p
     \<and> is_blocked p \<and> px_owner p = OwnerIdle \<and> px_loop p = Accepting \<and> px_live p = {0}"
  by (simp add: proxy_runs_simps proxy_step_simps proxy_ops proxy_spawn_def)

lemma dial_goes_through:
  assumes "px_loop p = Accepting" and "px_accepts p" and "\<not> px_blocked p"
  shows "\<exists>q. proxy_runs p [Dial, SpawnSplice, PushSplice] q \<and> px_fresh p \<in> px_live q"
  using assms by (simp add: proxy_runs_simps proxy_step_simps proxy_ops)


text \<open>
  One connection is spliced, then block is called with the loop back in accept: after the drain
  and a refused dial nothing is live.
\<close>
definition sample_cut :: proxy where
  "sample_cut = \<lparr>px_blocked = True, px_splices = [0], px_accepts = True, px_live = {0}, px_fresh = 1,
                 px_loop = Accepting, px_owner = Blocking\<rparr>"


end
