(* ===== verification/Spec2Isabelle.thy ===== *)
theory Spec2Isabelle
  imports Cluster_Search Cold_Boot Control_Node Memory Planners Transport Proxy
begin

text \<open>
  \<^bold>\<open>Aether: a distributed flight-search engine.\<close>

  \<^bold>\<open>The program.\<close> Shard nodes ingest flight documents, keep the ones they own in a keyword index and
  a vector index, and answer queries over them. A coordinator keeps the registry of nodes, scatters
  each query to the leaders of the shards and merges the answers. Each shard may be a raft group, and
  so may the coordinators; both use one crate that supplies the consensus library with a durable log,
  a snapshotting state machine, a transport and an object-store tier. Around the engine there are
  clients: agent tools, question answering with local or remote planners, a briefing sender, an MCP
  server, a federation client, an agent memory, a dashboard with a process supervisor, and a proxy
  that cuts links in tests. Paths below are under \<^verbatim>\<open>src/crates\<close>.

  \<^bold>\<open>Shared theories.\<close>
  \<^item> \<open>Aether_Prelude\<close>: names of the machine types, Rust's \<open>Ordering\<close>, its stable \<open>sort_by\<close>, and hash
    maps as association lists with an explicit iteration order. Its locale \<open>comparator\<close> has the laws a
    sort needs; it is interpreted for every comparison the program sorts with.
  \<^item> \<open>Text_Tokens\<close>: splitting, trimming, decimal numbers, and the tokenizer three crates share.
  \<^item> \<open>Float64\<close>: binary64 and binary32 with not-a-number, signed zero, infinities and rounding.
  \<^item> \<open>Json\<close>, \<open>Documents\<close>: JSON values with the accessors the code calls, and the wire messages.
  \<^item> \<open>Doc_View\<close>: the locale \<open>doc_view\<close>, the contract of a keyed view of documents; interpreted for the
    keyword index, the vector index and the store that keeps both.

  \<^bold>\<open>A shard.\<close>
  \<^item> \<open>Shard_Key\<close> (\<^verbatim>\<open>common/src/shard.rs\<close>): the 64-bit hash and the shard of a key; each step of the
    hash is injective.
  \<^item> \<open>Index\<close> (\<^verbatim>\<open>shard-node/src/index.rs\<close>): slots, free list, postings and BM25. After any operations
    a search is the ranked prefix of a specification over the corpus (C4).
  \<^item> \<open>Quant\<close>, \<open>Vector\<close> (\<^verbatim>\<open>common/src/embed.rs\<close>, \<^verbatim>\<open>shard-node/src/quant.rs\<close>, \<^verbatim>\<open>vector.rs\<close>): embedding,
    quantization, and the three search modes (C8).
  \<^item> \<open>Store\<close> (\<^verbatim>\<open>store.rs\<close>): both indexes in lockstep, and eviction of virtual shards (C11).
  \<^item> \<open>Doc_Filter\<close>, \<open>TDigest\<close>, \<open>Agg\<close> (\<^verbatim>\<open>common/src/filter.rs\<close>, \<^verbatim>\<open>tdigest.rs\<close>, \<^verbatim>\<open>shard-node/src/agg.rs\<close>,
    \<^verbatim>\<open>coordinator/src/agg.rs\<close>): filters and their errors (C33), mergeable aggregates (C31, C32).
  \<^item> \<open>Server\<close> (\<^verbatim>\<open>server.rs\<close>, \<^verbatim>\<open>replication.rs\<close>): the query service (C7) and primary-backup copies.
  \<^item> \<open>Ingest\<close> (\<^verbatim>\<open>ingest.rs\<close>): the sources, ownership, and the producer and consumer around a bounded
    queue as a step relation (C5).
  \<^item> \<open>Shard_App\<close>, \<open>Shard_Group\<close> (\<^verbatim>\<open>raft/\<close>, \<^verbatim>\<open>cluster.rs\<close>): the replicated store (C10), group formation,
    heartbeats, eviction of what a group no longer owns (C6), and membership changes (C30).

  \<^bold>\<open>The coordinator.\<close>
  \<^item> \<open>Registry\<close> (\<^verbatim>\<open>coordinator/src/registry.rs\<close>): registration, heartbeats, reaping, failover, placement
    and drains; an invariant of all reachable registries (C16, C17, C18, C37).
  \<^item> \<open>Fanout\<close>, \<open>Hybrid\<close> (\<^verbatim>\<open>fanout.rs\<close>, \<^verbatim>\<open>hybrid.rs\<close>): scatter-gather, deduplication, ranking, the
    progressive merge and rank fusion, each against a specification without hash maps (C2, C3, C9,
    C29, C36).
  \<^item> \<open>Auth\<close>, \<open>Service\<close> (\<^verbatim>\<open>auth.rs\<close>, \<^verbatim>\<open>service.rs\<close>, \<^verbatim>\<open>metrics.rs\<close>): every call, its guards, and the
    metrics (C34, C35).
  \<^item> \<open>Cluster_Search\<close>: coordinator and shards composed; one search over the cluster returns exactly what
    a single index over all documents would rank first (C1).
  \<^item> \<open>Control\<close>, \<open>Control_Node\<close> (\<^verbatim>\<open>control.rs\<close>, \<^verbatim>\<open>main.rs\<close>): the coordinators' state group (C40) and the
    process as its main builds it, with what a restart recovers (C23).

  \<^bold>\<open>Consensus storage\<close> (\<^verbatim>\<open>consensus/src\<close>).
  \<^item> \<open>Raft_Log\<close> (\<^verbatim>\<open>storage.rs\<close>): the in-memory log and the locale \<open>raft_log_storage\<close> with what the library
    relies on, interpreted for the in-memory and for the durable log.
  \<^item> \<open>Wal\<close>, \<open>Wal_Runs\<close> (\<^verbatim>\<open>wal.rs\<close>): frames, segments, recovery, appending, rotation, purging and the vote
    file. Files are byte lists; a crash is a cut of a file. The durable log refines the in-memory one
    (C12 to C15, C38). \<open>Wal_Runs\<close> has concrete directories, three of which recovery gets wrong.
  \<^item> \<open>Raft_Sm\<close>, \<open>S3_Tier\<close>, \<open>Cold_Boot\<close> (\<^verbatim>\<open>storage.rs\<close>, \<^verbatim>\<open>s3.rs\<close>): the state machine over any application
    (locale \<open>state_machine_app\<close>, interpreted for the shard's and for the coordinators'), snapshots on
    disk (C39) and in the object store (C22).
  \<^item> \<open>Transport\<close> (\<^verbatim>\<open>network.rs\<close>, \<^verbatim>\<open>service.rs\<close>, \<^verbatim>\<open>lib.rs\<close>): client and server of the raft calls (C24).

  \<^bold>\<open>Around the engine.\<close>
  \<^item> \<open>Startup\<close> (\<^verbatim>\<open>shard-node/src/main.rs\<close>, \<^verbatim>\<open>coordinator/src/main.rs\<close>): from environment to role, ownership
    and tasks; a started cluster partitions the documents (C21).
  \<^item> \<open>Client\<close>, \<open>Agent_Tools\<close> (\<^verbatim>\<open>common/src/client.rs\<close>, \<^verbatim>\<open>net.rs\<close>, \<^verbatim>\<open>federation\<close>, \<^verbatim>\<open>agent-tools\<close>): address
    lists, filter arguments, fail-over, federation, and the tools with their rendering.
  \<^item> \<open>Nlq\<close>, \<open>Planners\<close> (\<^verbatim>\<open>nlq\<close>, \<^verbatim>\<open>briefing\<close>, \<^verbatim>\<open>mcp-agent\<close>): the bounded question loop (C19), briefings
    (C20), remote planners, the evaluation program and the MCP server (C28).
  \<^item> \<open>Memory\<close> (\<^verbatim>\<open>memory\<close>): agent memory with quotas and expiry (C25).
  \<^item> \<open>Supervisor\<close>, \<open>Dashboard\<close> (\<^verbatim>\<open>dashboard\<close>): child processes (C26), the event log, poller and handlers.
  \<^item> \<open>Proxy\<close> (\<^verbatim>\<open>testkit\<close>): the link-cutting proxy as interleaved steps (C27).

  \<^bold>\<open>How state and effects are modelled.\<close> A struct is a record, an enum a datatype, a Rust map an
  association list with distinct keys; an operation returns the new state. A panic and an error that
  is propagated are \<open>None\<close> or \<open>Inl\<close>. Locks make an operation atomic; where two tasks really interleave
  (ingestion, the proxy) the steps are those of the shared state. Machine integers keep their width;
  clock readings and lengths are natural numbers where the code cannot overflow them.

  \<^bold>\<open>Parameters.\<close> What the repository only calls is an argument: the iteration order of hash maps
  (any permutation), the natural logarithm and arcsine (their rounded values), the display of floats,
  the binary codecs and the checksum, the HNSW graph (any answers over inserted points), the network
  and the schedule of answers, the object store (with its page of 1000 keys in ascending order), the
  outcome of launching a process, the planner, the mail sink, the parsing of socket addresses, and the
  answers of the consensus library. Where a property needs more of one of them, it is a hypothesis of
  that property, and its witness gives an instance.

  \<^bold>\<open>Bounds and fuel.\<close> Waiting for a group to form polls for ever in the code: \<open>wait_for_group\<close> has fuel,
  and \<open>None\<close> is not having returned. The briefing loop is run for a given number of cycles. Every other
  function is total. Ingestion ends when the number of polls is limited (a decreasing measure), the
  question loop because of its budget. The tokenizer, case folding and white space are those of ASCII.
  The supervisor's ports are 16 bits wide, so C26 is stated up to 65536 launches. Exact digest weights
  hold below \<open>2 ^ 53\<close> samples, indexes and segment numbers below \<open>2 ^ 64\<close>.

  \<^bold>\<open>Not modelled.\<close> The consensus protocol is the library's; leadership and commitment are not proved
  here, only what this code does with a committed log. TLS, gRPC, HTTP and WebSocket transport, the
  static web page, the ONNX embedder, SMTP, and the construction of AWS clients are third-party code
  the sources only configure. The example programs only print answers of the modelled calls. Log lines
  are left out, the descriptions in the tools' JSON schemas are data. Of time only what the code
  compares is modelled, not how long a task sleeps. An abort of a task is taken to act at once.
\<close>

end
